(* ===== verification/Go_Prelude.thy ===== *)
theory Go_Prelude
  imports Main "HOL-Library.Word" "HOL-Library.AList"
begin

text \<open>
  The vocabulary every component shares: what the source uses of the Go language and of its
  standard library, and the generic lemmas about it.

  Strings are byte strings, as in Go: a \<open>string\<close> is a list of \<open>char\<close>, and a \<open>char\<close> is one byte.
  \<^item> \<open>trim_space\<close> is \<^verbatim>\<open>strings.TrimSpace\<close> with the full Unicode \<^verbatim>\<open>White_Space\<close> set, recognised by
    its UTF-8 encodings. A lead byte of such an encoding is never a continuation byte, so matching
    the encoding at either end of the byte string is what decoding runes from that end finds.
  \<^item> \<open>to_lower\<close> is \<^verbatim>\<open>strings.ToLower\<close> on ASCII; bytes from 128 up are kept.
  \<^item> \<open>cut\<close>, \<open>split_char\<close>, \<open>join\<close>, \<open>has_prefix\<close>, \<open>trim_prefix\<close> and their kin are the functions of
    package \<^verbatim>\<open>strings\<close> of the same name; \<open>split_char\<close> is \<^verbatim>\<open>strings.Split\<close> with a one-byte separator.
  \<^item> \<open>atoi\<close> is \<^verbatim>\<open>strconv.Atoi\<close> without its range error: every caller in the source rejects values
    above 65535, so a number out of the range of \<^verbatim>\<open>int\<close> is rejected either way.
  \<^item> A \<^verbatim>\<open>time.Time\<close> is an \<open>int\<close>, the nanoseconds since the zero time, so the zero time is \<open>0\<close>;
    \<open>time_sub\<close> saturates at the bounds of a 64-bit \<^verbatim>\<open>time.Duration\<close> as \<^verbatim>\<open>Time.Sub\<close> does.
  \<^item> A Go map whose size or iteration matters is an association list with distinct keys,
    updated with \<open>AList.update\<close>; iteration order never matters in the code modelled this way.
\<close>

named_theorems go_str \<open>evaluation of the string functions of package strings\<close>
named_theorems go_time \<open>unfolding of instants and durations\<close>

section \<open>Results, durations, instants\<close>

type_synonym ('e, 'a) result = "'e + 'a"
type_synonym time = int
type_synonym duration = int

abbreviation Err :: "'e \<Rightarrow> ('e, 'a) result" where "Err \<equiv> Inl"
abbreviation Ok :: "'a \<Rightarrow> ('e, 'a) result" where "Ok \<equiv> Inr"

definition millisecond :: duration where [go_time]: "millisecond = 1000000"
definition second :: duration where [go_time]: "second = 1000000000"
definition minute :: duration where [go_time]: "minute = 60 * 1000000000"

definition is_zero_time :: "time \<Rightarrow> bool" where
  "is_zero_time t \<longleftrightarrow> t = 0"

definition time_sub :: "time \<Rightarrow> time \<Rightarrow> duration" where
  "time_sub t u = max (- (2 ^ 63)) (min (2 ^ 63 - 1) (t - u))"

lemma time_sub_le_iff:
  "d < 2 ^ 63 - 1 \<Longrightarrow> - (2 ^ 63) \<le> d \<Longrightarrow> time_sub t u \<le> d \<longleftrightarrow> t - u \<le> d"
  by (auto simp: time_sub_def max_def min_def)

lemma time_sub_ge_iff:
  "d \<le> 2 ^ 63 - 1 \<Longrightarrow> - (2 ^ 63) < d \<Longrightarrow> d \<le> time_sub t u \<longleftrightarrow> d \<le> t - u"
  by (auto simp: time_sub_def max_def min_def)

lemma time_sub_gt_iff:
  "d < 2 ^ 63 - 1 \<Longrightarrow> - (2 ^ 63) \<le> d \<Longrightarrow> d < time_sub t u \<longleftrightarrow> d < t - u"
  by (auto simp: time_sub_def max_def min_def)

section \<open>Package strings\<close>

definition has_prefix :: "string \<Rightarrow> string \<Rightarrow> bool" where
  "has_prefix s p \<longleftrightarrow> take (length p) s = p"

definition has_suffix :: "string \<Rightarrow> string \<Rightarrow> bool" where
  "has_suffix s p \<longleftrightarrow> length p \<le> length s \<and> drop (length s - length p) s = p"

definition trim_prefix :: "string \<Rightarrow> string \<Rightarrow> string" where
  "trim_prefix s p = (if has_prefix s p then drop (length p) s else s)"

definition trim_suffix :: "string \<Rightarrow> string \<Rightarrow> string" where
  "trim_suffix s p = (if has_suffix s p then take (length s - length p) s else s)"

fun cut :: "string \<Rightarrow> string \<Rightarrow> (string \<times> string) option" where
  "cut sep [] = (if sep = [] then Some ([], []) else None)"
| "cut sep (c # cs) =
     (if has_prefix (c # cs) sep then Some ([], drop (length sep) (c # cs))
      else map_option (\<lambda>(a, b). (c # a, b)) (cut sep cs))"

fun split_char :: "char \<Rightarrow> string \<Rightarrow> string list" where
  "split_char sep [] = [[]]"
| "split_char sep (c # cs) =
     (if c = sep then [] # split_char sep cs
      else case split_char sep cs of [] \<Rightarrow> [[c]] | w # ws \<Rightarrow> (c # w) # ws)"

fun join :: "string \<Rightarrow> string list \<Rightarrow> string" where
  "join sep [] = []"
| "join sep [w] = w"
| "join sep (w # v # ws) = w @ sep @ join sep (v # ws)"

fun replace_char :: "char \<Rightarrow> string \<Rightarrow> string \<Rightarrow> string" where
  "replace_char old new [] = []"
| "replace_char old new (c # cs) =
     (if c = old then new @ replace_char old new cs else c # replace_char old new cs)"

text \<open>The UTF-8 encodings of the Unicode \<^verbatim>\<open>White_Space\<close> characters.\<close>

definition space_seqs :: "string list" where
  "space_seqs =
     [[CHR 0x20], [CHR 0x09], [CHR 0x0A], [CHR 0x0B], [CHR 0x0C], [CHR 0x0D],
      [CHR 0xC2, CHR 0x85], [CHR 0xC2, CHR 0xA0], [CHR 0xE1, CHR 0x9A, CHR 0x80]]
     @ map (\<lambda>n. [CHR 0xE2, CHR 0x80, char_of (n :: nat)]) [0x80..<0x8B]
     @ [[CHR 0xE2, CHR 0x80, CHR 0xA8], [CHR 0xE2, CHR 0x80, CHR 0xA9],
        [CHR 0xE2, CHR 0x80, CHR 0xAF], [CHR 0xE2, CHR 0x81, CHR 0x9F],
        [CHR 0xE3, CHR 0x80, CHR 0x80]]"

definition space_at_start :: "string \<Rightarrow> nat option" where
  "space_at_start s = map_option length (find (has_prefix s) space_seqs)"

definition space_at_end :: "string \<Rightarrow> nat option" where
  "space_at_end s = map_option length (find (has_suffix s) space_seqs)"

fun trim_left_fuel :: "nat \<Rightarrow> string \<Rightarrow> string" where
  "trim_left_fuel 0 s = s"
| "trim_left_fuel (Suc n) s =
     (case space_at_start s of None \<Rightarrow> s | Some k \<Rightarrow> trim_left_fuel n (drop k s))"

fun trim_right_fuel :: "nat \<Rightarrow> string \<Rightarrow> string" where
  "trim_right_fuel 0 s = s"
| "trim_right_fuel (Suc n) s =
     (case space_at_end s of None \<Rightarrow> s | Some k \<Rightarrow> trim_right_fuel n (take (length s - k) s))"

text \<open>Every round removes at least one byte, so the length of the string is enough fuel.\<close>

definition trim_left :: "string \<Rightarrow> string" where
  "trim_left s = trim_left_fuel (length s) s"

definition trim_right :: "string \<Rightarrow> string" where
  "trim_right s = trim_right_fuel (length s) s"

definition trim_space :: "string \<Rightarrow> string" where
  "trim_space s = trim_right (trim_left s)"

definition byte_of :: "char \<Rightarrow> nat" where
  "byte_of c = of_char c"

definition to_lower_char :: "char \<Rightarrow> char" where
  "to_lower_char c = (if 65 \<le> byte_of c \<and> byte_of c \<le> 90 then char_of (byte_of c + 32) else c)"

definition to_lower :: "string \<Rightarrow> string" where
  "to_lower s = map to_lower_char s"

definition is_digit :: "char \<Rightarrow> bool" where
  "is_digit c \<longleftrightarrow> 48 \<le> byte_of c \<and> byte_of c \<le> 57"

definition hex_val :: "char \<Rightarrow> nat option" where
  "hex_val c =
     (let b = byte_of c in
      if 48 \<le> b \<and> b \<le> 57 then Some (b - 48)
      else if 97 \<le> b \<and> b \<le> 102 then Some (b - 87)
      else if 65 \<le> b \<and> b \<le> 70 then Some (b - 55)
      else None)"

definition hex_digit :: "nat \<Rightarrow> char" where
  "hex_digit n = char_of (if n < 10 then n + 48 else n + 87)"

text \<open>\<^verbatim>\<open>hex.DecodeString\<close> accepts both cases and an even number of digits.\<close>

fun hex_decode :: "string \<Rightarrow> nat list option" where
  "hex_decode [] = Some []"
| "hex_decode [c] = None"
| "hex_decode (c # d # cs) =
     (case (hex_val c, hex_val d, hex_decode cs) of
        (Some a, Some b, Some bs) \<Rightarrow> Some ((16 * a + b) # bs)
      | _ \<Rightarrow> None)"

definition hex_encode :: "nat list \<Rightarrow> string" where
  "hex_encode bs = concat (map (\<lambda>b. [hex_digit (b div 16), hex_digit (b mod 16)]) bs)"

section \<open>Package strconv and the verbs of package fmt\<close>

fun fmt_nat :: "nat \<Rightarrow> string" where
  "fmt_nat n = (if n < 10 then [char_of (n + 48)] else fmt_nat (n div 10) @ [char_of (n mod 10 + 48)])"

declare fmt_nat.simps [simp del]

definition fmt_d :: "int \<Rightarrow> string" where
  "fmt_d n = (if n < 0 then ''-'' @ fmt_nat (nat (- n)) else fmt_nat (nat n))"

fun digits_val :: "nat \<Rightarrow> string \<Rightarrow> nat option" where
  "digits_val acc [] = Some acc"
| "digits_val acc (c # cs) =
     (if is_digit c then digits_val (10 * acc + (byte_of c - 48)) cs else None)"

definition atoi :: "string \<Rightarrow> int option" where
  "atoi s =
     (case s of
        [] \<Rightarrow> None
      | c # cs \<Rightarrow>
          if c = CHR ''-'' then
            (if cs = [] then None else map_option (\<lambda>n. - int n) (digits_val 0 cs))
          else if c = CHR ''+'' then
            (if cs = [] then None else map_option int (digits_val 0 cs))
          else map_option int (digits_val 0 s))"

section \<open>Pools of goroutines\<close>

text \<open>The goroutines that wait at one place of the code are a list; the one that goes on is taken out of it.\<close>

definition drop_nth :: "nat \<Rightarrow> 'a list \<Rightarrow> 'a list" where
  "drop_nth n xs = take n xs @ drop (Suc n) xs"

section \<open>Lemmas\<close>

lemma has_prefix_append [simp]: "has_prefix (p @ s) p"
  by (simp add: has_prefix_def)

lemma has_prefixE: "has_prefix s p \<Longrightarrow> \<exists>t. s = p @ t"
  unfolding has_prefix_def by (metis append_take_drop_id)

lemma has_prefix_iff: "has_prefix s p \<longleftrightarrow> (\<exists>t. s = p @ t)"
  using has_prefixE by auto

lemma has_suffix_append [simp]: "has_suffix (s @ p) p"
  by (simp add: has_suffix_def)

lemma has_suffix_iff: "has_suffix s p \<longleftrightarrow> (\<exists>t. s = t @ p)"
proof
  assume "has_suffix s p"
  then have "drop (length s - length p) s = p" by (simp add: has_suffix_def)
  then show "\<exists>t. s = t @ p" by (metis append_take_drop_id)
qed auto

lemma trim_prefix_append [simp]: "trim_prefix (p @ s) p = s"
  by (simp add: trim_prefix_def)

lemma trim_suffix_append [simp]: "trim_suffix (s @ p) p = s"
  by (simp add: trim_suffix_def)

lemma has_prefix_Nil [simp]: "has_prefix s []"
  by (simp add: has_prefix_def)

lemma has_prefix_Nil_Cons [simp]: "\<not> has_prefix [] (c # p)"
  by (simp add: has_prefix_def)

lemma has_prefix_Cons [simp]: "has_prefix (d # s) (c # p) \<longleftrightarrow> c = d \<and> has_prefix s p"
  by (auto simp: has_prefix_def)

lemma split_char_nonempty [simp]: "split_char c s \<noteq> []"
  by (cases s) (auto split: list.splits)

lemma split_char_no_sep [simp]: "c \<notin> set s \<Longrightarrow> split_char c s = [s]"
  by (induction s) auto

lemma split_char_append:
  "c \<notin> set a \<Longrightarrow> split_char c (a @ c # b) = a # split_char c b"
  by (induction a) (auto split: list.splits)

lemma join_split_char: "join [c] (split_char c s) = s"
proof (induction s)
  case (Cons x xs)
  obtain w ws where w: "split_char c xs = w # ws"
    by (cases "split_char c xs") auto
  with Cons.IH show ?case by (cases ws) auto
qed simp

lemma split_char_parts: "w \<in> set (split_char c s) \<Longrightarrow> c \<notin> set w"
proof (induction s arbitrary: w)
  case (Cons x xs)
  obtain v ws where "split_char c xs = v # ws"
    by (cases "split_char c xs") auto
  with Cons show ?case by (auto split: if_splits)
qed auto

lemma cut_SomeD: "cut sep s = Some (a, b) \<Longrightarrow> s = a @ sep @ b"
proof (induction sep s arbitrary: a b rule: cut.induct)
  case (2 sep c cs)
  show ?case
  proof (cases "has_prefix (c # cs) sep")
    case True
    then obtain t where t: "c # cs = sep @ t" using has_prefixE by blast
    from "2.prems" True have "a = []" "b = drop (length sep) (c # cs)" by auto
    with t show ?thesis by simp
  next
    case False
    with "2.prems" obtain a' where "cut sep cs = Some (a', b)" and "a = c # a'" by auto
    with "2.IH" False show ?thesis by auto
  qed
qed (auto split: if_splits)

lemma cut_single:
  "c \<notin> set a \<Longrightarrow> cut [c] (a @ c # b) = Some (a, b)"
  by (induction a) (auto simp: has_prefix_def)

lemma cut_hd_absent:
  "c \<notin> set a \<Longrightarrow> cut (c # p) (a @ (c # p) @ b) = Some (a, b)"
  by (induction a) (auto simp: has_prefix_def)

subsection \<open>Trimming\<close>

text \<open>A printable ASCII byte neither begins nor ends a white space character.\<close>

definition plain :: "char \<Rightarrow> bool" where
  "plain c \<longleftrightarrow> 33 \<le> byte_of c \<and> byte_of c \<le> 126"

lemma space_seqs_ends:
  "q \<in> set space_seqs \<Longrightarrow> q \<noteq> [] \<and> \<not> plain (hd q) \<and> \<not> plain (last q)"
  by (auto simp: space_seqs_def plain_def byte_of_def of_char_of take_bit_eq_mod)

lemma space_at_start_None_iff:
  "space_at_start s = None \<longleftrightarrow> (\<forall>q \<in> set space_seqs. \<not> has_prefix s q)"
  by (auto simp: space_at_start_def find_None_iff)

lemma space_at_end_None_iff:
  "space_at_end s = None \<longleftrightarrow> (\<forall>q \<in> set space_seqs. \<not> has_suffix s q)"
  by (auto simp: space_at_end_def find_None_iff)

lemma space_at_start_SomeD:
  "space_at_start s = Some k \<Longrightarrow> 0 < k \<and> k \<le> length s"
proof -
  assume "space_at_start s = Some k"
  then obtain q where q: "find (has_prefix s) space_seqs = Some q" and k: "k = length q"
    by (auto simp: space_at_start_def)
  from q have "q \<in> set space_seqs" and "has_prefix s q"
    by (auto simp: find_Some_iff)
  then show ?thesis using space_seqs_ends k by (auto simp: has_prefix_iff)
qed

lemma space_at_end_SomeD:
  "space_at_end s = Some k \<Longrightarrow> 0 < k \<and> k \<le> length s"
proof -
  assume "space_at_end s = Some k"
  then obtain q where q: "find (has_suffix s) space_seqs = Some q" and k: "k = length q"
    by (auto simp: space_at_end_def)
  from q have "q \<in> set space_seqs" and "has_suffix s q"
    by (auto simp: find_Some_iff)
  then show ?thesis using space_seqs_ends k by (auto simp: has_suffix_iff)
qed

lemma space_at_start_plain: "s \<noteq> [] \<Longrightarrow> plain (hd s) \<Longrightarrow> space_at_start s = None"
  unfolding space_at_start_None_iff
  using space_seqs_ends by (auto simp: has_prefix_iff)

lemma space_at_end_plain: "s \<noteq> [] \<Longrightarrow> plain (last s) \<Longrightarrow> space_at_end s = None"
  unfolding space_at_end_None_iff
  using space_seqs_ends by (auto simp: has_suffix_iff)

lemma trim_left_fuel_None: "space_at_start s = None \<Longrightarrow> trim_left_fuel n s = s"
  by (cases n) auto

lemma trim_right_fuel_None: "space_at_end s = None \<Longrightarrow> trim_right_fuel n s = s"
  by (cases n) auto

lemma trim_left_fuel_enough:
  "length s \<le> n \<Longrightarrow> space_at_start (trim_left_fuel n s) = None"
proof (induction n s rule: trim_left_fuel.induct)
  case (1 s)
  then show ?case using space_at_start_SomeD [of s] by (cases "space_at_start s") fastforce+
next
  case (2 n s)
  then show ?case
    by (cases "space_at_start s") (use space_at_start_SomeD in fastforce)+
qed

lemma trim_right_fuel_enough:
  "length s \<le> n \<Longrightarrow> space_at_end (trim_right_fuel n s) = None"
proof (induction n s rule: trim_right_fuel.induct)
  case (1 s)
  then show ?case using space_at_end_SomeD [of s] by (cases "space_at_end s") fastforce+
next
  case (2 n s)
  show ?case
  proof (cases "space_at_end s")
    case (Some k)
    with "2.prems" have "length (take (length s - k) s) \<le> n"
      using space_at_end_SomeD [OF Some] by auto
    with "2.IH" [OF Some] Some show ?thesis by simp
  qed simp
qed

lemma trim_right_fuel_prefix: "\<exists>t. s = trim_right_fuel n s @ t"
proof (induction n s rule: trim_right_fuel.induct)
  case (2 n s)
  show ?case
  proof (cases "space_at_end s")
    case (Some k)
    with "2.IH" [OF Some] obtain t where
      "take (length s - k) s = trim_right_fuel n (take (length s - k) s) @ t" by auto
    then have "s = trim_right_fuel n (take (length s - k) s) @ t @ drop (length s - k) s"
      by (metis append_take_drop_id append_assoc)
    with Some show ?thesis by auto
  qed simp
qed simp

lemma space_at_start_prefix:
  "space_at_start (u @ v) = None \<Longrightarrow> space_at_start u = None"
  by (auto simp: space_at_start_None_iff has_prefix_iff)

lemma trim_space_ends:
  "space_at_start (trim_space s) = None" "space_at_end (trim_space s) = None"
proof -
  have l: "space_at_start (trim_left s) = None"
    by (simp add: trim_left_def trim_left_fuel_enough)
  obtain t where "trim_left s = trim_right (trim_left s) @ t"
    unfolding trim_right_def using trim_right_fuel_prefix by blast
  with l show "space_at_start (trim_space s) = None"
    unfolding trim_space_def by (metis space_at_start_prefix)
  show "space_at_end (trim_space s) = None"
    by (simp add: trim_space_def trim_right_def trim_right_fuel_enough)
qed

lemma trim_space_id:
  "space_at_start s = None \<Longrightarrow> space_at_end s = None \<Longrightarrow> trim_space s = s"
  by (simp add: trim_space_def trim_left_def trim_right_def trim_left_fuel_None trim_right_fuel_None)

lemma trim_space_idem [simp]: "trim_space (trim_space s) = trim_space s"
  by (rule trim_space_id [OF trim_space_ends])

lemma trim_space_Nil [simp]: "trim_space [] = []"
  by (simp add: trim_space_def trim_left_def trim_right_def)

lemma trim_space_plain [simp]:
  "s \<noteq> [] \<Longrightarrow> plain (hd s) \<Longrightarrow> plain (last s) \<Longrightarrow> trim_space s = s"
  by (rule trim_space_id) (auto intro: space_at_start_plain space_at_end_plain)

lemma plain_punct [simp]:
  "plain CHR ''*''" "plain CHR ''#''" "plain CHR ''0''" "plain CHR ''1''" "plain CHR ''2''"
  by (simp_all add: plain_def byte_of_def)

lemma plain_digit: "is_digit c \<Longrightarrow> plain c"
  by (simp add: is_digit_def plain_def)

lemma trim_space_all_plain: "list_all plain s \<Longrightarrow> trim_space s = s"
  by (cases "s = []") (auto simp: list_all_iff)

subsection \<open>Decimal numbers\<close>

lemma byte_of_digit: "n < 10 \<Longrightarrow> byte_of (char_of (n + 48)) = n + (48 :: nat)"
  by (simp add: byte_of_def of_char_of take_bit_eq_mod)

lemma fmt_nat_digits: "list_all is_digit (fmt_nat n)"
proof (induction n rule: fmt_nat.induct)
  case (1 n)
  then show ?case
    by (subst fmt_nat.simps) (auto simp: is_digit_def [of "char_of _"] byte_of_digit)
qed

lemma fmt_nat_nonempty [simp]: "fmt_nat n \<noteq> []"
  by (subst fmt_nat.simps) simp

lemma digits_val_append:
  "digits_val acc (s @ t) = (case digits_val acc s of None \<Rightarrow> None | Some n \<Rightarrow> digits_val n t)"
  by (induction acc s rule: digits_val.induct) auto

lemma digits_val_fmt_nat: "digits_val 0 (fmt_nat n) = Some n"
proof (induction n rule: fmt_nat.induct)
  case (1 n)
  show ?case
  proof (cases "n < 10")
    case True
    then show ?thesis by (subst fmt_nat.simps) (simp add: is_digit_def byte_of_digit)
  next
    case False
    with "1.IH" have "digits_val 0 (fmt_nat (n div 10)) = Some (n div 10)" by simp
    with False show ?thesis
      by (subst fmt_nat.simps) (simp add: digits_val_append is_digit_def byte_of_digit)
  qed
qed

lemma fmt_nat_head: "fmt_nat n = c # cs \<Longrightarrow> is_digit c"
  using fmt_nat_digits [of n] by simp

lemma is_digit_signs [simp]: "\<not> is_digit CHR ''-''" "\<not> is_digit CHR ''+''"
  by (simp_all add: is_digit_def byte_of_def)

text \<open>Printing a number with \<^verbatim>\<open>%d\<close> and reading it back with \<^verbatim>\<open>Atoi\<close> gives the number.\<close>

lemma atoi_fmt_d: "atoi (fmt_d n) = Some n"
proof (cases "n < 0")
  case True
  then show ?thesis by (simp add: fmt_d_def atoi_def digits_val_fmt_nat)
next
  case False
  obtain c cs where c: "fmt_nat (nat n) = c # cs" by (cases "fmt_nat (nat n)") auto
  then have "c \<noteq> CHR ''-''" "c \<noteq> CHR ''+''" using fmt_nat_head by fastforce+
  with c False show ?thesis
    using digits_val_fmt_nat [of "nat n"] by (simp add: fmt_d_def atoi_def)
qed

lemma fmt_d_no: "0 \<le> n \<Longrightarrow> \<not> is_digit c \<Longrightarrow> c \<notin> set (fmt_d n)"
  using fmt_nat_digits [of "nat n"] by (auto simp: fmt_d_def list_all_iff)

lemma fmt_d_nonempty [simp]: "fmt_d n \<noteq> []"
  by (simp add: fmt_d_def)

lemma fmt_d_plain: "0 \<le> n \<Longrightarrow> list_all plain (fmt_d n)"
  using fmt_nat_digits [of "nat n"] by (auto simp: fmt_d_def list_all_iff plain_digit)

subsection \<open>Lists\<close>

lemma drop_nth_subset: "set (drop_nth n xs) \<subseteq> set xs"
  by (auto simp: drop_nth_def dest: in_set_takeD in_set_dropD)

text \<open>What is left of an entry after the entries a sweep over a Go map deletes.\<close>

lemma map_of_swept:
  assumes "distinct (map fst entries)"
  shows "map_of (filter keep entries) key = Option.bind (map_of entries key) (\<lambda>v. if keep (key, v) then Some v else None)"
  using assms
proof (induction entries)
  case (Cons entry entries)
  then have "fst entry \<notin> dom (map_of (filter keep entries))" by (auto simp: dom_map_of_conv_image_fst)
  with Cons show ?case by (cases entry) (auto simp: domIff map_of_eq_None_iff)
qed simp

end
