(* ===== verification/Core_State.thy ===== *)
theory Core_State
  imports Go_Prelude
begin

text \<open>
  The state projector of \<^verbatim>\<open>src/internal/core\<close>: the events every other package publishes
  (\<^verbatim>\<open>events.go\<close>) and the state machine that folds them into the state the API, HomeKit and the web
  UI show (\<^verbatim>\<open>state.go\<close>).

  A Go pointer field is an \<open>option\<close>; the identifiers are strings; \<^verbatim>\<open>Revision\<close> is a \<open>64 word\<close>.
  \<open>UnsupportedEvent\<close> stands for the values of the interface \<^verbatim>\<open>Event\<close> that are none of the structs (a
  nil interface or a pointer to one of them), which the type switch sends to its default branch.
  \<open>Projector_Apply\<close> returns the projector's new state and what the call returns; the lock makes each
  call one step. The lemmas give the invariant of every reachable state, what a refused event
  leaves, and that an answered call that hangs up does not read as a ring.
\<close>

section \<open>Events\<close>

type_synonym EntrypointID = string
type_synonym DialogID = string
type_synonym StreamID = string

datatype CallEndReason =
    CallEndReasonCancelled | CallEndReasonTimeout | CallEndReasonElsewhere
  | CallEndReasonOther string

datatype event =
    RingStarted EntrypointID
  | RingCleared EntrypointID
  | IncomingCallStarted DialogID EntrypointID
  | IncomingCallEnded DialogID CallEndReason
  | CallAnswered DialogID
  | CallDeclined DialogID
  | CallHungUp DialogID
  | PreviewStarted StreamID EntrypointID
  | PreviewStopped StreamID
  | AudioMuted
  | AudioUnmuted
  | VoicemailEnabled
  | VoicemailDisabled
  | VoicemailUnavailable
  | UnsupportedEvent

fun EventType :: "event \<Rightarrow> string option" where
  "EventType (RingStarted _) = Some ''ring.started''"
| "EventType (RingCleared _) = Some ''ring.cleared''"
| "EventType (IncomingCallStarted _ _) = Some ''call.incoming''"
| "EventType (IncomingCallEnded _ _) = Some ''call.incoming_ended''"
| "EventType (CallAnswered _) = Some ''call.answered''"
| "EventType (CallDeclined _) = Some ''call.declined''"
| "EventType (CallHungUp _) = Some ''call.hung_up''"
| "EventType (PreviewStarted _ _) = Some ''preview.started''"
| "EventType (PreviewStopped _) = Some ''preview.stopped''"
| "EventType AudioMuted = Some ''audio.muted''"
| "EventType AudioUnmuted = Some ''audio.unmuted''"
| "EventType VoicemailEnabled = Some ''voicemail.enabled''"
| "EventType VoicemailDisabled = Some ''voicemail.disabled''"
| "EventType VoicemailUnavailable = Some ''voicemail.unavailable''"
| "EventType UnsupportedEvent = None"

section \<open>State\<close>

datatype CallState = CallStateIdle | CallStateRinging | CallStateActive | CallStatePreview

record IncomingCall =
  ic_dialog :: DialogID
  ic_entrypoint :: EntrypointID

record IncomingCallEnd =
  ie_dialog :: DialogID
  ie_reason :: CallEndReason

record ActiveCall =
  ac_dialog :: DialogID
  ac_entrypoint :: EntrypointID

record PreviewStream =
  ps_stream :: StreamID
  ps_entrypoint :: EntrypointID

record State =
  Revision :: "64 word"
  call_state :: CallState
  physical_ring :: "EntrypointID option"
  incoming_call :: "IncomingCall option"
  last_incoming_call_end :: "IncomingCallEnd option"
  active_call :: "ActiveCall option"
  preview_stream :: "PreviewStream option"
  audio_muted :: bool
  voicemail :: "bool option"

text \<open>One constructor per \<^verbatim>\<open>transitionError\<close> of the source; all of them wrap \<^verbatim>\<open>ErrInvalidTransition\<close>.\<close>

datatype transition_error =
    EntrypointRequired
  | DialogAndEntrypointRequired
  | CannotClearRing EntrypointID
  | CallAlreadyExists
  | IncomingDialogRequired
  | IncomingDialogMissing DialogID
  | ActiveDialogMissing DialogID
  | PreviewAndEntrypointRequired
  | PreviewAlreadyExists
  | NoPreview
  | PreviewMissing StreamID
  | UnsupportedEventError

section \<open>Transitions\<close>

definition NewProjector :: State where
  "NewProjector =
     \<lparr>Revision = 0, call_state = CallStateIdle, physical_ring = None, incoming_call = None,
      last_incoming_call_end = None, active_call = None, preview_stream = None,
      audio_muted = False, voicemail = None\<rparr>"

definition matchingIncoming :: "State \<Rightarrow> DialogID \<Rightarrow> (transition_error, IncomingCall) result" where
  "matchingIncoming s d =
     (case incoming_call s of
        None \<Rightarrow> Err IncomingDialogRequired
      | Some ic \<Rightarrow> if d \<noteq> ic_dialog ic then Err (IncomingDialogMissing d) else Ok ic)"

definition requireEntrypoint :: "EntrypointID \<Rightarrow> transition_error option" where
  "requireEntrypoint e = (if e = '''' then Some EntrypointRequired else None)"

definition requireDialogAndEntrypoint :: "DialogID \<Rightarrow> EntrypointID \<Rightarrow> transition_error option" where
  "requireDialogAndEntrypoint d e =
     (if d = '''' \<or> e = '''' then Some DialogAndEntrypointRequired else None)"

definition clearRingOf :: "State \<Rightarrow> EntrypointID \<Rightarrow> State" where
  "clearRingOf s e =
     (case physical_ring s of
        None \<Rightarrow> s
      | Some r \<Rightarrow> if r = e then s\<lparr>physical_ring := None\<rparr> else s)"

definition deriveCallState :: "State \<Rightarrow> CallState" where
  "deriveCallState s =
     (if active_call s \<noteq> None then CallStateActive
      else if physical_ring s \<noteq> None \<or> incoming_call s \<noteq> None then CallStateRinging
      else if preview_stream s \<noteq> None then CallStatePreview
      else CallStateIdle)"

fun apply_event :: "State \<Rightarrow> event \<Rightarrow> (transition_error, State) result" where
  "apply_event s (RingStarted e) =
     (case requireEntrypoint e of
        Some err \<Rightarrow> Err err
      | None \<Rightarrow> Ok (s\<lparr>physical_ring := Some e\<rparr>))"
| "apply_event s (RingCleared e) =
     (case physical_ring s of
        None \<Rightarrow> Ok s
      | Some r \<Rightarrow>
          if e \<noteq> '''' \<and> e \<noteq> r then Err (CannotClearRing e)
          else Ok (s\<lparr>physical_ring := None\<rparr>))"
| "apply_event s (IncomingCallStarted d e) =
     (case requireDialogAndEntrypoint d e of
        Some err \<Rightarrow> Err err
      | None \<Rightarrow>
          if incoming_call s \<noteq> None \<or> active_call s \<noteq> None then Err CallAlreadyExists
          else Ok (s\<lparr>last_incoming_call_end := None,
                     incoming_call := Some \<lparr>ic_dialog = d, ic_entrypoint = e\<rparr>\<rparr>))"
| "apply_event s (IncomingCallEnded d r) =
     (case incoming_call s of
        None \<Rightarrow> Ok s
      | Some ic \<Rightarrow>
          if d \<noteq> ic_dialog ic then Err (IncomingDialogMissing d)
          else Ok (s\<lparr>incoming_call := None,
                     last_incoming_call_end := Some \<lparr>ie_dialog = d, ie_reason = r\<rparr>\<rparr>))"
| "apply_event s (CallAnswered d) =
     (case matchingIncoming s d of
        Inl err \<Rightarrow> Err err
      | Inr ic \<Rightarrow>
          Ok ((clearRingOf s (ic_entrypoint ic))
                \<lparr>last_incoming_call_end := None,
                 active_call := Some \<lparr>ac_dialog = ic_dialog ic, ac_entrypoint = ic_entrypoint ic\<rparr>,
                 incoming_call := None\<rparr>))"
| "apply_event s (CallDeclined d) =
     (case matchingIncoming s d of
        Inl err \<Rightarrow> Err err
      | Inr ic \<Rightarrow> Ok (s\<lparr>incoming_call := None\<rparr>))"
| "apply_event s (CallHungUp d) =
     (case active_call s of
        Some ac \<Rightarrow>
          if d \<noteq> ac_dialog ac then Err (ActiveDialogMissing d)
          else Ok (s\<lparr>active_call := None\<rparr>)
      | None \<Rightarrow>
          (case matchingIncoming s d of
             Inl err \<Rightarrow> Err err
           | Inr ic \<Rightarrow> Ok ((clearRingOf s (ic_entrypoint ic))\<lparr>incoming_call := None\<rparr>)))"
| "apply_event s (PreviewStarted i e) =
     (if i = '''' \<or> e = '''' then Err PreviewAndEntrypointRequired
      else if preview_stream s \<noteq> None then Err PreviewAlreadyExists
      else Ok (s\<lparr>preview_stream := Some \<lparr>ps_stream = i, ps_entrypoint = e\<rparr>\<rparr>))"
| "apply_event s (PreviewStopped i) =
     (case preview_stream s of
        None \<Rightarrow> Err NoPreview
      | Some p \<Rightarrow>
          if i \<noteq> ps_stream p then Err (PreviewMissing i)
          else Ok (s\<lparr>preview_stream := None\<rparr>))"
| "apply_event s AudioMuted = Ok (s\<lparr>audio_muted := True\<rparr>)"
| "apply_event s AudioUnmuted = Ok (s\<lparr>audio_muted := False\<rparr>)"
| "apply_event s VoicemailEnabled = Ok (s\<lparr>voicemail := Some True\<rparr>)"
| "apply_event s VoicemailDisabled = Ok (s\<lparr>voicemail := Some False\<rparr>)"
| "apply_event s VoicemailUnavailable = Ok (s\<lparr>voicemail := None\<rparr>)"
| "apply_event s UnsupportedEvent = Err UnsupportedEventError"

definition Projector_Apply :: "State \<Rightarrow> event \<Rightarrow> State \<times> (transition_error, State) result" where
  "Projector_Apply p e =
     (case apply_event p e of
        Inl err \<Rightarrow> (p, Err err)
      | Inr next \<Rightarrow>
          let next = next\<lparr>Revision := Revision next + 1\<rparr>;
              next = next\<lparr>call_state := deriveCallState next\<rparr>
          in (next, Ok next))"

text \<open>The event applier of the application ignores the errors: this is the state after a list of events.\<close>

fun project :: "State \<Rightarrow> event list \<Rightarrow> State" where
  "project p [] = p"
| "project p (e # es) = project (fst (Projector_Apply p e)) es"

fun accepted :: "State \<Rightarrow> event list \<Rightarrow> bool" where
  "accepted p [] = True"
| "accepted p (e # es) =
     (case Projector_Apply p e of (p', r) \<Rightarrow> (case r of Inl _ \<Rightarrow> False | Inr _ \<Rightarrow> accepted p' es))"

section \<open>Invariant\<close>

definition state_wf :: "State \<Rightarrow> bool" where
  "state_wf s \<longleftrightarrow>
     call_state s = deriveCallState s \<and>
     \<not> (incoming_call s \<noteq> None \<and> active_call s \<noteq> None) \<and>
     (last_incoming_call_end s \<noteq> None \<longrightarrow> incoming_call s = None \<and> active_call s = None) \<and>
     physical_ring s \<noteq> Some '''' \<and>
     (\<forall>ic. incoming_call s = Some ic \<longrightarrow> ic_dialog ic \<noteq> '''' \<and> ic_entrypoint ic \<noteq> '''') \<and>
     (\<forall>ac. active_call s = Some ac \<longrightarrow> ac_dialog ac \<noteq> '''' \<and> ac_entrypoint ac \<noteq> '''') \<and>
     (\<forall>p. preview_stream s = Some p \<longrightarrow> ps_stream p \<noteq> '''' \<and> ps_entrypoint p \<noteq> '''')"

inductive reachable :: "State \<Rightarrow> bool" where
  reach_init: "reachable NewProjector"
| reach_step: "reachable s \<Longrightarrow> reachable (fst (Projector_Apply s e))"

section \<open>Lemmas\<close>

lemmas projector_defs = Projector_Apply_def Let_def matchingIncoming_def requireEntrypoint_def
  requireDialogAndEntrypoint_def clearRingOf_def

lemma deriveCallState_revision [simp]:
  "deriveCallState (s\<lparr>Revision := r\<rparr>) = deriveCallState s"
  "deriveCallState (s\<lparr>call_state := c\<rparr>) = deriveCallState s"
  by (simp_all add: deriveCallState_def)

lemma clearRingOf_simps [simp]:
  "Revision (clearRingOf s e) = Revision s"
  "call_state (clearRingOf s e) = call_state s"
  "incoming_call (clearRingOf s e) = incoming_call s"
  "last_incoming_call_end (clearRingOf s e) = last_incoming_call_end s"
  "active_call (clearRingOf s e) = active_call s"
  "preview_stream (clearRingOf s e) = preview_stream s"
  "audio_muted (clearRingOf s e) = audio_muted s"
  "voicemail (clearRingOf s e) = voicemail s"
  "physical_ring (clearRingOf s e) = (if physical_ring s = Some e then None else physical_ring s)"
  by (auto simp: clearRingOf_def split: option.splits)

lemma matchingIncoming_Inr [simp]:
  "matchingIncoming s d = Inr ic \<longleftrightarrow> incoming_call s = Some ic \<and> ic_dialog ic = d"
  by (auto simp: matchingIncoming_def split: option.splits)

lemma apply_event_revision: "apply_event s e = Inr t \<Longrightarrow> Revision t = Revision s"
  by (cases e) (auto split: option.splits sum.splits if_splits)

lemma Projector_Apply_Err:
  "Projector_Apply s e = (s', Inl err) \<Longrightarrow> s' = s"
  by (auto simp: Projector_Apply_def Let_def split: sum.splits)

lemma Projector_Apply_Ok:
  "Projector_Apply s e = (s', Inr t) \<longleftrightarrow>
   (\<exists>u. apply_event s e = Inr u \<and> s' = t \<and>
     t = u\<lparr>Revision := Revision u + 1, call_state := deriveCallState u\<rparr>)"
  by (auto simp: Projector_Apply_def Let_def split: sum.splits)

text \<open>
  What an accepted event leaves, before the revision and the derived call state are written: the
  part of the invariant that does not mention \<open>call_state\<close>.
\<close>

lemma apply_event_wf:
  assumes "state_wf s" and "apply_event s e = Inr t"
  shows "state_wf (t\<lparr>Revision := r, call_state := deriveCallState t\<rparr>)"
proof -
  have "apply_event s e = Inr t \<Longrightarrow> state_wf s \<Longrightarrow> ?thesis"
    by (cases e; clarsimp simp: requireEntrypoint_def requireDialogAndEntrypoint_def state_wf_def
        split: option.split_asm sum.split_asm if_split_asm)
  with assms show ?thesis by simp
qed

lemma Projector_Apply_wf: "state_wf s \<Longrightarrow> state_wf (fst (Projector_Apply s e))"
  unfolding Projector_Apply_def Let_def
  using apply_event_wf by (auto split: sum.splits)

lemma NewProjector_wf: "state_wf NewProjector"
  by (simp add: state_wf_def NewProjector_def deriveCallState_def)

lemma reachable_wf: "reachable s \<Longrightarrow> state_wf s"
  by (induction rule: reachable.induct) (auto intro: NewProjector_wf Projector_Apply_wf)

lemma accepted_append:
  "accepted p (es @ fs) \<longleftrightarrow> accepted p es \<and> accepted (project p es) fs"
  by (induction p es rule: accepted.induct) (auto split: prod.splits sum.splits)

lemma project_append: "project p (es @ fs) = project (project p es) fs"
  by (induction p es rule: project.induct) auto

lemma reachable_project: "reachable p \<Longrightarrow> reachable (project p es)"
  by (induction es arbitrary: p) (auto intro: reach_step)

section \<open>Properties\<close>

text \<open>
  C1: In every state the projector can reach the shown call state is the one derived from the other
  fields, at most one of the incoming and the active call exists, the end of an incoming call is
  only remembered while there is no call, and no ring, call or preview has an empty identifier.
\<close>

theorem projector_invariant: "reachable s \<Longrightarrow> state_wf s"
  by (rule reachable_wf)

theorem projector_invariant_witness:
  "reachable (project NewProjector [RingStarted ''main'', IncomingCallStarted ''d1'' ''main'', CallAnswered ''d1'']) \<and>
   state_wf (project NewProjector [RingStarted ''main'', IncomingCallStarted ''d1'' ''main'', CallAnswered ''d1''])"
proof -
  have r: "reachable (project NewProjector [RingStarted ''main'', IncomingCallStarted ''d1'' ''main'', CallAnswered ''d1''])"
    by (rule reachable_project [OF reach_init])
  show ?thesis using r projector_invariant [OF r] by simp
qed

text \<open>
  An event the projector refuses leaves its state exactly as it was; an event it accepts raises the
  revision by one (modulo 2 to the 64) and returns the state it stored.
\<close>

theorem projector_apply_atomic:
  "(case Projector_Apply s e of
      (s', Inl err) \<Rightarrow> s' = s
    | (s', Inr t) \<Rightarrow> s' = t \<and> Revision s' = Revision s + 1)"
  by (auto simp: Projector_Apply_def Let_def apply_event_revision split: sum.splits)

text \<open>
  After a ringing call is answered and hung up the state does not read ringing, unless another
  entrypoint is ringing: the answer ends the physical ring of its own entrypoint, so the state between
  the hangup and the bus frame that clears the ring is not a ring that never happened.
\<close>

theorem answered_call_does_not_ring_again:
  assumes "incoming_call s = Some ic" and "active_call s = None"
    and "physical_ring s \<in> {None, Some (ic_entrypoint ic)}"
  shows "accepted s [CallAnswered (ic_dialog ic), CallHungUp (ic_dialog ic)] \<and>
         call_state (project s [CallAnswered (ic_dialog ic)]) = CallStateActive \<and>
         call_state (project s [CallAnswered (ic_dialog ic), CallHungUp (ic_dialog ic)]) \<in>
           {CallStateIdle, CallStatePreview} \<and>
         physical_ring (project s [CallAnswered (ic_dialog ic)]) = None"
  using assms by (auto simp: projector_defs deriveCallState_def)

theorem answered_call_does_not_ring_again_witness:
  "(let s = project NewProjector [RingStarted ''main'', IncomingCallStarted ''d1'' ''main''] in
    incoming_call s = Some \<lparr>ic_dialog = ''d1'', ic_entrypoint = ''main''\<rparr> \<and>
    call_state s = CallStateRinging \<and>
    call_state (project s [CallAnswered ''d1'', CallHungUp ''d1'']) \<in> {CallStateIdle, CallStatePreview})"
proof -
  let ?s = "project NewProjector [RingStarted ''main'', IncomingCallStarted ''d1'' ''main'']"
  let ?ic = "\<lparr>ic_dialog = ''d1'', ic_entrypoint = ''main''\<rparr>"
  have ic: "incoming_call ?s = Some ?ic" and a: "active_call ?s = None"
    and r: "physical_ring ?s \<in> {None, Some (ic_entrypoint ?ic)}" and c: "call_state ?s = CallStateRinging"
    by (simp_all add: projector_defs NewProjector_def deriveCallState_def)
  from answered_call_does_not_ring_again [OF ic a r] ic c show ?thesis
    by (simp add: Let_def)
qed

end
