(* ===== verification/Atomic_Write.thy ===== *)
theory Atomic_Write
  imports Go_Prelude
begin

text \<open>
  The contract of the atomic file replacements: of the private files (\<^verbatim>\<open>src/internal/storage/file.go\<close>) and of the pictures
  and clips (\<^verbatim>\<open>writeFileAtomicFunc\<close> of \<^verbatim>\<open>src/internal/media/snapshot.go\<close>). \<open>replace\<close> maps a pattern of failing system calls,
  the data and the place to the place it leaves and whether it reports success; \<open>view\<close> is what a reader of the path sees
  and \<open>whole d\<close> what he sees of complete data. The clients of the contract are the sequences of writes the
  configuration store, the pictures and the clips make.
\<close>

locale atomic_writer =
  fixes replace :: "'f \<Rightarrow> 'd \<Rightarrow> 's \<Rightarrow> 's \<times> bool"
    and view :: "'s \<Rightarrow> 'v"
    and whole :: "'d \<Rightarrow> 'v"
  assumes write_view: "view (fst (replace f d s)) = view s \<or> view (fst (replace f d s)) = whole d"
    and write_ok: "snd (replace f d s) \<Longrightarrow> view (fst (replace f d s)) = whole d"
begin

lemma writes_view:
  "view (foldl (\<lambda>s (f, d). fst (replace f d s)) s fds) \<in> insert (view s) (whole ` snd ` set fds)"
proof (induction fds rule: rev_induct)
  case (snoc fd fds)
  obtain f d where fd: "fd = (f, d)" by (cases fd)
  let ?t = "foldl (\<lambda>s (f, d). fst (replace f d s)) s fds"
  have "view (fst (replace f d ?t)) \<in> insert (view s) (insert (whole d) (whole ` snd ` set fds))"
    using snoc.IH write_view [of f d ?t] by (elim disjE) (simp_all, blast)
  then show ?case by (simp add: fd)
qed simp

lemma newest_success_seen:
  assumes "snd (replace f d (foldl (\<lambda>s (f, d). fst (replace f d s)) s fds))"
  shows "view (foldl (\<lambda>s (f, d). fst (replace f d s)) s (fds @ [(f, d)])) = whole d"
  using write_ok [OF assms] by simp

lemma write_keeps:
  assumes "P (view s)" and "P (whole d)" shows "P (view (fst (replace f d s)))"
  using write_view [of f d s] assms by auto

end

end
