(* ===== verification/Storage_File.thy ===== *)
theory Storage_File
  imports Atomic_Write
begin

text \<open>
  The atomic file replacement of \<^verbatim>\<open>src/internal/storage/file.go\<close>. A write is the sequence of system
  calls \<^verbatim>\<open>WritePrivateFile\<close> makes; \<open>fails\<close> says which of them the operating system refuses. The state is
  what the target path and the temporary file hold. \<open>Partial\<close> is a temporary file whose data is
  not all written. The lemmas show that the target never holds partial data, at whichever call the
  write stops, and when an error leaves the old content.
\<close>

datatype 'd content = Partial | Whole 'd

datatype wstep =
    MkdirAll | CreateTemp | ChmodTemp | WriteTemp | SyncTemp | CloseTemp
  | LinkTarget | RenameTarget | OpenDirectory | SyncDirectory

datatype storage_error = StepFailed wstep | ErrExist

record 'd fs =
  target :: "'d content option"
  temporary :: "'d content option"

definition write_steps :: "bool \<Rightarrow> wstep list" where
  "write_steps exclusive =
     [MkdirAll, CreateTemp, ChmodTemp, WriteTemp, SyncTemp, CloseTemp,
      if exclusive then LinkTarget else RenameTarget, OpenDirectory, SyncDirectory]"

text \<open>The effect of a call the operating system accepts. \<^verbatim>\<open>link\<close> refuses an existing target by itself.\<close>

fun do_step :: "'d \<Rightarrow> wstep \<Rightarrow> 'd fs \<Rightarrow> (storage_error, 'd fs) result" where
  "do_step d CreateTemp f = Ok (f\<lparr>temporary := Some Partial\<rparr>)"
| "do_step d WriteTemp f = Ok (f\<lparr>temporary := Some (Whole d)\<rparr>)"
| "do_step d LinkTarget f =
     (if target f \<noteq> None then Err ErrExist else Ok (f\<lparr>target := temporary f\<rparr>))"
| "do_step d RenameTarget f = Ok (f\<lparr>target := temporary f, temporary := None\<rparr>)"
| "do_step d _ f = Ok f"

fun run_steps :: "(wstep \<Rightarrow> bool) \<Rightarrow> 'd \<Rightarrow> wstep list \<Rightarrow> 'd fs \<Rightarrow> 'd fs \<times> storage_error option" where
  "run_steps fails d [] f = (f, None)"
| "run_steps fails d (w # ws) f =
     (if fails w then (f, Some (StepFailed w))
      else case do_step d w f of
             Inl e \<Rightarrow> (f, Some e)
           | Inr f' \<Rightarrow> run_steps fails d ws f')"

text \<open>The deferred \<^verbatim>\<open>os.Remove\<close> of the temporary file runs on every way out.\<close>

definition WritePrivateFile ::
  "(wstep \<Rightarrow> bool) \<Rightarrow> bool \<Rightarrow> 'd \<Rightarrow> 'd fs \<Rightarrow> 'd fs \<times> storage_error option" where
  "WritePrivateFile fails exclusive d f =
     (case run_steps fails d (write_steps exclusive) f of
        (f', err) \<Rightarrow> (f'\<lparr>temporary := None\<rparr>, err))"

section \<open>Lemmas\<close>

text \<open>What a crash right after any prefix of the calls leaves at the target.\<close>

lemma run_steps_prefix_target:
  "target (fst (run_steps fails d (take n (write_steps exclusive)) f)) \<in> {target f, Some (Whole d)}"
proof -
  have "\<forall>n. target (fst (run_steps fails d (take n (write_steps True)) f)) \<in> {target f, Some (Whole d)}"
    "\<forall>n. target (fst (run_steps fails d (take n (write_steps False)) f)) \<in> {target f, Some (Whole d)}"
    by (auto simp: write_steps_def take_Cons' split: if_splits)
  then show ?thesis by (cases exclusive) auto
qed

lemma WritePrivateFile_target:
  "target (fst (WritePrivateFile fails exclusive d f)) \<in> {target f, Some (Whole d)}"
  using run_steps_prefix_target [of fails d 9 exclusive f]
  by (simp add: WritePrivateFile_def split: prod.splits) (simp add: write_steps_def)

lemma WritePrivateFile_ok:
  "WritePrivateFile fails exclusive d f = (f', None) \<Longrightarrow>
   target f' = Some (Whole d) \<and> temporary f' = None \<and> (exclusive \<longrightarrow> target f = None)"
  by (auto simp: WritePrivateFile_def write_steps_def split: prod.splits if_splits)

lemma WritePrivateFile_replace_ok:
  "(\<And>w. \<not> fails w) \<Longrightarrow>
   WritePrivateFile fails False d f = (\<lparr>target = Some (Whole d), temporary = None\<rparr>, None)"
  by (simp add: WritePrivateFile_def write_steps_def)

lemma WritePrivateFile_error_keeps:
  assumes "WritePrivateFile fails exclusive d f = (f', Some e)"
    and "\<not> fails OpenDirectory" and "\<not> fails SyncDirectory"
  shows "target f' = target f"
  using assms by (auto simp: WritePrivateFile_def write_steps_def split: prod.splits if_splits)

lemma WritePrivateFile_exclusive_exists:
  assumes "target f \<noteq> None"
  shows "target (fst (WritePrivateFile fails True d f)) = target f"
    and "snd (WritePrivateFile fails True d f) \<noteq> None"
  using assms by (auto simp: WritePrivateFile_def write_steps_def)

interpretation private_file: atomic_writer
  "\<lambda>fails (exclusive, d) f. map_prod id (\<lambda>err. err = None) (WritePrivateFile fails exclusive d f)" target
  "\<lambda>(exclusive, d). Some (Whole d)"
proof
  fix f s and d :: "bool \<times> 'd"
  obtain x e where d: "d = (e, x)" by (cases d)
  obtain p err where w: "WritePrivateFile f e x s = (p, err)" by (cases "WritePrivateFile f e x s")
  show "target (fst ((\<lambda>(e, d) p. map_prod id (\<lambda>err. err = None) (WritePrivateFile f e d p)) d s)) = target s \<or>
        target (fst ((\<lambda>(e, d) p. map_prod id (\<lambda>err. err = None) (WritePrivateFile f e d p)) d s)) =
        (case d of (e, d) \<Rightarrow> Some (Whole d))"
    using WritePrivateFile_target [of f e x s] by (auto simp: d)
  show "target (fst ((\<lambda>(e, d) p. map_prod id (\<lambda>err. err = None) (WritePrivateFile f e d p)) d s)) =
        (case d of (e, d) \<Rightarrow> Some (Whole d))"
    if "snd ((\<lambda>(e, d) p. map_prod id (\<lambda>err. err = None) (WritePrivateFile f e d p)) d s)"
    using WritePrivateFile_ok [of f e x s p] w that by (auto simp: d)
qed

text \<open>
  C35: Whichever system call fails, and at whichever call the process stops, the file at the target path is
  either exactly what it was or the complete new data, never a part of it; a write that
  reports success has put the complete data there, and an exclusive write never replaces a file.
\<close>

theorem write_private_file_atomic:
  "target (fst (run_steps fails d (take n (write_steps exclusive)) f)) \<in> {target f, Some (Whole d)} \<and>
   target (fst (WritePrivateFile fails exclusive d f)) \<in> {target f, Some (Whole d)} \<and>
   (snd (WritePrivateFile fails exclusive d f) = None \<longrightarrow>
      target (fst (WritePrivateFile fails exclusive d f)) = Some (Whole d)) \<and>
   (exclusive \<and> target f \<noteq> None \<longrightarrow>
      target (fst (WritePrivateFile fails exclusive d f)) = target f \<and>
      snd (WritePrivateFile fails exclusive d f) \<noteq> None)"
proof (intro conjI impI)
  assume "snd (WritePrivateFile fails exclusive d f) = None"
  then show "target (fst (WritePrivateFile fails exclusive d f)) = Some (Whole d)"
    using private_file.write_ok [of fails "(exclusive, d)" f] by simp
next
  assume a: "exclusive \<and> target f \<noteq> None"
  then show "target (fst (WritePrivateFile fails exclusive d f)) = target f"
    using WritePrivateFile_exclusive_exists(1) [of f fails d] by simp
  from a show "snd (WritePrivateFile fails exclusive d f) \<noteq> None"
    using WritePrivateFile_exclusive_exists(2) [of f fails d] by simp
qed (rule run_steps_prefix_target WritePrivateFile_target)+

theorem write_private_file_atomic_witness:
  "snd (WritePrivateFile (\<lambda>_. False) False ''new'' \<lparr>target = None, temporary = None\<rparr>) = None \<and>
   target (fst (WritePrivateFile (\<lambda>_. False) False ''new'' \<lparr>target = None, temporary = None\<rparr>)) = Some (Whole ''new'')"
proof -
  have "snd (WritePrivateFile (\<lambda>_. False) False ''new'' \<lparr>target = None, temporary = None\<rparr>) = None"
    by (simp add: WritePrivateFile_def write_steps_def)
  then show ?thesis
    using write_private_file_atomic [of "\<lambda>_. False" "''new''" 0 False "\<lparr>target = None, temporary = None\<rparr>"] by simp
qed

end
