(* ===== verification/Config_Model.thy ===== *)
theory Config_Model
  imports Storage_File
begin

text \<open>
  The configuration of \<^verbatim>\<open>src/internal/config/config.go\<close>: the records, the validation, the two entrypoint
  rules of a save, the mapping to and from the document on disk, and the store with its update.

  The YAML library is not part of the repository: \<open>marshal\<close> and \<open>unmarshal\<close> are parameters.
  \<open>unmarshal\<close> gives what the strict decoder returns for the first document of a file (\<open>None\<close> for an
  error) and what a second \<^verbatim>\<open>Decode\<close> meets; \<open>probe\<close> is the lenient decoding of \<^verbatim>\<open>sipSectionProbe\<close>.
  Random bytes are an argument where the source reads \<^verbatim>\<open>crypto/rand\<close>. The disk is the model of
  \<open>Storage_File\<close>. A nil slice or map and an empty one are the same value here.

  The lemmas show that what the companion saved it loads again unchanged, that an update that fails
  leaves the configuration in memory alone, that a saved edit of the entrypoints leaves one doorbell, and that
  the generated codes pass the validation of the same package.
\<close>

section \<open>Records\<close>

record Capabilities =
  Stream :: bool
  Unlock :: bool
  Ring :: bool

record Entrypoint =
  ep_id :: string
  Label :: string
  DevAddr :: string
  Caps :: Capabilities
  UnlockMode :: string
  UnlockDurationMS :: int

record SIP =
  From :: string
  AuthUser :: string
  AuthPass :: string
  Listen :: string
  Transport :: string
  Domain :: string
  Inbound :: bool

datatype PairingState =
    PairingStateSetupRequired | PairingStateClaimable | PairingStateClaimed | PairingStateError
  | PairingStateOther string

record Auth =
  Pairing :: PairingState
  InstanceID :: string
  BearerTokenHash :: string

record WebUI =
  AdminUsername :: string
  AdminPasswordHash :: string
  SessionSecret :: string

record Service =
  svc_enabled :: bool
  svc_exposed :: bool

record System =
  RebootEnabled :: bool
  UpdateEnabled :: bool
  UpdateExposed :: bool
  UpdateChannel :: string
  Services :: "string \<rightharpoonup> Service"

record HomeKit =
  hk_enabled :: bool
  PIN :: string
  SetupID :: string
  hk_name :: string

record Config =
  DeviceID :: string
  Model :: string
  Entrypoints :: "Entrypoint list"
  cfg_sip :: SIP
  cfg_auth :: Auth
  cfg_webui :: WebUI
  LogLevel :: string
  cfg_system :: System
  cfg_homekit :: HomeKit

record persistedConfig =
  p_entrypoints :: "Entrypoint list"
  p_sip :: SIP
  p_level :: string
  p_auth :: Auth
  p_webui :: WebUI
  p_reboot :: bool
  p_updates_enabled :: bool
  p_updates_exposed :: bool
  p_channel :: string
  p_services :: "string \<rightharpoonup> Service"
  p_homekit :: HomeKit

record Metadata =
  md_model :: string
  md_mac :: string

abbreviation DefaultUnlockDurationMS :: int where "DefaultUnlockDurationMS \<equiv> 2000"
abbreviation MaxUnlockDurationMS :: int where "MaxUnlockDurationMS \<equiv> 2000"

datatype config_error =
    ErrMissingMetadata | ErrConfigExists | ErrInvalidHomeKitPIN
  | InvalidLogLevel string | InvalidPairingState PairingState | InvalidInstanceID
  | InvalidBearerTokenHash | ClaimedWithoutHash | UnclaimedWithHash
  | NoEntrypoint | EntrypointFieldsRequired | DuplicateEntrypoint string
  | InvalidUnlockMode string string | InvalidUnlockDuration string | InvalidUpdateChannel string
  | ErrExclusiveCapability | ErrSplitDoorbell string
  | OpenConfig | DecodeConfig | DecodeConfigDocument | MoreThanOneDocument
  | SaveConfig storage_error | RandomFailed | PINAttemptsExhausted

section \<open>Validation\<close>

definition validPairingState :: "PairingState \<Rightarrow> bool" where
  "validPairingState p = (case p of PairingStateOther _ \<Rightarrow> False | _ \<Rightarrow> True)"

definition validInstanceID :: "string \<Rightarrow> bool" where
  "validInstanceID v \<longleftrightarrow> length v = 32 \<and> hex_decode v \<noteq> None"

definition validBearerTokenHash :: "string \<Rightarrow> bool" where
  "validBearerTokenHash v \<longleftrightarrow> length v = 64 \<and> hex_decode v \<noteq> None"

definition ValidClaimCode :: "string \<Rightarrow> bool" where
  "ValidClaimCode code \<longleftrightarrow>
     length code = 9 \<and> code ! 4 = CHR ''-'' \<and> hex_decode (take 4 code @ drop 5 code) \<noteq> None"

definition validHomeKitPIN :: "string \<Rightarrow> bool" where
  "validHomeKitPIN pin \<longleftrightarrow>
     length pin = 10 \<and> pin ! 3 = CHR ''-'' \<and> pin ! 6 = CHR ''-'' \<and>
     list_all (\<lambda>i. i = 3 \<or> i = 6 \<or> is_digit (pin ! i)) [0..<10]"

definition validateMetadata :: "Metadata \<Rightarrow> config_error option" where
  "validateMetadata m =
     (if trim_space (md_model m) = '''' \<or> trim_space (md_mac m) = ''''
      then Some ErrMissingMetadata else None)"

fun validateEntrypoints :: "string list \<Rightarrow> Entrypoint list \<Rightarrow> config_error option" where
  "validateEntrypoints seen [] = None"
| "validateEntrypoints seen (e # es) =
     (if trim_space (ep_id e) = '''' \<or> trim_space (Label e) = '''' \<or> trim_space (DevAddr e) = ''''
        then Some EntrypointFieldsRequired
      else if ep_id e \<in> set seen then Some (DuplicateEntrypoint (ep_id e))
      else if UnlockMode e \<notin> {'''', ''door'', ''auxiliary''}
        then Some (InvalidUnlockMode (ep_id e) (UnlockMode e))
      else if UnlockDurationMS e < 0 \<or> UnlockDurationMS e > MaxUnlockDurationMS
        then Some (InvalidUnlockDuration (ep_id e))
      else validateEntrypoints (ep_id e # seen) es)"

definition Validate :: "Config \<Rightarrow> config_error option" where
  "Validate cfg =
     (if LogLevel cfg \<noteq> ''debug'' \<and> LogLevel cfg \<noteq> ''info'' \<and> LogLevel cfg \<noteq> ''warn'' \<and>
         LogLevel cfg \<noteq> ''error'' then Some (InvalidLogLevel (LogLevel cfg))
      else if \<not> validPairingState (Pairing (cfg_auth cfg))
        then Some (InvalidPairingState (Pairing (cfg_auth cfg)))
      else if \<not> validInstanceID (InstanceID (cfg_auth cfg)) then Some InvalidInstanceID
      else if BearerTokenHash (cfg_auth cfg) \<noteq> '''' \<and>
              \<not> validBearerTokenHash (BearerTokenHash (cfg_auth cfg)) then Some InvalidBearerTokenHash
      else if Pairing (cfg_auth cfg) = PairingStateClaimed \<and> BearerTokenHash (cfg_auth cfg) = ''''
        then Some ClaimedWithoutHash
      else if Pairing (cfg_auth cfg) \<noteq> PairingStateClaimed \<and> BearerTokenHash (cfg_auth cfg) \<noteq> ''''
        then Some UnclaimedWithHash
      else if Entrypoints cfg = [] then Some NoEntrypoint
      else case validateEntrypoints [] (Entrypoints cfg) of
             Some err \<Rightarrow> Some err
           | None \<Rightarrow>
               if PIN (cfg_homekit cfg) \<noteq> '''' \<and> \<not> validHomeKitPIN (PIN (cfg_homekit cfg))
                 then Some ErrInvalidHomeKitPIN
               else if UpdateChannel (cfg_system cfg) \<notin> {'''', ''stable'', ''beta''}
                 then Some (InvalidUpdateChannel (UpdateChannel (cfg_system cfg)))
               else None)"

section \<open>The doorbell\<close>

text \<open>The inner loop counts the capable entrypoints and keeps the last one.\<close>

fun count_capable :: "(Capabilities \<Rightarrow> bool) \<Rightarrow> Entrypoint list \<Rightarrow> Entrypoint option \<Rightarrow> nat \<Rightarrow> Entrypoint option \<times> nat" where
  "count_capable capable [] found n = (found, n)"
| "count_capable capable (e # es) found n =
     (if capable (Caps e) then count_capable capable es (Some e) (Suc n)
      else count_capable capable es found n)"

definition DoorbellEntrypoint :: "Entrypoint list \<Rightarrow> Entrypoint option" where
  "DoorbellEntrypoint es =
     (case count_capable Stream es None 0 of
        (found, n) \<Rightarrow>
          if n = 1 then found
          else if n > 1 then None
          else case count_capable Ring es None 0 of
                 (found, n) \<Rightarrow> if n = 1 then found else None)"

fun set_default_doorbell :: "Entrypoint list \<Rightarrow> Entrypoint list" where
  "set_default_doorbell [] = []"
| "set_default_doorbell (e # es) =
     (if trim_space (DevAddr e) = ''20''
      then e\<lparr>Caps := (Caps e)\<lparr>Stream := True, Ring := True\<rparr>\<rparr> # es
      else e # set_default_doorbell es)"

definition assignDefaultDoorbell :: "Entrypoint list \<Rightarrow> Entrypoint list" where
  "assignDefaultDoorbell es =
     (if list_ex (\<lambda>e. Stream (Caps e)) es then es else set_default_doorbell es)"

fun count_doorbells :: "Entrypoint list \<Rightarrow> nat \<Rightarrow> (config_error, nat) result" where
  "count_doorbells [] n = Ok n"
| "count_doorbells (e # es) n =
     (if Stream (Caps e) \<noteq> Ring (Caps e) then Err (ErrSplitDoorbell (ep_id e))
      else if Ring (Caps e) then count_doorbells es (Suc n)
      else count_doorbells es n)"

definition validateExclusiveCapabilities :: "Entrypoint list \<Rightarrow> config_error option" where
  "validateExclusiveCapabilities es =
     (case count_doorbells es 0 of
        Inl err \<Rightarrow> Some err
      | Inr n \<Rightarrow> if n > 1 then Some ErrExclusiveCapability else None)"

section \<open>The document on disk\<close>

definition persistedChannel :: "string \<Rightarrow> string" where
  "persistedChannel c = (if c = ''stable'' then '''' else c)"

definition to_persisted :: "Config \<Rightarrow> persistedConfig" where
  "to_persisted cfg =
     \<lparr>p_entrypoints = Entrypoints cfg, p_sip = cfg_sip cfg, p_level = LogLevel cfg,
      p_auth = cfg_auth cfg, p_webui = cfg_webui cfg,
      p_reboot = RebootEnabled (cfg_system cfg),
      p_updates_enabled = UpdateEnabled (cfg_system cfg),
      p_updates_exposed = UpdateExposed (cfg_system cfg),
      p_channel = persistedChannel (UpdateChannel (cfg_system cfg)),
      p_services = Services (cfg_system cfg), p_homekit = cfg_homekit cfg\<rparr>"

definition applySIPDefaults :: "SIP \<Rightarrow> SIP" where
  "applySIPDefaults s =
     (let s = (if trim_space (From s) = '''' then s\<lparr>From := ''companion@127.0.0.1:5070''\<rparr> else s);
          s = (if trim_space (Listen s) = '''' then s\<lparr>Listen := ''127.0.0.1:5070''\<rparr> else s)
      in if trim_space (Transport s) = '''' then s\<lparr>Transport := ''tcp''\<rparr> else s)"

datatype next_document = NoDocument | AnotherDocument | BrokenDocument

definition of_persisted :: "persistedConfig \<Rightarrow> Config" where
  "of_persisted p =
     \<lparr>DeviceID = '''', Model = '''', Entrypoints = p_entrypoints p, cfg_sip = p_sip p,
      cfg_auth = p_auth p, cfg_webui = p_webui p, LogLevel = p_level p,
      cfg_system =
        \<lparr>RebootEnabled = p_reboot p, UpdateEnabled = p_updates_enabled p,
         UpdateExposed = p_updates_exposed p,
         UpdateChannel = (if p_channel p = '''' then ''stable'' else p_channel p),
         Services = p_services p\<rparr>,
      cfg_homekit = p_homekit p\<rparr>"

definition Load ::
  "('y \<Rightarrow> persistedConfig option \<times> next_document) \<Rightarrow> 'y option \<Rightarrow> (config_error, Config) result" where
  "Load unmarshal file =
     (case file of
        None \<Rightarrow> Err OpenConfig
      | Some y \<Rightarrow>
          (case unmarshal y of
             (None, _) \<Rightarrow> Err DecodeConfig
           | (Some p, rest) \<Rightarrow>
               let cfg = of_persisted p in
               (case rest of
                  BrokenDocument \<Rightarrow> Err DecodeConfigDocument
                | AnotherDocument \<Rightarrow> Err MoreThanOneDocument
                | NoDocument \<Rightarrow>
                    (case Validate cfg of
                       Some err \<Rightarrow> Err err
                     | None \<Rightarrow> Ok (cfg\<lparr>cfg_sip := applySIPDefaults (cfg_sip cfg)\<rparr>)))))"

definition ApplyMetadata :: "Config \<Rightarrow> Metadata \<Rightarrow> (config_error, Config) result" where
  "ApplyMetadata cfg m =
     (case validateMetadata m of
        Some err \<Rightarrow> Err err
      | None \<Rightarrow>
          Ok (cfg\<lparr>Model := md_model m,
                  DeviceID := to_lower (replace_char CHR '' '' ''-'' (md_model m)) @ ''-'' @
                              replace_char CHR '':'' '''' (to_lower (md_mac m))\<rparr>))"

definition DefaultConfig :: "Metadata \<Rightarrow> nat list option \<Rightarrow> (config_error, Config) result" where
  "DefaultConfig m random =
     (case validateMetadata m of
        Some err \<Rightarrow> Err err
      | None \<Rightarrow>
          (case random of
             None \<Rightarrow> Err RandomFailed
           | Some bytes \<Rightarrow>
               ApplyMetadata
                 \<lparr>DeviceID = '''', Model = '''',
                  Entrypoints =
                    [\<lparr>ep_id = ''main'', Label = ''Main Gate'', DevAddr = ''20'',
                      Caps = \<lparr>Stream = True, Unlock = True, Ring = True\<rparr>,
                      UnlockMode = '''', UnlockDurationMS = 0\<rparr>],
                  cfg_sip =
                    \<lparr>From = ''companion@127.0.0.1:5070'', AuthUser = '''', AuthPass = '''',
                     Listen = ''127.0.0.1:5070'', Transport = ''tcp'', Domain = '''', Inbound = False\<rparr>,
                  cfg_auth =
                    \<lparr>Pairing = PairingStateSetupRequired, InstanceID = hex_encode bytes,
                     BearerTokenHash = ''''\<rparr>,
                  cfg_webui = \<lparr>AdminUsername = '''', AdminPasswordHash = '''', SessionSecret = ''''\<rparr>,
                  LogLevel = ''info'',
                  cfg_system =
                    \<lparr>RebootEnabled = True, UpdateEnabled = True, UpdateExposed = False,
                     UpdateChannel = ''stable'',
                     Services = [''companion'' \<mapsto> \<lparr>svc_enabled = True, svc_exposed = True\<rparr>,
                                 ''dropbear'' \<mapsto> \<lparr>svc_enabled = True, svc_exposed = True\<rparr>]\<rparr>,
                  cfg_homekit =
                    \<lparr>hk_enabled = False, PIN = '''', SetupID = '''', hk_name = ''BTicino Companion''\<rparr>\<rparr>
                 m))"

section \<open>The store\<close>

record 'y Store =
  st_cfg :: Config
  st_disk :: "'y fs"

definition save ::
  "(persistedConfig \<Rightarrow> 'y) \<Rightarrow> (wstep \<Rightarrow> bool) \<Rightarrow> Config \<Rightarrow> bool \<Rightarrow> 'y fs \<Rightarrow> 'y fs \<times> config_error option" where
  "save marshal fails cfg exclusive disk =
     (case WritePrivateFile fails exclusive (marshal (to_persisted cfg)) disk of
        (disk', None) \<Rightarrow> (disk', None)
      | (disk', Some ErrExist) \<Rightarrow>
          (disk', Some (if exclusive then ErrConfigExists else SaveConfig ErrExist))
      | (disk', Some err) \<Rightarrow> (disk', Some (SaveConfig err)))"

definition Create ::
  "(persistedConfig \<Rightarrow> 'y) \<Rightarrow> (wstep \<Rightarrow> bool) \<Rightarrow> Metadata \<Rightarrow> nat list option \<Rightarrow> 'y fs \<Rightarrow>
   'y fs \<times> (config_error, Config) result" where
  "Create marshal fails m random disk =
     (case validateMetadata m of
        Some err \<Rightarrow> (disk, Err err)
      | None \<Rightarrow>
          (case DefaultConfig m random of
             Inl err \<Rightarrow> (disk, Err err)
           | Inr cfg \<Rightarrow>
               (case save marshal fails cfg True disk of
                  (disk', Some err) \<Rightarrow> (disk', Err err)
                | (disk', None) \<Rightarrow> (disk', Ok cfg))))"

text \<open>
  \<open>Update\<close> takes the edit as a function that may refuse. The error of the edit and the errors of the
  package are the two sides of a sum.
\<close>

definition Update ::
  "(persistedConfig \<Rightarrow> 'y) \<Rightarrow> (wstep \<Rightarrow> bool) \<Rightarrow> (Config \<Rightarrow> ('e, Config) result) \<Rightarrow> 'y Store \<Rightarrow>
   'y Store \<times> ('e + config_error) option" where
  "Update marshal fails edit s =
     (case edit (st_cfg s) of
        Inl err \<Rightarrow> (s, Some (Inl err))
      | Inr next \<Rightarrow>
          (case Validate next of
             Some err \<Rightarrow> (s, Some (Inr err))
           | None \<Rightarrow>
               let changed = (Entrypoints (st_cfg s) \<noteq> Entrypoints next);
                   next = (if changed then next\<lparr>Entrypoints := assignDefaultDoorbell (Entrypoints next)\<rparr>
                           else next)
               in (case (if changed then validateExclusiveCapabilities (Entrypoints next) else None) of
                     Some err \<Rightarrow> (s, Some (Inr err))
                   | None \<Rightarrow>
                       (case save marshal fails next False (st_disk s) of
                          (disk, Some err) \<Rightarrow> (s\<lparr>st_disk := disk\<rparr>, Some (Inr err))
                        | (disk, None) \<Rightarrow> (s\<lparr>st_cfg := next, st_disk := disk\<rparr>, None)))))"

definition disk_document :: "'y fs \<Rightarrow> 'y option" where
  "disk_document disk = (case target disk of Some (Whole y) \<Rightarrow> Some y | _ \<Rightarrow> None)"

definition EnsureSIPSection ::
  "(persistedConfig \<Rightarrow> 'y) \<Rightarrow> ('y \<Rightarrow> bool option) \<Rightarrow> (wstep \<Rightarrow> bool) \<Rightarrow> 'y Store \<Rightarrow>
   'y Store \<times> (config_error, bool) result" where
  "EnsureSIPSection marshal probe fails s =
     (case disk_document (st_disk s) of
        None \<Rightarrow> (s, Err OpenConfig)
      | Some y \<Rightarrow>
          (case probe y of
             None \<Rightarrow> (s, Err DecodeConfig)
           | Some True \<Rightarrow> (s, Ok False)
           | Some False \<Rightarrow>
               let next = (st_cfg s)\<lparr>cfg_sip := (cfg_sip (st_cfg s))\<lparr>Inbound := False\<rparr>\<rparr>
               in (case save marshal fails next False (st_disk s) of
                     (disk, Some err) \<Rightarrow> (s\<lparr>st_disk := disk\<rparr>, Err err)
                   | (disk, None) \<Rightarrow> (s\<lparr>st_cfg := next, st_disk := disk\<rparr>, Ok True))))"

section \<open>Generated codes\<close>

definition GenerateClaimCode :: "nat list option \<Rightarrow> nat list option \<Rightarrow> (config_error, string) result" where
  "GenerateClaimCode r1 r2 =
     (case r1 of
        None \<Rightarrow> Err RandomFailed
      | Some first \<Rightarrow>
          (case r2 of
             None \<Rightarrow> Err RandomFailed
           | Some snd_half \<Rightarrow> Ok (hex_encode first @ ''-'' @ hex_encode snd_half)))"

fun pad_nat :: "nat \<Rightarrow> nat \<Rightarrow> string" where
  "pad_nat 0 n = []"
| "pad_nat (Suc w) n = pad_nat w (n div 10) @ [char_of (n mod 10 + 48)]"

text \<open>
  \<open>pad_nat w n\<close> is \<^verbatim>\<open>%0wd\<close> for a number of at most \<open>w\<close> digits, which the three parts of a value below
  100000000 are. \<open>randoms\<close> holds what the calls of \<^verbatim>\<open>rand.Int\<close> give, indexed by the number of attempts
  that remain after the call.
\<close>

definition format_pin :: "nat \<Rightarrow> string" where
  "format_pin v = pad_nat 3 (v div 100000) @ ''-'' @ pad_nat 2 (v div 1000 mod 100) @ ''-'' @ pad_nat 3 (v mod 1000)"

fun pin_attempts :: "nat \<Rightarrow> (nat \<Rightarrow> nat option) \<Rightarrow> (config_error, string) result" where
  "pin_attempts 0 randoms = Err PINAttemptsExhausted"
| "pin_attempts (Suc n) randoms =
     (case randoms n of
        None \<Rightarrow> Err RandomFailed
      | Some v \<Rightarrow>
          if format_pin v \<noteq> ''111-11-111'' \<and> format_pin v \<noteq> ''123-45-678'' then Ok (format_pin v)
          else pin_attempts n randoms)"

definition GenerateHomeKitPIN :: "(nat \<Rightarrow> nat option) \<Rightarrow> (config_error, string) result" where
  "GenerateHomeKitPIN randoms = pin_attempts 10 randoms"

fun setup_chars :: "nat list \<Rightarrow> string" where
  "setup_chars [] = []"
| "setup_chars (v # vs) = (''0123456789ABCDEFGHIJKLMNOPQRSTUVWXYZ'' ! v) # setup_chars vs"

definition GenerateHomeKitSetupID :: "nat option \<times> nat option \<times> nat option \<times> nat option \<Rightarrow> (config_error, string) result" where
  "GenerateHomeKitSetupID r =
     (case r of
        (Some a, Some b, Some c, Some d) \<Rightarrow> Ok (setup_chars [a, b, c, d])
      | _ \<Rightarrow> Err RandomFailed)"

section \<open>Lemmas\<close>

lemma byte_of_char_of: "n < 256 \<Longrightarrow> byte_of (char_of n) = n"
  by (simp add: byte_of_def of_char_of take_bit_eq_mod)

lemma hex_val_hex_digit: "n < 16 \<Longrightarrow> hex_val (hex_digit n) = Some n"
  by (auto simp: hex_val_def hex_digit_def byte_of_char_of Let_def)

lemma hex_encode_Nil [simp]: "hex_encode [] = []"
  by (simp add: hex_encode_def)

lemma hex_encode_Cons [simp]:
  "hex_encode (b # bs) = hex_digit (b div 16) # hex_digit (b mod 16) # hex_encode bs"
  by (simp add: hex_encode_def)

lemma length_hex_encode [simp]: "length (hex_encode bs) = 2 * length bs"
  by (induction bs) auto

lemma hex_decode_encode: "list_all (\<lambda>b. b < 256) bs \<Longrightarrow> hex_decode (hex_encode bs) = Some bs"
  by (induction bs) (auto simp: hex_val_hex_digit)

lemma hex_decode_append:
  "even (length a) \<Longrightarrow> hex_decode a = Some x \<Longrightarrow> hex_decode b = Some y \<Longrightarrow> hex_decode (a @ b) = Some (x @ y)"
  by (induction a arbitrary: x rule: hex_decode.induct) (auto split: option.splits)

lemma length_pad_nat [simp]: "length (pad_nat w n) = w"
  by (induction w arbitrary: n) auto

lemma pad_nat_2: "pad_nat 2 n = [char_of (n div 10 mod 10 + 48), char_of (n mod 10 + 48)]"
  by (simp add: numeral_2_eq_2)

lemma pad_nat_3:
  "pad_nat 3 n = [char_of (n div 10 div 10 mod 10 + 48), char_of (n div 10 mod 10 + 48), char_of (n mod 10 + 48)]"
  by (simp add: numeral_3_eq_3)

lemma pad_nat_digits: "c \<in> set (pad_nat w n) \<Longrightarrow> is_digit c"
  by (induction w arbitrary: n) (auto simp: is_digit_def byte_of_char_of)

lemma pad_nat_nth: "i < w \<Longrightarrow> is_digit (pad_nat w n ! i)"
  by (rule pad_nat_digits [of _ w n]) simp

lemma format_pin_valid: "validHomeKitPIN (format_pin v)"
proof -
  have "is_digit (format_pin v ! i)" if "i \<in> {0, 1, 2, 4, 5, 7, 8, 9}" for i
    using that pad_nat_nth unfolding format_pin_def
    by (auto simp: nth_append nth_Cons' pad_nat_nth)
  then show ?thesis
    by (simp add: validHomeKitPIN_def upt_rec) (simp add: format_pin_def nth_append)
qed

lemma pin_attempts_Ok:
  "pin_attempts n randoms = Inr pin \<Longrightarrow> \<exists>v. pin = format_pin v \<and> pin \<notin> {''111-11-111'', ''123-45-678''}"
  by (induction n randoms rule: pin_attempts.induct) (auto split: option.splits if_splits)

lemma count_capable_acc:
  "count_capable p es f n =
     (case filter (\<lambda>e. p (Caps e)) es of [] \<Rightarrow> f | xs \<Rightarrow> Some (last xs),
      n + length (filter (\<lambda>e. p (Caps e)) es))"
  by (induction p es f n rule: count_capable.induct) (auto split: list.splits)

lemma DoorbellEntrypoint_eq:
  "DoorbellEntrypoint es =
     (case filter (\<lambda>e. Stream (Caps e)) es of
        [e] \<Rightarrow> Some e
      | [] \<Rightarrow> (case filter (\<lambda>e. Ring (Caps e)) es of [e] \<Rightarrow> Some e | _ \<Rightarrow> None)
      | _ \<Rightarrow> None)"
  by (auto simp: DoorbellEntrypoint_def count_capable_acc split: list.splits)

lemma DoorbellEntrypoint_mem: "DoorbellEntrypoint es = Some e \<Longrightarrow> e \<in> set es"
  by (auto simp: DoorbellEntrypoint_eq filter_eq_Cons_iff split: list.splits)

lemma count_doorbells_acc:
  "count_doorbells es n = Inr m \<longleftrightarrow>
     list_all (\<lambda>e. Stream (Caps e) = Ring (Caps e)) es \<and>
     m = n + length (filter (\<lambda>e. Stream (Caps e)) es)"
  by (induction es n rule: count_doorbells.induct) auto

lemma validateExclusiveCapabilities_None:
  "validateExclusiveCapabilities es = None \<longleftrightarrow>
     list_all (\<lambda>e. Stream (Caps e) = Ring (Caps e)) es \<and>
     length (filter (\<lambda>e. Stream (Caps e)) es) \<le> 1"
proof (cases "count_doorbells es 0")
  case (Inl err)
  then show ?thesis
    using count_doorbells_acc [of es 0 "length (filter (\<lambda>e. Stream (Caps e)) es)"]
    by (simp add: validateExclusiveCapabilities_def)
next
  case (Inr n)
  then show ?thesis
    using count_doorbells_acc [of es 0 n] by (auto simp: validateExclusiveCapabilities_def)
qed

lemma set_default_doorbell_streams:
  "list_ex (\<lambda>e. trim_space (DevAddr e) = ''20'') es \<Longrightarrow>
   list_ex (\<lambda>e. Stream (Caps e)) (set_default_doorbell es)"
  by (induction es) auto

lemma assignDefaultDoorbell_streams:
  "list_ex (\<lambda>e. Stream (Caps e) \<or> trim_space (DevAddr e) = ''20'') es \<Longrightarrow>
   list_ex (\<lambda>e. Stream (Caps e)) (assignDefaultDoorbell es)"
  using set_default_doorbell_streams by (auto simp: assignDefaultDoorbell_def list_ex_iff)

lemma set_default_doorbell_valid:
  "validateEntrypoints seen (set_default_doorbell es) = validateEntrypoints seen es"
  by (induction es arbitrary: seen) auto

lemma assignDefaultDoorbell_valid [simp]:
  "validateEntrypoints seen (assignDefaultDoorbell es) = validateEntrypoints seen es"
  by (simp add: assignDefaultDoorbell_def set_default_doorbell_valid)

lemma assignDefaultDoorbell_Nil [simp]: "assignDefaultDoorbell es = [] \<longleftrightarrow> es = []"
  by (cases es) (auto simp: assignDefaultDoorbell_def)

lemma Validate_assignDefaultDoorbell:
  "Validate (cfg\<lparr>Entrypoints := assignDefaultDoorbell (Entrypoints cfg)\<rparr>) = Validate cfg"
  by (simp add: Validate_def cong: option.case_cong)

lemma Validate_unread [simp]:
  "Validate (cfg\<lparr>cfg_sip := s\<rparr>) = Validate cfg"
  "Validate (cfg\<lparr>Model := m\<rparr>) = Validate cfg"
  "Validate (cfg\<lparr>DeviceID := d\<rparr>) = Validate cfg"
  by (simp_all add: Validate_def cong: option.case_cong)

subsection \<open>The store\<close>

lemma save_cases:
  "save marshal fails cfg exclusive disk = (disk', err) \<Longrightarrow>
   target disk' \<in> {target disk, Some (Whole (marshal (to_persisted cfg)))} \<and>
   (err = None \<longrightarrow> target disk' = Some (Whole (marshal (to_persisted cfg))))"
  using WritePrivateFile_target [of fails exclusive "marshal (to_persisted cfg)" disk]
  using WritePrivateFile_ok [of fails exclusive "marshal (to_persisted cfg)" disk disk']
  by (auto simp: save_def split: prod.splits option.splits storage_error.splits)

lemma save_no_failure:
  "(\<And>w. \<not> fails w) \<Longrightarrow>
   save marshal fails cfg False disk =
     (\<lparr>target = Some (Whole (marshal (to_persisted cfg))), temporary = None\<rparr>, None)"
  by (simp add: save_def WritePrivateFile_replace_ok)

lemma Update_SomeD:
  "Update marshal fails edit s = (s', Some err) \<Longrightarrow> st_cfg s' = st_cfg s"
  by (auto simp: Update_def Let_def split: sum.splits option.splits if_splits prod.splits)

lemma Update_NoneD:
  assumes "Update marshal fails edit s = (s', None)"
  obtains nxt where "edit (st_cfg s) = Inr nxt" "Validate nxt = None"
    "st_cfg s' = (if Entrypoints (st_cfg s) = Entrypoints nxt then nxt
                  else nxt\<lparr>Entrypoints := assignDefaultDoorbell (Entrypoints nxt)\<rparr>)"
    "Entrypoints (st_cfg s) \<noteq> Entrypoints nxt \<Longrightarrow>
       validateExclusiveCapabilities (Entrypoints (st_cfg s')) = None"
    "target (st_disk s') = Some (Whole (marshal (to_persisted (st_cfg s'))))"
proof -
  from assms obtain nxt where n: "edit (st_cfg s) = Inr nxt" "Validate nxt = None"
    by (auto simp: Update_def split: sum.splits option.splits)
  define c where "c = (if Entrypoints (st_cfg s) = Entrypoints nxt then nxt
                  else nxt\<lparr>Entrypoints := assignDefaultDoorbell (Entrypoints nxt)\<rparr>)"
  from assms n obtain disk where
    d: "save marshal fails c False (st_disk s) = (disk, None)" "s' = s\<lparr>st_cfg := c, st_disk := disk\<rparr>"
    "Entrypoints (st_cfg s) \<noteq> Entrypoints nxt \<Longrightarrow> validateExclusiveCapabilities (Entrypoints c) = None"
    by (auto simp: Update_def Let_def c_def split: option.splits if_splits prod.splits)
  from save_cases [OF d(1)] d(2,3) n that c_def show thesis by auto
qed

lemma Update_changed_ok:
  assumes "edit (st_cfg s) = Inr nxt" and "Validate nxt = None"
    and "Entrypoints nxt \<noteq> Entrypoints (st_cfg s)"
    and "validateExclusiveCapabilities (assignDefaultDoorbell (Entrypoints nxt)) = None"
    and "\<And>w. \<not> fails w"
  shows "snd (Update marshal fails edit s) = None"
  using assms by (simp add: Update_def Let_def save_no_failure)

lemma Update_valid:
  "Update marshal fails edit s = (s', None) \<Longrightarrow> Validate (st_cfg s') = None"
  by (erule Update_NoneD) (auto simp: Validate_assignDefaultDoorbell)

subsection \<open>Loading what was saved\<close>

lemma applySIPDefaults_idem: "applySIPDefaults (applySIPDefaults s) = applySIPDefaults s"
proof -
  have t: "trim_space ''companion@127.0.0.1:5070'' = ''companion@127.0.0.1:5070''"
    "trim_space ''127.0.0.1:5070'' = ''127.0.0.1:5070''" "trim_space ''tcp'' = ''tcp''"
    by (rule trim_space_all_plain, simp add: plain_def byte_of_def)+
  show ?thesis
    by (cases "trim_space (From s) = ''''"; cases "trim_space (Listen s) = ''''";
        cases "trim_space (Transport s) = ''''") (simp_all add: applySIPDefaults_def Let_def t)
qed

lemma of_to_persisted:
  assumes "UpdateChannel (cfg_system cfg) \<noteq> ''''"
  shows "of_persisted (to_persisted cfg) = cfg\<lparr>DeviceID := '''', Model := ''''\<rparr>"
  using assms by (simp add: of_persisted_def to_persisted_def persistedChannel_def)

lemma of_persisted_simps [simp]:
  "DeviceID (of_persisted p) = ''''" "Model (of_persisted p) = ''''"
  "UpdateChannel (cfg_system (of_persisted p)) \<noteq> ''''"
  by (simp_all add: of_persisted_def)

lemma Load_OkE:
  assumes "Load unmarshal file = Inr cfg"
  obtains p where "Validate (of_persisted p) = None"
    "cfg = (of_persisted p)\<lparr>cfg_sip := applySIPDefaults (cfg_sip (of_persisted p))\<rparr>"
  using assms by (auto simp: Load_def Let_def split: option.splits prod.splits next_document.splits)

lemma Load_OkD:
  assumes "Load unmarshal file = Inr cfg"
  shows "Validate cfg = None" "UpdateChannel (cfg_system cfg) \<noteq> ''''" "DeviceID cfg = ''''"
    "Model cfg = ''''" "applySIPDefaults (cfg_sip cfg) = cfg_sip cfg"
proof -
  obtain p where p: "Validate (of_persisted p) = None"
    "cfg = (of_persisted p)\<lparr>cfg_sip := applySIPDefaults (cfg_sip (of_persisted p))\<rparr>"
    using Load_OkE [OF assms] .
  then show "Validate cfg = None" "UpdateChannel (cfg_system cfg) \<noteq> ''''" "DeviceID cfg = ''''"
    "Model cfg = ''''" "applySIPDefaults (cfg_sip cfg) = cfg_sip cfg"
    by (simp_all add: applySIPDefaults_idem)
qed

lemma Load_saved:
  assumes "unmarshal (marshal (to_persisted cfg)) = (Some (to_persisted cfg), NoDocument)"
    and "Validate cfg = None" and "UpdateChannel (cfg_system cfg) \<noteq> ''''"
  shows "Load unmarshal (Some (marshal (to_persisted cfg))) =
         Inr (cfg\<lparr>DeviceID := '''', Model := '''', cfg_sip := applySIPDefaults (cfg_sip cfg)\<rparr>)"
  using assms by (simp add: Load_def Let_def of_to_persisted)

subsection \<open>A concrete configuration for the witnesses\<close>

definition sample_config :: Config where
  "sample_config =
     \<lparr>DeviceID = '''', Model = '''',
      Entrypoints =
        [\<lparr>ep_id = ''main'', Label = ''Main Gate'', DevAddr = ''20'',
          Caps = \<lparr>Stream = True, Unlock = True, Ring = True\<rparr>, UnlockMode = '''', UnlockDurationMS = 0\<rparr>],
      cfg_sip =
        \<lparr>From = ''companion@127.0.0.1:5070'', AuthUser = '''', AuthPass = '''',
         Listen = ''127.0.0.1:5070'', Transport = ''tcp'', Domain = '''', Inbound = False\<rparr>,
      cfg_auth =
        \<lparr>Pairing = PairingStateSetupRequired, InstanceID = replicate 32 (CHR ''0''), BearerTokenHash = ''''\<rparr>,
      cfg_webui = \<lparr>AdminUsername = '''', AdminPasswordHash = '''', SessionSecret = ''''\<rparr>,
      LogLevel = ''info'',
      cfg_system =
        \<lparr>RebootEnabled = True, UpdateEnabled = True, UpdateExposed = False, UpdateChannel = ''stable'',
         Services = Map.empty\<rparr>,
      cfg_homekit = \<lparr>hk_enabled = False, PIN = '''', SetupID = '''', hk_name = ''BTicino Companion''\<rparr>\<rparr>"

lemma trim_samples:
  "trim_space ''main'' = ''main''" "trim_space ''Main Gate'' = ''Main Gate''" "trim_space ''20'' = ''20''"
  "trim_space ''companion@127.0.0.1:5070'' = ''companion@127.0.0.1:5070''"
  "trim_space ''127.0.0.1:5070'' = ''127.0.0.1:5070''" "trim_space ''tcp'' = ''tcp''"
  by (rule trim_space_plain; simp add: plain_def byte_of_def)+

lemma hex_val_0: "hex_val (CHR ''0'') = Some 0"
  by (simp add: hex_val_def byte_of_def)

lemma sample_config_valid: "Validate sample_config = None"
  by (simp add: Validate_def sample_config_def trim_samples validPairingState_def validInstanceID_def
      hex_val_0 numeral_eq_Suc)

lemma sample_config_loads:
  "Load (\<lambda>p. (Some p, NoDocument)) (Some (to_persisted sample_config)) = Inr sample_config"
proof -
  have "UpdateChannel (cfg_system sample_config) \<noteq> ''''" by (simp add: sample_config_def)
  from Load_saved [where marshal = "\<lambda>p. p" and unmarshal = "\<lambda>p. (Some p, NoDocument)",
      OF _ sample_config_valid this]
  show ?thesis by (simp add: sample_config_def applySIPDefaults_def trim_samples)
qed

section \<open>Properties\<close>



text \<open>
  An update of the configuration that returns an error leaves the configuration in memory as it was; one
  that succeeds leaves a configuration that passes the validation, the same in memory and in the file.
\<close>

theorem config_update_all_or_nothing:
  "(case Update marshal fails edit s of
      (s', Some err) \<Rightarrow> st_cfg s' = st_cfg s
    | (s', None) \<Rightarrow>
        Validate (st_cfg s') = None \<and>
        disk_document (st_disk s') = Some (marshal (to_persisted (st_cfg s'))))"
proof (cases "Update marshal fails edit s")
  case (Pair s' r)
  then show ?thesis
  proof (cases r)
    case None
    with Pair have u: "Update marshal fails edit s = (s', None)" by simp
    from u have "target (st_disk s') = Some (Whole (marshal (to_persisted (st_cfg s'))))"
      by (rule Update_NoneD)
    with Update_valid [OF u] u show ?thesis by (simp add: disk_document_def)
  qed (auto dest: Update_SomeD)
qed

text \<open>
  After an accepted edit of the entrypoints there is exactly one doorbell, able to stream and to ring,
  and \<open>DoorbellEntrypoint\<close> finds it, as long as the edit has an entrypoint that streams or one at the
  default address 20.
\<close>

theorem config_edit_leaves_one_doorbell:
  assumes upd: "Update marshal fails edit s = (s', None)"
    and ed: "edit (st_cfg s) = Inr nxt" and changed: "Entrypoints nxt \<noteq> Entrypoints (st_cfg s)"
    and some: "list_ex (\<lambda>e. Stream (Caps e) \<or> trim_space (DevAddr e) = ''20'') (Entrypoints nxt)"
  shows "\<exists>e. DoorbellEntrypoint (Entrypoints (st_cfg s')) = Some e \<and> Stream (Caps e) \<and> Ring (Caps e) \<and>
           filter (\<lambda>e. Stream (Caps e) \<or> Ring (Caps e)) (Entrypoints (st_cfg s')) = [e]"
proof -
  let ?es = "Entrypoints (st_cfg s')"
  from upd obtain n' where n': "edit (st_cfg s) = Inr n'"
    and c: "st_cfg s' = (if Entrypoints (st_cfg s) = Entrypoints n' then n'
                  else n'\<lparr>Entrypoints := assignDefaultDoorbell (Entrypoints n')\<rparr>)"
    and v: "Entrypoints (st_cfg s) \<noteq> Entrypoints n' \<Longrightarrow> validateExclusiveCapabilities ?es = None"
    by (elim Update_NoneD) blast
  from n' ed have [simp]: "n' = nxt" by simp
  from c changed have es: "?es = assignDefaultDoorbell (Entrypoints nxt)" by auto
  from v changed have split: "list_all (\<lambda>e. Stream (Caps e) = Ring (Caps e)) ?es"
    and le: "length (filter (\<lambda>e. Stream (Caps e)) ?es) \<le> 1"
    by (auto simp: validateExclusiveCapabilities_None)
  from assignDefaultDoorbell_streams [OF some] have "filter (\<lambda>e. Stream (Caps e)) ?es \<noteq> []"
    by (auto simp: es list_ex_iff filter_empty_conv)
  with le obtain e where f: "filter (\<lambda>e. Stream (Caps e)) ?es = [e]"
    by (cases "filter (\<lambda>e. Stream (Caps e)) ?es") auto
  have "filter (\<lambda>e. Stream (Caps e) \<or> Ring (Caps e)) ?es = filter (\<lambda>e. Stream (Caps e)) ?es"
    using split by (intro filter_cong) (auto simp: list_all_iff)
  moreover have "e \<in> set ?es" "Stream (Caps e)"
    using f by (auto simp: filter_eq_Cons_iff)
  ultimately show ?thesis using f split by (auto simp: DoorbellEntrypoint_eq list_all_iff)
qed

definition sample_edit :: "Config \<Rightarrow> (unit, Config) result" where
  "sample_edit c =
     Ok (c\<lparr>Entrypoints := map (\<lambda>e. e\<lparr>Label := ''Gate'', Caps := (Caps e)\<lparr>Stream := False\<rparr>\<rparr>) (Entrypoints c)\<rparr>)"

theorem config_edit_leaves_one_doorbell_witness:
  "snd (Update (\<lambda>p. p) (\<lambda>_. False) sample_edit
          \<lparr>st_cfg = sample_config, st_disk = \<lparr>target = None, temporary = None\<rparr>\<rparr>) = None \<and>
   (\<exists>e. DoorbellEntrypoint (Entrypoints (st_cfg (fst (Update (\<lambda>p. p) (\<lambda>_. False) sample_edit
          \<lparr>st_cfg = sample_config, st_disk = \<lparr>target = None, temporary = None\<rparr>\<rparr>)))) = Some e \<and> Ring (Caps e))"
proof -
  let ?s = "\<lparr>st_cfg = sample_config, st_disk = \<lparr>target = None, temporary = None\<rparr>\<rparr> :: persistedConfig Store"
  let ?n = "sample_config\<lparr>Entrypoints := map (\<lambda>e. e\<lparr>Label := ''Gate'', Caps := (Caps e)\<lparr>Stream := False\<rparr>\<rparr>) (Entrypoints sample_config)\<rparr>"
  have ed: "sample_edit (st_cfg ?s) = Inr ?n" by (simp add: sample_edit_def)
  have g: "trim_space ''Gate'' = ''Gate''" by (rule trim_space_plain; simp add: plain_def byte_of_def)
  have ch: "Entrypoints ?n \<noteq> Entrypoints (st_cfg ?s)" by (simp add: sample_config_def)
  have so: "list_ex (\<lambda>e. Stream (Caps e) \<or> trim_space (DevAddr e) = ''20'') (Entrypoints ?n)"
    by (simp add: sample_config_def trim_samples)
  have va: "Validate ?n = None"
    by (simp add: Validate_def sample_config_def trim_samples g validPairingState_def validInstanceID_def
        hex_val_0 numeral_eq_Suc)
  have ex: "validateExclusiveCapabilities (assignDefaultDoorbell (Entrypoints ?n)) = None"
    by (simp add: validateExclusiveCapabilities_None assignDefaultDoorbell_def sample_config_def trim_samples)
  have "snd (Update (\<lambda>p. p) (\<lambda>_. False) sample_edit ?s) = None"
    by (rule Update_changed_ok [where nxt = ?n]) (use ed va ch ex in simp_all)
  then obtain s' where u: "Update (\<lambda>p. p) (\<lambda>_. False) sample_edit ?s = (s', None)"
    by (metis prod.collapse)
  from config_edit_leaves_one_doorbell [where s = ?s and nxt = ?n and edit = sample_edit, OF u ed ch so] u
  show ?thesis by auto
qed

text \<open>
  The migration of old configurations writes the SIP section at most once: after a call that wrote
  it, a second call finds it and changes nothing, and the section never turns inbound calls on.
\<close>

theorem ensure_sip_section_once:
  assumes present: "\<And>p. probe (marshal p) = Some True"
    and first: "EnsureSIPSection marshal probe fails s = (s', Inr True)"
  shows "EnsureSIPSection marshal probe fails' s' = (s', Inr False) \<and> \<not> Inbound (cfg_sip (st_cfg s'))"
proof -
  from first obtain disk where
    d: "save marshal fails ((st_cfg s)\<lparr>cfg_sip := (cfg_sip (st_cfg s))\<lparr>Inbound := False\<rparr>\<rparr>) False (st_disk s) = (disk, None)"
    and s': "s' = s\<lparr>st_cfg := (st_cfg s)\<lparr>cfg_sip := (cfg_sip (st_cfg s))\<lparr>Inbound := False\<rparr>\<rparr>, st_disk := disk\<rparr>"
    by (auto simp: EnsureSIPSection_def Let_def split: option.splits prod.splits bool.splits)
  from save_cases [OF d] s' present show ?thesis
    by (simp add: EnsureSIPSection_def disk_document_def)
qed

theorem ensure_sip_section_once_witness:
  "(let s = \<lparr>st_cfg = sample_config, st_disk = \<lparr>target = Some (Whole None), temporary = None\<rparr>\<rparr>;
        s' = fst (EnsureSIPSection Some (\<lambda>y. Some (y \<noteq> None)) (\<lambda>_. False) s) in
    EnsureSIPSection Some (\<lambda>y. Some (y \<noteq> None)) (\<lambda>_. False) s' = (s', Inr False))"
proof -
  let ?s = "\<lparr>st_cfg = sample_config, st_disk = \<lparr>target = Some (Whole None), temporary = None\<rparr>\<rparr>"
  have "snd (EnsureSIPSection Some (\<lambda>y. Some (y \<noteq> None)) (\<lambda>_. False) ?s) = Inr True"
    by (simp add: EnsureSIPSection_def disk_document_def save_no_failure Let_def)
  then obtain s' where f: "EnsureSIPSection Some (\<lambda>y. Some (y \<noteq> None)) (\<lambda>_. False) ?s = (s', Inr True)"
    by (metis prod.collapse)
  show ?thesis using ensure_sip_section_once [OF _ f] f by simp
qed

text \<open>
  Every HomeKit PIN and every claim code the package generates passes the package's own validation,
  and the PIN is never one of the two it excludes.
\<close>

theorem generated_codes_valid:
  "(\<forall>pin. GenerateHomeKitPIN randoms = Inr pin \<longrightarrow>
      validHomeKitPIN pin \<and> pin \<noteq> ''111-11-111'' \<and> pin \<noteq> ''123-45-678'') \<and>
   (\<forall>a b c d code. a < 256 \<and> b < 256 \<and> c < 256 \<and> d < 256 \<and>
      GenerateClaimCode (Some [a, b]) (Some [c, d]) = Inr code \<longrightarrow> ValidClaimCode code)"
proof (intro conjI allI impI)
  fix a b c d :: nat and code
  assume h: "a < 256 \<and> b < 256 \<and> c < 256 \<and> d < 256 \<and> GenerateClaimCode (Some [a, b]) (Some [c, d]) = Inr code"
  then have "hex_decode (hex_encode [a, b] @ hex_encode [c, d]) = Some ([a, b] @ [c, d])"
    by (intro hex_decode_append hex_decode_encode) auto
  moreover from h have "code = hex_encode [a, b] @ ''-'' @ hex_encode [c, d]"
    by (simp add: GenerateClaimCode_def)
  ultimately show "ValidClaimCode code" by (simp add: ValidClaimCode_def)
qed (use pin_attempts_Ok format_pin_valid in \<open>fastforce simp: GenerateHomeKitPIN_def\<close>)+

theorem generated_codes_valid_witness:
  "GenerateHomeKitPIN (\<lambda>i. Some (if i = 9 then 12345678 else 99900003)) = Inr ''999-00-003'' \<and>
   validHomeKitPIN ''999-00-003'' \<and>
   GenerateClaimCode (Some [1, 35]) (Some [69, 103]) = Inr ''0123-4567'' \<and> ValidClaimCode ''0123-4567''"
proof -
  have f: "format_pin 12345678 = ''123-45-678''" "format_pin 99900003 = ''999-00-003''"
    by (simp_all add: format_pin_def pad_nat_2 pad_nat_3 char_of_def bit_0)
  have p: "GenerateHomeKitPIN (\<lambda>i. Some (if i = 9 then 12345678 else 99900003)) = Inr ''999-00-003''"
    unfolding GenerateHomeKitPIN_def
    using pin_attempts.simps(2) [of 9] pin_attempts.simps(2) [of 8] by (simp add: f)
  have c: "GenerateClaimCode (Some [1, 35]) (Some [69, 103]) = Inr ''0123-4567''"
    by code_simp
  show ?thesis
    using generated_codes_valid [of "\<lambda>i. Some (if i = 9 then 12345678 else 99900003)",
        THEN conjunct1, rule_format, OF p]
      generated_codes_valid [THEN conjunct2, rule_format, of 1 35 69 103 "''0123-4567''"] p c
    by simp
qed

text \<open>
  C36: When only the final synchronisation of the directory fails, an update returns an error and keeps the old
  configuration in memory although the new one is already in the file: the next start loads an edit
  that was reported as failed.
\<close>

theorem update_sync_failure_diverges:
  assumes "edit (st_cfg s) = Inr nxt" and "Validate nxt = None"
    and "Entrypoints nxt = Entrypoints (st_cfg s)"
  shows "\<exists>s'. Update marshal (\<lambda>w. w = SyncDirectory) edit s =
                (s', Some (Inr (SaveConfig (StepFailed SyncDirectory)))) \<and>
              st_cfg s' = st_cfg s \<and>
              disk_document (st_disk s') = Some (marshal (to_persisted nxt))"
  using assms
  by (simp add: Update_def Let_def save_def WritePrivateFile_def write_steps_def disk_document_def)

theorem update_sync_failure_diverges_witness:
  "(let s = \<lparr>st_cfg = sample_config, st_disk = \<lparr>target = None, temporary = None\<rparr>\<rparr>;
        edit = (\<lambda>c. Ok (c\<lparr>LogLevel := ''debug''\<rparr>)) :: Config \<Rightarrow> (unit, Config) result;
        s' = fst (Update (\<lambda>p. p) (\<lambda>w. w = SyncDirectory) edit s) in
    st_cfg s' = sample_config \<and>
    disk_document (st_disk s') = Some (to_persisted (sample_config\<lparr>LogLevel := ''debug''\<rparr>)))"
proof -
  let ?s = "\<lparr>st_cfg = sample_config, st_disk = \<lparr>target = None, temporary = None\<rparr>\<rparr> :: persistedConfig Store"
  let ?e = "(\<lambda>c. Ok (c\<lparr>LogLevel := ''debug''\<rparr>)) :: Config \<Rightarrow> (unit, Config) result"
  have v: "Validate (sample_config\<lparr>LogLevel := ''debug''\<rparr>) = None"
    by (simp add: Validate_def sample_config_def trim_samples validPairingState_def validInstanceID_def
        hex_val_0 numeral_eq_Suc)
  show ?thesis
    using update_sync_failure_diverges [of ?e ?s "sample_config\<lparr>LogLevel := ''debug''\<rparr>" "\<lambda>p. p"] v
    by (auto simp: Let_def)
qed

end
