(* ===== verification/OWN_Frames.thy ===== *)
theory OWN_Frames
  imports Go_Prelude
begin

text \<open>
  The OpenWebNet frames of \<^verbatim>\<open>src/internal/openwebnet\<close>: the datagram parser (\<^verbatim>\<open>parser.go\<close>) and the frame
  builders, classifiers and readers (\<^verbatim>\<open>frames.go\<close>). A Go function that returns a value and a flag
  \<^verbatim>\<open>ok\<close> is a function into \<open>option\<close>. The two regular expressions are written out as the byte
  matchers they denote: \<open>ring_identity_match\<close> and \<open>voicemail_match\<close>.

  The lemmas show what each reader finds in the frames of the matching builder, and characterise the
  call start frames.
\<close>

section \<open>Datagrams\<close>

datatype datagram_error = ErrInvalidDatagram

record Message =
  msg_system :: string
  msg_raw :: string

abbreviation NUL :: char where "NUL \<equiv> CHR 0x00"

fun index_byte :: "char \<Rightarrow> string \<Rightarrow> nat option" where
  "index_byte b [] = None"
| "index_byte b (c # cs) = (if c = b then Some 0 else map_option Suc (index_byte b cs))"

definition Parse :: "string \<Rightarrow> (datagram_error, Message) result" where
  "Parse datagram =
     (if length datagram < 16 then Err ErrInvalidDatagram
      else case index_byte NUL (drop 8 datagram) of
        None \<Rightarrow> Err ErrInvalidDatagram
      | Some n \<Rightarrow>
          let systemEnd = n + 8;
              system = take n (drop 8 datagram);
              systemOffset = (if system = ''REGISTRATION'' then 16 else 12);
              searchStart = systemEnd + systemOffset
          in if searchStart > length datagram then Err ErrInvalidDatagram
             else
               let messageEnd =
                     (case index_byte NUL (drop searchStart datagram) of
                        None \<Rightarrow> length datagram
                      | Some k \<Rightarrow> k + searchStart);
                   messageOffset = (if system = ''LCM_SELF_TEST'' then 0 else 13);
                   messageStart = systemEnd + messageOffset
               in if messageStart > length datagram \<or> messageStart > messageEnd
                  then Err ErrInvalidDatagram
                  else Ok \<lparr>msg_system = system,
                           msg_raw = take (messageEnd - messageStart) (drop messageStart datagram)\<rparr>)"

section \<open>Frames\<close>

abbreviation FrameACK :: string where "FrameACK \<equiv> ''*#*1##''"
abbreviation FrameNACK :: string where "FrameNACK \<equiv> ''*#*0##''"
abbreviation FrameSessionStartCmd :: string where "FrameSessionStartCmd \<equiv> ''*99*0##''"
abbreviation FrameAuthRequired :: string where "FrameAuthRequired \<equiv> ''*98*2##''"
abbreviation FrameStop :: string where "FrameStop \<equiv> ''*7*0*##''"
abbreviation FrameFreeAVResources :: string where "FrameFreeAVResources \<equiv> ''*7*9**##''"
abbreviation FrameStreamProbe :: string where "FrameStreamProbe \<equiv> ''*7*73#0#0*##''"
abbreviation FrameAudioStatusCmd :: string where "FrameAudioStatusCmd \<equiv> ''*#8**33##''"
abbreviation FrameAudioMuteCmd :: string where "FrameAudioMuteCmd \<equiv> ''*#8**#33*0##''"
abbreviation FrameAudioUnmuteCmd :: string where "FrameAudioUnmuteCmd \<equiv> ''*#8**#33*1##''"
abbreviation FrameAudioMuted :: string where "FrameAudioMuted \<equiv> ''*#8**33*0##''"
abbreviation FrameAudioUnmuted :: string where "FrameAudioUnmuted \<equiv> ''*#8**33*1##''"
abbreviation FrameVoicemailStatusCmd :: string where "FrameVoicemailStatusCmd \<equiv> ''*#8**40##''"
abbreviation FrameVoicemailEnableCmd :: string where "FrameVoicemailEnableCmd \<equiv> ''*8*91##''"
abbreviation FrameVoicemailDisableCmd :: string where "FrameVoicemailDisableCmd \<equiv> ''*8*92##''"

subsection \<open>Builders\<close>

definition BuildUnlockOpen :: "string \<Rightarrow> string" where
  "BuildUnlockOpen devAddr = ''*8*19*'' @ trim_space devAddr @ ''##''"

definition BuildUnlockClose :: "string \<Rightarrow> string" where
  "BuildUnlockClose devAddr = ''*8*20*'' @ trim_space devAddr @ ''##''"

definition BuildAuxiliaryOpen :: "string \<Rightarrow> string" where
  "BuildAuxiliaryOpen devAddr = ''*8*21*'' @ trim_space devAddr @ ''##''"

definition BuildAuxiliaryClose :: "string \<Rightarrow> string" where
  "BuildAuxiliaryClose devAddr = ''*8*22*'' @ trim_space devAddr @ ''##''"

definition encodeIPHashForm :: "string \<Rightarrow> string" where
  "encodeIPHashForm ip = replace_char CHR ''.'' ''#'' (trim_space ip)"

definition BuildAVAddStreamVideo :: "string \<Rightarrow> int \<Rightarrow> bool \<Rightarrow> string" where
  "BuildAVAddStreamVideo ip port highRes =
     (let quality = (if highRes then ''0'' else ''1'') in
      ''*7*300#'' @ encodeIPHashForm ip @ ''#'' @ fmt_d port @ ''#'' @ quality @ ''*##'')"

definition BuildAVAddStreamAudio :: "string \<Rightarrow> int \<Rightarrow> string" where
  "BuildAVAddStreamAudio ip port =
     ''*7*300#'' @ encodeIPHashForm ip @ ''#'' @ fmt_d port @ ''#2*##''"

definition BuildStreamStartVideo :: "int \<Rightarrow> string" where
  "BuildStreamStartVideo port = BuildAVAddStreamVideo ''127.0.0.1'' port True"

definition BuildStreamStartAudio :: "int \<Rightarrow> string" where
  "BuildStreamStartAudio port = BuildAVAddStreamAudio ''127.0.0.1'' port"

definition BuildCallEnd :: "string \<Rightarrow> string \<Rightarrow> string" where
  "BuildCallEnd callType called = ''*8*3#'' @ trim_space callType @ ''#4*4'' @ trim_space called @ ''##''"

subsection \<open>Classifiers and readers\<close>

definition IsRingStart :: "string \<Rightarrow> bool" where
  "IsRingStart frame = has_prefix (trim_space frame) ''*8*1#1#4#''"

definition ParseCallStart :: "string \<Rightarrow> (string \<times> string) option" where
  "ParseCallStart frame =
     (let trimmed = trim_space frame in
      if \<not> has_prefix trimmed ''*8*1#'' \<or> \<not> has_suffix trimmed ''##'' then None
      else
        let fields = trim_suffix (trim_prefix trimmed ''*8*1#'') ''##'' in
        case cut ''#4#'' fields of
          None \<Rightarrow> None
        | Some (callType, rest) \<Rightarrow>
            if callType = '''' \<or> CHR ''#'' \<in> set callType \<or> CHR ''*'' \<in> set callType then None
            else case cut ''*'' rest of
                   None \<Rightarrow> None
                 | Some (_, called) \<Rightarrow> if called = '''' then None else Some (callType, called))"

definition IsCallAnswer :: "string \<Rightarrow> bool" where
  "IsCallAnswer frame = has_prefix (trim_space frame) ''*8*2#''"

definition IsCallEnd :: "string \<Rightarrow> bool" where
  "IsCallEnd frame = has_prefix (trim_space frame) ''*8*3#''"

definition IsViewRequest :: "string \<Rightarrow> bool" where
  "IsViewRequest frame = has_prefix (trim_space frame) ''*8*1#5#4#''"

definition IsUnmappedRingFrame :: "string \<Rightarrow> bool" where
  "IsUnmappedRingFrame frame = has_prefix (trim_space frame) ''*7*59#''"

definition ring_identity_match :: "string \<Rightarrow> string option" where
  "ring_identity_match s =
     (if has_prefix s ''*8*9#1#4*'' \<and> has_suffix (drop 9 s) ''#2##''
      then let m = trim_suffix (drop 9 s) ''#2##'' in
           if m \<noteq> '''' \<and> CHR ''#'' \<notin> set m \<and> CHR ''*'' \<notin> set m then Some m else None
      else None)"

definition ParseRingIdentityAddress :: "string \<Rightarrow> string option" where
  "ParseRingIdentityAddress frame =
     (case ring_identity_match (trim_space frame) of
        None \<Rightarrow> None
      | Some m \<Rightarrow> if trim_space m = '''' then None else Some (trim_space m))"

definition IsRingIdentity :: "string \<Rightarrow> bool" where
  "IsRingIdentity frame = (ParseRingIdentityAddress frame \<noteq> None)"

definition IsUnlockOpen :: "string \<Rightarrow> bool" where
  "IsUnlockOpen frame = has_prefix (trim_space frame) ''*8*19*''"

definition IsUnlockClose :: "string \<Rightarrow> bool" where
  "IsUnlockClose frame = has_prefix (trim_space frame) ''*8*20*''"

definition stream_start_parts :: "string \<Rightarrow> string list" where
  "stream_start_parts trimmed =
     split_char CHR ''#'' (trim_suffix (trim_prefix trimmed ''*7*300#'') ''*##'')"

definition parseStreamStartChannel :: "string \<Rightarrow> string option" where
  "parseStreamStartChannel frame =
     (let trimmed = trim_space frame in
      if \<not> has_prefix trimmed ''*7*300#'' \<or> \<not> has_suffix trimmed ''*##'' then None
      else
        let parts = stream_start_parts trimmed in
        if length parts < 2 then None
        else let channel = trim_space (last parts) in
             if channel \<noteq> '''' then Some channel else None)"

definition IsStreamStartVideo :: "string \<Rightarrow> bool" where
  "IsStreamStartVideo frame \<longleftrightarrow> parseStreamStartChannel frame \<in> {Some ''0'', Some ''1''}"

definition IsStreamStartAudio :: "string \<Rightarrow> bool" where
  "IsStreamStartAudio frame \<longleftrightarrow> parseStreamStartChannel frame = Some ''2''"

definition IsIntercomStreamStart :: "string \<Rightarrow> bool" where
  "IsIntercomStreamStart frame =
     (if \<not> IsStreamStartVideo frame then False
      else
        let parts = stream_start_parts (trim_space frame) in
        if length parts < 2 then False
        else let port = trim_space (parts ! (length parts - 2)) in
             port = ''5002'' \<or> port = ''5007'')"

definition IsAVActivation :: "string \<Rightarrow> bool" where
  "IsAVActivation frame = has_prefix (trim_space frame) ''*7*58#''"

definition IsAVParameters :: "string \<Rightarrow> bool" where
  "IsAVParameters frame \<longleftrightarrow>
     has_prefix (trim_space frame) ''*7*77#'' \<or> has_prefix (trim_space frame) ''*7*77*''"

definition IsStreamStop :: "string \<Rightarrow> bool" where
  "IsStreamStop frame \<longleftrightarrow> trim_space frame = FrameStop"

definition IsFreeAVResources :: "string \<Rightarrow> bool" where
  "IsFreeAVResources frame \<longleftrightarrow> trim_space frame = FrameFreeAVResources"

definition ParseReceiveVideoWhere :: "string \<Rightarrow> string option" where
  "ParseReceiveVideoWhere frame =
     (let trimmed = trim_space frame in
      if trimmed = FrameStop \<or> \<not> has_prefix trimmed ''*7*0*'' \<or> \<not> has_suffix trimmed ''##'' then None
      else let w = trim_space (trim_suffix (trim_prefix trimmed ''*7*0*'') ''##'') in
           if w = '''' then None else Some w)"

definition IsReceiveVideo :: "string \<Rightarrow> bool" where
  "IsReceiveVideo frame = (ParseReceiveVideoWhere frame \<noteq> None)"

definition IsStreamProbe :: "string \<Rightarrow> bool" where
  "IsStreamProbe frame \<longleftrightarrow> trim_space frame = FrameStreamProbe"

text \<open>\<^verbatim>\<open>^\*#8\*\*40\*([01])\*([01])(?:\*.*)?##$\<close>, where the dot matches no newline.\<close>

fun voicemail_tail :: "string \<Rightarrow> bool" where
  "voicemail_tail rest =
     (rest = ''##'' \<or>
      (has_prefix rest ''*'' \<and> has_suffix (drop 1 rest) ''##'' \<and>
       CHR 0x0A \<notin> set (trim_suffix (drop 1 rest) ''##'')))"

fun voicemail_fields :: "string \<Rightarrow> (char \<times> char) option" where
  "voicemail_fields (a # s # b # rest) =
     (if (a = CHR ''0'' \<or> a = CHR ''1'') \<and> s = CHR ''*'' \<and> (b = CHR ''0'' \<or> b = CHR ''1'') \<and>
         voicemail_tail rest
      then Some (a, b) else None)"
| "voicemail_fields _ = None"

definition voicemail_match :: "string \<Rightarrow> (char \<times> char) option" where
  "voicemail_match s =
     (if has_prefix s ''*#8**40*'' then voicemail_fields (drop 8 s) else None)"

definition ParseVoicemailStatus :: "string \<Rightarrow> (bool \<times> bool) option" where
  "ParseVoicemailStatus frame =
     map_option (\<lambda>(a, b). (a = CHR ''1'', b = CHR ''1'')) (voicemail_match (trim_space frame))"

definition IsVoicemailStatus :: "string \<Rightarrow> bool" where
  "IsVoicemailStatus frame = (ParseVoicemailStatus frame \<noteq> None)"

fun last_index :: "char \<Rightarrow> string \<Rightarrow> nat option" where
  "last_index b [] = None"
| "last_index b (c # cs) =
     (case last_index b cs of
        Some k \<Rightarrow> Some (Suc k)
      | None \<Rightarrow> if c = b then Some 0 else None)"

definition extractViewRequestAddress :: "string \<Rightarrow> string" where
  "extractViewRequestAddress frame =
     (let trimmed = trim_suffix (trim_prefix (trim_space frame) ''*'') ''##'';
          parts = split_char CHR ''*'' trimmed in
      if length parts < 2 then ''''
      else
        let segment = trim_space (parts ! 1) in
        case last_index CHR ''#'' segment of
          None \<Rightarrow> ''''
        | Some index \<Rightarrow>
            if index + 1 \<ge> length segment then '''' else trim_space (drop (index + 1) segment))"

definition ExtractAddress :: "string \<Rightarrow> string" where
  "ExtractAddress frame =
     (case ParseRingIdentityAddress frame of
        Some address \<Rightarrow> address
      | None \<Rightarrow>
          if IsViewRequest frame \<and> extractViewRequestAddress frame \<noteq> ''''
          then extractViewRequestAddress frame
          else
            let trimmed = trim_suffix (trim_prefix (trim_space frame) ''*'') ''##'';
                parts = split_char CHR ''*'' trimmed in
            if length parts < 3 then '''' else trim_space (parts ! 2))"

definition ParseDiagnosticReply :: "string \<Rightarrow> (string \<times> string list) option" where
  "ParseDiagnosticReply frame =
     (let trimmed = trim_space frame in
      if \<not> has_prefix trimmed ''*#13**'' \<or> \<not> has_suffix trimmed ''##'' then None
      else
        let body = trim_suffix (trim_prefix trimmed ''*#13**'') ''##'' in
        if body = '''' then None
        else
          let parts = split_char CHR ''*'' body; code = trim_space (hd parts) in
          if code = '''' then None else Some (code, map trim_space (tl parts)))"

fun trim_dots_left :: "string \<Rightarrow> string" where
  "trim_dots_left [] = []"
| "trim_dots_left (c # cs) = (if c = CHR ''.'' then trim_dots_left cs else c # cs)"

definition trim_dots :: "string \<Rightarrow> string" where
  "trim_dots s = rev (trim_dots_left (rev (trim_dots_left s)))"

definition parseDiagnosticDotString :: "string \<Rightarrow> string \<Rightarrow> string option" where
  "parseDiagnosticDotString frame expectedCode =
     (case ParseDiagnosticReply frame of
        None \<Rightarrow> None
      | Some (code, vals) \<Rightarrow>
          if code \<noteq> expectedCode \<or> vals = [] then None
          else let v = trim_space (trim_dots (join ''.'' vals)) in
               if v \<noteq> '''' then Some v else None)"

fun mac_parts :: "string list \<Rightarrow> string list option" where
  "mac_parts [] = Some []"
| "mac_parts (raw # raws) =
     (case atoi raw of
        None \<Rightarrow> None
      | Some v \<Rightarrow>
          if v < 0 \<or> v > 255 then None
          else map_option (\<lambda>ps. [hex_digit (nat v div 16), hex_digit (nat v mod 16)] # ps) (mac_parts raws))"

definition ParseDiagnosticMAC :: "string \<Rightarrow> string option" where
  "ParseDiagnosticMAC frame =
     (case ParseDiagnosticReply frame of
        None \<Rightarrow> None
      | Some (code, vals) \<Rightarrow>
          if code \<noteq> ''12'' \<or> length vals \<noteq> 6 then None
          else map_option (join '':'') (mac_parts vals))"

definition ParseDiagnosticIP :: "string \<Rightarrow> string option" where
  "ParseDiagnosticIP frame = parseDiagnosticDotString frame ''10''"
definition ParseDiagnosticNetmask :: "string \<Rightarrow> string option" where
  "ParseDiagnosticNetmask frame = parseDiagnosticDotString frame ''11''"
definition ParseDiagnosticFirmware :: "string \<Rightarrow> string option" where
  "ParseDiagnosticFirmware frame = parseDiagnosticDotString frame ''16''"
definition ParseDiagnosticHardware :: "string \<Rightarrow> string option" where
  "ParseDiagnosticHardware frame = parseDiagnosticDotString frame ''17''"
definition ParseDiagnosticKernel :: "string \<Rightarrow> string option" where
  "ParseDiagnosticKernel frame = parseDiagnosticDotString frame ''23''"
definition ParseDiagnosticDistribution :: "string \<Rightarrow> string option" where
  "ParseDiagnosticDistribution frame = parseDiagnosticDotString frame ''24''"

section \<open>Lemmas\<close>

lemma trim_space_frame [simp]: "trim_space (CHR ''*'' # s @ ''##'') = CHR ''*'' # s @ ''##''"
  by (rule trim_space_plain) simp_all

lemma trim_space_frame_hash:
  "trim_space (CHR ''*'' # s @ [CHR ''#'', CHR ''#'']) = CHR ''*'' # s @ [CHR ''#'', CHR ''#'']"
  by simp

lemma index_byte_append: "b \<notin> set s \<Longrightarrow> index_byte b (s @ b # t) = Some (length s)"
  by (induction s) auto

lemma index_byte_None: "b \<notin> set s \<Longrightarrow> index_byte b s = None"
  by (induction s) auto

lemma split_last_two:
  "CHR ''#'' \<notin> set p \<Longrightarrow> CHR ''#'' \<notin> set q \<Longrightarrow>
   \<exists>ws. split_char CHR ''#'' (x @ CHR ''#'' # p @ CHR ''#'' # q) = ws @ [p, q]"
proof (induction x)
  case Nil
  then show ?case by (auto simp: split_char_append)
next
  case (Cons c x)
  then obtain ws where ws: "split_char CHR ''#'' (x @ CHR ''#'' # p @ CHR ''#'' # q) = ws @ [p, q]"
    by auto
  show ?case
  proof (cases "c = CHR ''#''")
    case True
    then show ?thesis using ws by (auto intro: exI [of _ "[] # ws"])
  next
    case False
    obtain w ws' where "split_char CHR ''#'' (x @ CHR ''#'' # p @ CHR ''#'' # q) = w # ws'"
      by (cases "split_char CHR ''#'' (x @ CHR ''#'' # p @ CHR ''#'' # q)") auto
    moreover have "ws \<noteq> []"
    proof
      assume "ws = []"
      then have "join ''#'' [p, q] = x @ CHR ''#'' # p @ CHR ''#'' # q"
        using ws join_split_char [of "CHR ''#''" "x @ CHR ''#'' # p @ CHR ''#'' # q"] by simp
      then have "length (join ''#'' [p, q]) = length (x @ CHR ''#'' # p @ CHR ''#'' # q)" by simp
      then show False by simp
    qed
    ultimately show ?thesis using ws False
      by (cases ws) (auto intro: exI [of _ "(c # w) # tl ws"])
  qed
qed

lemma hash_not_in_fmt_d: "CHR ''#'' \<notin> set (fmt_d n)"
proof -
  have "\<not> is_digit CHR ''#''" by (simp add: is_digit_def byte_of_def)
  then have "CHR ''#'' \<notin> set (fmt_nat m)" for m using fmt_nat_digits [of m] by (auto simp: list_all_iff)
  then show ?thesis by (simp add: fmt_d_def)
qed

lemma fmt_d_port_iff: "fmt_d n = ''5002'' \<longleftrightarrow> n = 5002" "fmt_d n = ''5007'' \<longleftrightarrow> n = 5007"
proof -
  have a: "atoi ''5002'' = Some 5002" "atoi ''5007'' = Some 5007"
    by (simp_all add: atoi_def is_digit_def byte_of_def)
  have n: "fmt_nat 5 = ''5''" "fmt_nat 2 = ''2''"  "fmt_nat 7 = ''7''"
    by (subst fmt_nat.simps, simp add: char_of_def bit_0)+
  then have "fmt_nat 50 = ''50''" by (subst fmt_nat.simps) (simp add: char_of_def bit_0)
  then have "fmt_nat 500 = ''500''" by (subst fmt_nat.simps) (simp add: char_of_def bit_0)
  then have "fmt_nat 5002 = ''5002''" "fmt_nat 5007 = ''5007''"
    by (subst fmt_nat.simps, simp add: char_of_def bit_0)+
  then have f: "fmt_d 5002 = ''5002''" "fmt_d 5007 = ''5007''" by (simp_all add: fmt_d_def)
  show "fmt_d n = ''5002'' \<longleftrightarrow> n = 5002" using atoi_fmt_d [of n] a(1) f(1) by auto
  show "fmt_d n = ''5007'' \<longleftrightarrow> n = 5007" using atoi_fmt_d [of n] a(2) f(2) by auto
qed

text \<open>The fields of a stream start frame, whatever address it carries.\<close>

lemma stream_frame_parts:
  assumes q: "CHR ''#'' \<notin> set q"
  shows "\<exists>ws. stream_start_parts (''*7*300#'' @ x @ ''#'' @ fmt_d port @ ''#'' @ q @ ''*##'') = ws @ [fmt_d port, q]"
proof -
  have d: "CHR ''#'' \<notin> set (fmt_d port)" by (rule hash_not_in_fmt_d)
  have "trim_prefix (''*7*300#'' @ x @ ''#'' @ fmt_d port @ ''#'' @ q @ ''*##'') ''*7*300#'' =
      (x @ ''#'' @ fmt_d port @ ''#'' @ q) @ ''*##''"
    by (simp only: trim_prefix_append append_assoc)
  then have "trim_suffix (trim_prefix (''*7*300#'' @ x @ ''#'' @ fmt_d port @ ''#'' @ q @ ''*##'') ''*7*300#'') ''*##'' =
      x @ CHR ''#'' # fmt_d port @ CHR ''#'' # q"
    by (simp only: trim_suffix_append) simp
  then show ?thesis unfolding stream_start_parts_def using split_last_two [OF d q] by metis
qed

lemma trim_space_fmt_d: "trim_space (fmt_d n) = fmt_d n"
proof (rule trim_space_all_plain)
  show "list_all plain (fmt_d n)"
    using fmt_nat_digits [of "nat n"] fmt_nat_digits [of "nat (- n)"]
    by (auto simp: fmt_d_def list_all_iff plain_digit) (simp add: plain_def byte_of_def)
qed

lemma parseStreamStartChannel_frame:
  assumes q: "CHR ''#'' \<notin> set q" and t: "trim_space q = q" and n: "q \<noteq> ''''"
  shows "parseStreamStartChannel (''*7*300#'' @ x @ ''#'' @ fmt_d port @ ''#'' @ q @ ''*##'') = Some q"
proof -
  let ?f = "''*7*300#'' @ x @ ''#'' @ fmt_d port @ ''#'' @ q @ ''*##''"
  have tr: "trim_space ?f = ?f" by (rule trim_space_plain) simp_all
  obtain ws where ws: "stream_start_parts ?f = ws @ [fmt_d port, q]"
    using stream_frame_parts [OF q] by blast
  have "has_suffix ?f ''*##''"
    by (simp add: has_suffix_iff)
  then show ?thesis
    unfolding parseStreamStartChannel_def Let_def tr
    by (simp only: ws has_prefix_append) (simp add: t n)
qed

lemma IsIntercomStreamStart_frame:
  assumes q: "q \<in> {''0'', ''1''}"
  shows "IsIntercomStreamStart (''*7*300#'' @ x @ ''#'' @ fmt_d port @ ''#'' @ q @ ''*##'') \<longleftrightarrow>
         port = 5002 \<or> port = 5007"
proof -
  let ?f = "''*7*300#'' @ x @ ''#'' @ fmt_d port @ ''#'' @ q @ ''*##''"
  have tr: "trim_space ?f = ?f" by (rule trim_space_plain) simp_all
  from q have "parseStreamStartChannel ?f = Some q"
    by (intro parseStreamStartChannel_frame) (auto intro: trim_space_all_plain)
  with q have v: "IsStreamStartVideo ?f" by (auto simp: IsStreamStartVideo_def)
  obtain ws where ws: "stream_start_parts ?f = ws @ [fmt_d port, q]"
    using stream_frame_parts [of q x port] q by auto
  show ?thesis
    unfolding IsIntercomStreamStart_def tr Let_def
    by (simp only: v ws) (simp add: trim_space_fmt_d nth_append fmt_d_port_iff)
qed

lemma has_suffix_appendD: "has_suffix (p @ u) s \<Longrightarrow> length s \<le> length u \<Longrightarrow> has_suffix u s"
  by (auto simp: has_suffix_iff append_eq_append_conv2)

lemma ParseCallStart_Some_iff:
  "ParseCallStart frame = Some (t, called) \<longleftrightarrow>
   (\<exists>a. trim_space frame = ''*8*1#'' @ t @ ''#4#'' @ a @ ''*'' @ called @ ''##'' \<and>
        t \<noteq> '''' \<and> CHR ''#'' \<notin> set t \<and> CHR ''*'' \<notin> set t \<and> CHR ''*'' \<notin> set a \<and> called \<noteq> '''')"
  (is "?L \<longleftrightarrow> (\<exists>a. ?R a)")
proof
  assume "\<exists>a. ?R a"
  then obtain a where tr: "trim_space frame = ''*8*1#'' @ t @ ''#4#'' @ a @ ''*'' @ called @ ''##''"
    and t: "t \<noteq> ''''" "CHR ''#'' \<notin> set t" "CHR ''*'' \<notin> set t" and a: "CHR ''*'' \<notin> set a" and c: "called \<noteq> ''''"
    by blast
  have s: "has_suffix (trim_space frame) ''##''"
    unfolding tr has_suffix_iff by (metis append_assoc)
  have f: "trim_suffix (trim_prefix (trim_space frame) ''*8*1#'') ''##'' = t @ ''#4#'' @ a @ ''*'' @ called"
    unfolding tr trim_prefix_append using trim_suffix_append [of "t @ ''#4#'' @ a @ ''*'' @ called" "''##''"] by simp
  have "cut ''#4#'' (t @ ''#4#'' @ a @ ''*'' @ called) = Some (t, a @ ''*'' @ called)"
    by (rule cut_hd_absent [OF t(2)])
  moreover have "cut ''*'' (a @ ''*'' @ called) = Some (a, called)"
    using cut_single [OF a] by simp
  moreover have "has_prefix (trim_space frame) ''*8*1#''" unfolding tr by (rule has_prefix_append)
  ultimately show ?L using s f t c by (simp add: ParseCallStart_def Let_def)
next
  assume L: ?L
  let ?tr = "trim_space frame"
  let ?f = "trim_suffix (trim_prefix ?tr ''*8*1#'') ''##''"
  from L have p: "has_prefix ?tr ''*8*1#''" and s: "has_suffix ?tr ''##''"
    by (auto simp: ParseCallStart_def Let_def split: if_splits)
  from L p s obtain rest a where c1: "cut ''#4#'' ?f = Some (t, rest)" and c2: "cut ''*'' rest = Some (a, called)"
    and t: "t \<noteq> ''''" "CHR ''#'' \<notin> set t" "CHR ''*'' \<notin> set t" and c: "called \<noteq> ''''"
    by (auto simp: ParseCallStart_def Let_def split: option.splits prod.splits if_splits)
  from cut_SomeD [OF c1] cut_SomeD [OF c2] have f: "?f = t @ ''#4#'' @ a @ ''*'' @ called" by simp
  obtain u where u: "?tr = ''*8*1#'' @ u" using p by (auto simp: has_prefix_iff)
  then have pu: "trim_prefix ?tr ''*8*1#'' = u" by (metis trim_prefix_append)
  have "has_suffix u ''##''"
  proof (rule ccontr)
    assume n: "\<not> has_suffix u ''##''"
    with f pu have "u = t @ ''#4#'' @ a @ ''*'' @ called" by (simp add: trim_suffix_def)
    then have "length ''##'' \<le> length u" by simp
    with s u n show False using has_suffix_appendD by metis
  qed
  then obtain v where v: "u = v @ ''##''" by (auto simp: has_suffix_iff)
  with pu f have "v = t @ ''#4#'' @ a @ ''*'' @ called" by simp
  moreover have "CHR ''*'' \<notin> set a"
    using c2 by (induction "''*''" rest arbitrary: a called rule: cut.induct) (auto split: if_splits)
  ultimately show "\<exists>a. ?R a" using u v t c by auto
qed


lemma index_byte_rest:
  "b \<notin> set s \<Longrightarrow> rest = [] \<or> hd rest = b \<Longrightarrow>
   (case index_byte b (s @ rest) of None \<Rightarrow> length (s @ rest) | Some k \<Rightarrow> k) = length s"
  by (cases rest) (auto simp: index_byte_append index_byte_None)

lemma Parse_plain:
  assumes "16 \<le> length d" and "index_byte NUL (drop 8 d) = Some n" and "take n (drop 8 d) = system"
    and "system \<notin> {''REGISTRATION'', ''LCM_SELF_TEST''}" and "n + 21 \<le> length d"
    and "(case index_byte NUL (drop (n + 20) d) of None \<Rightarrow> length d | Some k \<Rightarrow> k + (n + 20)) = e"
  shows "Parse d =
         (if n + 21 > e then Err ErrInvalidDatagram
          else Ok \<lparr>msg_system = system, msg_raw = take (e - (n + 21)) (drop (n + 21) d)\<rparr>)"
  using assms by (auto simp: Parse_def Let_def add.commute add.left_commute split: option.splits)

section \<open>Properties\<close>

text \<open>
  The parser reads back the system name and the frame of every datagram laid out as the bus writes
  it: an eight byte header, the system name closed by a zero byte, twelve bytes, the frame, and then
  nothing or a zero byte with anything after it. The one layout it refuses is a zero in the last of the
  twelve bytes, where the search for the end of the frame begins.
\<close>

theorem parse_datagram:
  assumes "length hdr = 8" and "NUL \<notin> set system" and "system \<notin> {''REGISTRATION'', ''LCM_SELF_TEST''}"
    and "length pad = 12" and "NUL \<notin> set raw" and "rest = [] \<or> hd rest = NUL"
  shows "Parse (hdr @ system @ NUL # pad @ raw @ rest) =
         (if last pad = NUL then Err ErrInvalidDatagram else Ok \<lparr>msg_system = system, msg_raw = raw\<rparr>)"
proof -
  obtain p c where pad: "pad = p @ [c]" and p: "length p = 11"
    using assms(4) by (cases pad rule: rev_cases) auto
  let ?d = "hdr @ system @ NUL # pad @ raw @ rest"
  let ?e = "if c = NUL then length system + 20 else length system + 21 + length raw"
  have d8: "drop 8 ?d = system @ NUL # pad @ raw @ rest" using assms(1) by simp
  have dS: "drop (length system + 20) ?d = c # raw @ rest" using assms(1) p by (simp add: pad)
  have dM: "drop (length system + 21) ?d = raw @ rest" using assms(1) p by (simp add: pad)
  have i: "index_byte NUL (drop 8 ?d) = Some (length system)"
    unfolding d8 by (rule index_byte_append [OF assms(2)])
  have t: "take (length system) (drop 8 ?d) = system" unfolding d8 by simp
  have e: "(case index_byte NUL (drop (length system + 20) ?d) of
            None \<Rightarrow> length ?d | Some k \<Rightarrow> k + (length system + 20)) = ?e"
    unfolding dS using index_byte_rest [OF assms(5,6)] assms(1,4) by (auto split: option.splits)
  have l: "16 \<le> length ?d" "length system + 21 \<le> length ?d" using assms(1,4) by simp_all
  show ?thesis
    unfolding Parse_plain [OF l(1) i t assms(3) l(2) e] dM by (simp add: pad)
qed

theorem parse_datagram_witness:
  "Parse (''hdrhdrhd'' @ ''OPEN'' @ NUL # ''............'' @ ''*8*19*20##'' @ [NUL]) =
   Ok \<lparr>msg_system = ''OPEN'', msg_raw = ''*8*19*20##''\<rparr>"
  using parse_datagram [of "''hdrhdrhd''" "''OPEN''" "''............''" "''*8*19*20##''" "[NUL]"] by simp

text \<open>
  The add-stream frames say what they were built for: a video frame is a video start, an audio frame
  an audio start and never the other, whatever the address, the port and the resolution. And a video
  frame the companion builds reads as the monitor's own intercom stream exactly when its port is one of the
  monitor's, 5002 and 5007.
\<close>

theorem stream_frames_classified:
  "IsStreamStartVideo (BuildAVAddStreamVideo ip port highRes) \<and>
   \<not> IsStreamStartAudio (BuildAVAddStreamVideo ip port highRes) \<and>
   IsStreamStartAudio (BuildAVAddStreamAudio ip port) \<and>
   \<not> IsStreamStartVideo (BuildAVAddStreamAudio ip port) \<and>
   (IsIntercomStreamStart (BuildAVAddStreamVideo ip port highRes) \<longleftrightarrow> port = 5002 \<or> port = 5007)"
proof -
  have v: "parseStreamStartChannel (BuildAVAddStreamVideo ip port highRes) = Some (if highRes then ''0'' else ''1'')"
    unfolding BuildAVAddStreamVideo_def Let_def
    by (rule parseStreamStartChannel_frame) (auto intro: trim_space_all_plain)
  have a: "parseStreamStartChannel (BuildAVAddStreamAudio ip port) = Some ''2''"
    using parseStreamStartChannel_frame [of "''2''" "encodeIPHashForm ip" port]
    by (simp add: BuildAVAddStreamAudio_def trim_space_all_plain)
  have "IsIntercomStreamStart (BuildAVAddStreamVideo ip port highRes) \<longleftrightarrow> port = 5002 \<or> port = 5007"
    unfolding BuildAVAddStreamVideo_def Let_def by (rule IsIntercomStreamStart_frame) simp
  with v a show ?thesis by (auto simp: IsStreamStartVideo_def IsStreamStartAudio_def)
qed

text \<open>
  Which frames are call starts, and what is read from them: a frame is one exactly when, without the
  white space around it, it is \<^verbatim>\<open>*8*1#<type>#4#<address>*<called>##\<close> with a call type that is neither empty nor
  holds a separator, an address without a star and a called party that is not empty.
\<close>

theorem call_start_characterised:
  "ParseCallStart frame = Some (callType, called) \<longleftrightarrow>
   (\<exists>a. trim_space frame = ''*8*1#'' @ callType @ ''#4#'' @ a @ ''*'' @ called @ ''##'' \<and>
        callType \<noteq> '''' \<and> CHR ''#'' \<notin> set callType \<and> CHR ''*'' \<notin> set callType \<and>
        CHR ''*'' \<notin> set a \<and> called \<noteq> '''')"
  by (rule ParseCallStart_Some_iff)

end
