(* ===== verification/Event_Source.thy ===== *)
theory Event_Source
  imports Core_State
begin

text \<open>
  The contract between the projector and the components that publish events to it: the OpenWebNet
  mapper, the signaling manager and the stream state observer of the application.

  A source is a step function from its state and an input to its new state and the events it
  publishes. The locale \<open>projector_source\<close> states what a source promises: at most one event per step,
  and as long as its relation with the projector's state holds the events are accepted and keep the
  relation, which no event can break but those of the kinds only this source publishes. The lemma proved once in
  the locale is about the delivery the application really has: events wait in a queue, and between the
  step that commits one and its delivery other steps of the source and any events of the other
  sources run. Every event of the source is accepted all the same.
\<close>

section \<open>Runs\<close>

datatype 'i act = Own 'i | Foreign event | Deliver

record 'm delivery =
  dl_source :: 'm
  dl_queue :: "event list"
  dl_projector :: State

definition is_Ok :: "('e, 'a) result \<Rightarrow> bool" where
  "is_Ok r = (case r of Inl _ \<Rightarrow> False | Inr _ \<Rightarrow> True)"

fun source_act ::
  "('m \<Rightarrow> 'i \<Rightarrow> 'm \<times> event list) \<Rightarrow> 'i act \<Rightarrow> 'm delivery \<Rightarrow> 'm delivery \<times> bool" where
  "source_act step (Own i) c =
     (case step (dl_source c) i of
        (m', es) \<Rightarrow> (c\<lparr>dl_source := m', dl_queue := dl_queue c @ es\<rparr>, True))"
| "source_act step (Foreign e) c =
     (c\<lparr>dl_projector := fst (Projector_Apply (dl_projector c) e)\<rparr>, True)"
| "source_act step Deliver c =
     (case dl_queue c of
        [] \<Rightarrow> (c, True)
      | e # q \<Rightarrow>
          (case Projector_Apply (dl_projector c) e of
             (p', r) \<Rightarrow> (c\<lparr>dl_queue := q, dl_projector := p'\<rparr>, is_Ok r)))"

text \<open>The configuration after a run, and whether the projector accepted every event delivered in it.\<close>

fun source_run ::
  "('m \<Rightarrow> 'i \<Rightarrow> 'm \<times> event list) \<Rightarrow> 'i act list \<Rightarrow> 'm delivery \<Rightarrow> 'm delivery \<times> bool" where
  "source_run step [] c = (c, True)"
| "source_run step (a # as) c =
     (case source_act step a c of
        (c', ok) \<Rightarrow> (case source_run step as c' of (d, oks) \<Rightarrow> (d, ok \<and> oks)))"

fun emits :: "('m \<Rightarrow> 'i \<Rightarrow> 'm \<times> event list) \<Rightarrow> 'm \<Rightarrow> 'i list \<Rightarrow> 'm \<times> event list" where
  "emits step m [] = (m, [])"
| "emits step m (i # is) =
     (case step m i of (m', es) \<Rightarrow> (case emits step m' is of (m'', fs) \<Rightarrow> (m'', es @ fs)))"

fun act_ok :: "('i \<Rightarrow> bool) \<Rightarrow> (event \<Rightarrow> bool) \<Rightarrow> 'i act \<Rightarrow> bool" where
  "act_ok input own (Own i) = input i"
| "act_ok input own (Foreign e) = (\<not> own e)"
| "act_ok input own Deliver = True"

lemma emits_snoc:
  "emits step m (is @ [i]) =
     (case emits step m is of (m', es) \<Rightarrow> (case step m' i of (m'', fs) \<Rightarrow> (m'', es @ fs)))"
  by (induction "is" arbitrary: m) (auto split: prod.splits)

section \<open>The contract\<close>

locale projector_source =
  fixes src_step :: "'m \<Rightarrow> 'i \<Rightarrow> 'm \<times> event list"
    and src_input :: "'i \<Rightarrow> bool"
    and src_own :: "event \<Rightarrow> bool"
    and src_rel :: "'m \<Rightarrow> State \<Rightarrow> bool"
  assumes src_single: "src_input i \<Longrightarrow> src_step m i = (m', es) \<Longrightarrow> es = [] \<or> (\<exists>e. es = [e])"
    and src_accepted:
      "src_rel m p \<Longrightarrow> src_input i \<Longrightarrow> src_step m i = (m', es) \<Longrightarrow>
       accepted p es \<and> src_rel m' (project p es)"
    and src_foreign: "src_rel m p \<Longrightarrow> \<not> src_own e \<Longrightarrow> src_rel m (fst (Projector_Apply p e))"
begin

lemma silent: "src_rel m p \<Longrightarrow> src_input i \<Longrightarrow> src_step m i = (m', []) \<Longrightarrow> src_rel m' p"
  using src_accepted [of m p i m' "[]"] by simp

lemma deliver_first:
  "src_rel m p \<Longrightarrow> list_all src_input is \<Longrightarrow> emits src_step m is = (m', e # q) \<Longrightarrow>
   is_Ok (snd (Projector_Apply p e)) \<and>
   (\<exists>n js. src_rel n (fst (Projector_Apply p e)) \<and> list_all src_input js \<and> emits src_step n js = (m', q))"
proof (induction "is" arbitrary: m)
  case Nil
  then show ?case by simp
next
  case (Cons i "is")
  obtain m1 es where s: "src_step m i = (m1, es)" by (cases "src_step m i")
  from Cons.prems s obtain q' where q': "emits src_step m1 is = (m', q')" "e # q = es @ q'"
    by (auto split: prod.splits)
  from Cons.prems(2) have "src_input i" by simp
  from src_single [OF this s] show ?case
  proof
    assume "es = []"
    with Cons s q' show ?thesis using silent [of m p i m1] by auto
  next
    assume "\<exists>f. es = [f]"
    with q' have es: "es = [e]" "q' = q" by auto
    from src_accepted [OF Cons.prems(1) _ s] Cons.prems(2) es
    have "accepted p [e]" "src_rel m1 (project p [e])" by auto
    with q' es Cons.prems(2) show ?thesis
      by (auto simp: is_Ok_def split: prod.splits sum.splits)
  qed
qed

lemma emits_silent:
  "src_rel m p \<Longrightarrow> list_all src_input is \<Longrightarrow> emits src_step m is = (m', []) \<Longrightarrow> src_rel m' p"
  by (induction "is" arbitrary: m) (auto split: prod.splits intro: silent)

lemma run_invariant:
  "\<exists>m is. src_rel m (dl_projector c) \<and> list_all src_input is \<and>
          emits src_step m is = (dl_source c, dl_queue c) \<Longrightarrow>
   list_all (act_ok src_input src_own) as \<Longrightarrow> source_run src_step as c = (d, ok) \<Longrightarrow>
   ok \<and> (\<exists>m is. src_rel m (dl_projector d) \<and> list_all src_input is \<and>
                emits src_step m is = (dl_source d, dl_queue d))"
proof (induction as arbitrary: c ok)
  case Nil
  then show ?case by auto
next
  case (Cons a as)
  obtain c' ok' where s: "source_act src_step a c = (c', ok')" by (cases "source_act src_step a c")
  from Cons.prems(1) obtain m "is" where inv: "src_rel m (dl_projector c)" "list_all src_input is"
    "emits src_step m is = (dl_source c, dl_queue c)" by blast
  have "ok' \<and> (\<exists>m is. src_rel m (dl_projector c') \<and> list_all src_input is \<and>
                     emits src_step m is = (dl_source c', dl_queue c'))"
  proof (cases a)
    case (Own i)
    have "list_all src_input (is @ [i])" using inv(2) Cons.prems(2) Own by simp
    moreover have "emits src_step m (is @ [i]) = (dl_source c', dl_queue c')"
      using s Own by (auto simp: emits_snoc inv(3) split: prod.splits)
    moreover have "ok'" "dl_projector c' = dl_projector c" using s Own by (auto split: prod.splits)
    ultimately show ?thesis using inv(1) by metis
  next
    case (Foreign e)
    then have "src_rel m (dl_projector c')" "dl_source c' = dl_source c" "dl_queue c' = dl_queue c" "ok'"
      using s Cons.prems(2) src_foreign [OF inv(1)] by auto
    then show ?thesis using inv(2,3) by metis
  next
    case Deliver
    show ?thesis
    proof (cases "dl_queue c")
      case Nil
      then show ?thesis using s inv Deliver by auto
    next
      case (Cons e q)
      with deliver_first [OF inv(1,2)] inv(3) s Deliver show ?thesis
        by (fastforce split: prod.splits)
    qed
  qed
  then have inv': "\<exists>m is. src_rel m (dl_projector c') \<and> list_all src_input is \<and>
                     emits src_step m is = (dl_source c', dl_queue c')" and "ok'"
    by simp_all
  from Cons.prems(3) s obtain ok'' where ok'': "source_run src_step as c' = (d, ok'')" "ok = (ok' \<and> ok'')"
    by (auto split: prod.splits)
  have "list_all (act_ok src_input src_own) as" using Cons.prems(2) by simp
  from Cons.IH [OF inv' this ok''(1)] \<open>ok'\<close> ok''(2) show ?case by simp
qed

text \<open>
  From a related pair with an empty queue: every delivered event is accepted, and whenever the queue
  is empty again the relation holds again.
\<close>

lemma run_accepted:
  assumes "src_rel m p" and "list_all (act_ok src_input src_own) as"
    and "source_run src_step as \<lparr>dl_source = m, dl_queue = [], dl_projector = p\<rparr> = (d, ok)"
  shows "ok" and "dl_queue d = [] \<Longrightarrow> src_rel (dl_source d) (dl_projector d)"
proof -
  let ?c = "\<lparr>dl_source = m, dl_queue = [], dl_projector = p\<rparr>"
  have "\<exists>m is. src_rel m (dl_projector ?c) \<and> list_all src_input is \<and>
               emits src_step m is = (dl_source ?c, dl_queue ?c)"
    using assms(1) by (intro exI [of _ m] exI [of _ "[]"]) simp
  from run_invariant [OF this assms(2,3)]
  show "ok" and "dl_queue d = [] \<Longrightarrow> src_rel (dl_source d) (dl_projector d)"
    using emits_silent by auto
qed

end

end
