(* ===== verification/OWN_Mapper.thy ===== *)
theory OWN_Mapper
  imports OWN_Frames Config_Model Event_Source
begin

text \<open>
  The mapper of \<^verbatim>\<open>src/internal/openwebnet/mapper.go\<close>, which turns the frames of the bus into
  projector events and correlates the start and the stop of a ring.

  The two Go maps are association lists with distinct keys; the clock the code reads once per message
  is the argument \<open>now\<close>. The lemmas give the invariant of the mapper's state, that it is a
  \<open>projector_source\<close>, the 300 ms duplicate filter and the stale stop window.
\<close>

section \<open>State\<close>

definition stopBurstBeforeRing :: duration where "stopBurstBeforeRing = second"
definition staleStopWindow :: duration where "staleStopWindow = 1500 * millisecond"
definition duplicateWindow :: duration where "duplicateWindow = 300 * millisecond"

record Mapper =
  mp_entrypoints :: "(string \<times> EntrypointID) list"
  recentFrames :: "(string \<times> time) list"
  activeEntrypoint :: EntrypointID
  mp_doorbell :: EntrypointID
  lastStop :: time
  ignoreStopsUntil :: time

fun entrypoint_index :: "Entrypoint list \<Rightarrow> (string \<times> EntrypointID) list \<Rightarrow> (string \<times> EntrypointID) list" where
  "entrypoint_index [] acc = acc"
| "entrypoint_index (e # es) acc = entrypoint_index es (AList.update (DevAddr e) (ep_id e) acc)"

definition NewMapper :: "Entrypoint list \<Rightarrow> Mapper" where
  "NewMapper es =
     \<lparr>mp_entrypoints = entrypoint_index es [], recentFrames = [], activeEntrypoint = '''',
      mp_doorbell = (case DoorbellEntrypoint es of Some d \<Rightarrow> ep_id d | None \<Rightarrow> ''''),
      lastStop = 0, ignoreStopsUntil = 0\<rparr>"

section \<open>Operations\<close>

definition is_recent :: "time \<Rightarrow> time \<Rightarrow> bool" where
  "is_recent now seen \<longleftrightarrow> time_sub now seen \<le> duplicateWindow"

definition duplicate :: "Mapper \<Rightarrow> string \<Rightarrow> time \<Rightarrow> Mapper \<times> bool" where
  "duplicate m raw now =
     (let recent = filter (\<lambda>(frame, seen). is_recent now seen) (recentFrames m) in
      (m\<lparr>recentFrames := AList.update raw now recent\<rparr>,
       case map_of recent raw of Some seen \<Rightarrow> is_recent now seen | None \<Rightarrow> False))"

definition lookup_entrypoint :: "Mapper \<Rightarrow> string \<Rightarrow> EntrypointID" where
  "lookup_entrypoint m address = (case map_of (mp_entrypoints m) address of Some i \<Rightarrow> i | None \<Rightarrow> '''')"

definition resolveEntrypoint :: "Mapper \<Rightarrow> string \<Rightarrow> EntrypointID" where
  "resolveEntrypoint m frame =
     (if mp_doorbell m \<noteq> '''' then mp_doorbell m
      else if lookup_entrypoint m (ExtractAddress frame) \<noteq> ''''
        then lookup_entrypoint m (ExtractAddress frame)
      else if lookup_entrypoint m (extractViewRequestAddress frame) \<noteq> ''''
        then lookup_entrypoint m (extractViewRequestAddress frame)
      else case mp_entrypoints m of [(_, i)] \<Rightarrow> i | _ \<Rightarrow> '''')"

definition is_stop_frame :: "string \<Rightarrow> bool" where
  "is_stop_frame raw \<longleftrightarrow> IsStreamStop raw \<or> IsFreeAVResources raw"

text \<open>\<open>Map\<close> from the ring start test on: what a frame that is not a duplicate does.\<close>

definition map_frame :: "Mapper \<Rightarrow> time \<Rightarrow> string \<Rightarrow> Mapper \<times> event list" where
  "map_frame m now raw =
     (if IsRingStart raw then
        (if activeEntrypoint m \<noteq> '''' then (m, [])
         else
           let i = resolveEntrypoint m raw in
           if i = '''' then (m, [])
           else
             let m = m\<lparr>activeEntrypoint := i\<rparr>;
                 m = (if \<not> is_zero_time (lastStop m) \<and> time_sub now (lastStop m) \<le> stopBurstBeforeRing
                      then m\<lparr>ignoreStopsUntil := now + staleStopWindow\<rparr> else m)
             in (m, [RingStarted i]))
      else if raw = FrameAudioMuted then (m, [AudioMuted])
      else if raw = FrameAudioUnmuted then (m, [AudioUnmuted])
      else case ParseVoicemailStatus raw of
        Some (enabled, _) \<Rightarrow> (m, [if enabled then VoicemailEnabled else VoicemailDisabled])
      | None \<Rightarrow>
          if is_stop_frame raw then
            (if activeEntrypoint m = '''' \<or> now < ignoreStopsUntil m then (m, [])
             else (m\<lparr>activeEntrypoint := ''''\<rparr>, [RingCleared (activeEntrypoint m)]))
          else (m, []))"

definition Mapper_Map :: "Mapper \<Rightarrow> time \<Rightarrow> Message \<Rightarrow> Mapper \<times> event list" where
  "Mapper_Map m now message =
     (let system = to_lower (trim_space (msg_system message)) in
      if system \<noteq> ''open'' \<and> system \<noteq> ''aswm'' then (m, [])
      else
        let raw = trim_space (msg_raw message) in
        if raw = '''' then (m, [])
        else
          let m = (if is_stop_frame raw then m\<lparr>lastStop := now\<rparr> else m) in
          case duplicate m raw now of
            (m, dup) \<Rightarrow> if dup then (m, []) else map_frame m now raw)"

fun mapper_run :: "Mapper \<Rightarrow> (time \<times> Message) list \<Rightarrow> Mapper \<times> event list" where
  "mapper_run m [] = (m, [])"
| "mapper_run m ((now, message) # ms) =
     (case Mapper_Map m now message of
        (m', es) \<Rightarrow> (case mapper_run m' ms of (m'', fs) \<Rightarrow> (m'', es @ fs)))"

section \<open>The mapper as a source of the projector\<close>

definition mapper_rel :: "Mapper \<Rightarrow> State \<Rightarrow> bool" where
  "mapper_rel m p \<longleftrightarrow>
     physical_ring p = None \<or> (physical_ring p = Some (activeEntrypoint m) \<and> activeEntrypoint m \<noteq> '''')"

fun ring_event :: "event \<Rightarrow> bool" where
  "ring_event (RingStarted _) = True"
| "ring_event (RingCleared _) = True"
| "ring_event _ = False"

definition mapper_step :: "Mapper \<Rightarrow> time \<times> Message \<Rightarrow> Mapper \<times> event list" where
  "mapper_step m i = Mapper_Map m (fst i) (snd i)"

named_theorems mapper_simps

lemma duplicate_fields [mapper_simps]:
  assumes "duplicate m raw now = (m', d)"
  shows "mp_entrypoints m' = mp_entrypoints m" "activeEntrypoint m' = activeEntrypoint m"
    "mp_doorbell m' = mp_doorbell m" "lastStop m' = lastStop m" "ignoreStopsUntil m' = ignoreStopsUntil m"
  using assms by (auto simp: duplicate_def Let_def)

lemma map_frame_recent [mapper_simps]:
  "map_frame m now raw = (m', es) \<Longrightarrow> recentFrames m' = recentFrames m"
  by (auto simp: map_frame_def Let_def split: if_splits option.splits)

text \<open>What one message can do to the correlation of rings, with the duplicate filter left aside.\<close>

lemma map_frame_cases:
  assumes "map_frame m now raw = (m', es)"
  obtains (quiet) "activeEntrypoint m' = activeEntrypoint m" "ignoreStopsUntil m' = ignoreStopsUntil m"
      "es = [] \<or> es = [AudioMuted] \<or> es = [AudioUnmuted] \<or> es = [VoicemailEnabled] \<or> es = [VoicemailDisabled]"
  | (start) i where "IsRingStart raw" "activeEntrypoint m = ''''" "i = resolveEntrypoint m raw" "i \<noteq> ''''"
      "activeEntrypoint m' = i" "es = [RingStarted i]"
      "ignoreStopsUntil m' = (if \<not> is_zero_time (lastStop m) \<and> time_sub now (lastStop m) \<le> stopBurstBeforeRing
                              then now + staleStopWindow else ignoreStopsUntil m)"
  | (clear) "is_stop_frame raw" "activeEntrypoint m \<noteq> ''''" "ignoreStopsUntil m \<le> now"
      "activeEntrypoint m' = ''''" "ignoreStopsUntil m' = ignoreStopsUntil m"
      "es = [RingCleared (activeEntrypoint m)]"
proof (cases "IsRingStart raw")
  case True
  let ?i = "resolveEntrypoint m raw"
  show ?thesis
  proof (cases "activeEntrypoint m \<noteq> '''' \<or> ?i = ''''")
    case silent: True
    with True assms have "m' = m" "es = []" by (auto simp: map_frame_def Let_def split: if_splits)
    then show ?thesis using quiet by simp
  next
    case False
    let ?n = "m\<lparr>activeEntrypoint := ?i\<rparr>"
    from False True assms have m': "es = [RingStarted ?i]"
      "m' = (if \<not> is_zero_time (lastStop ?n) \<and> time_sub now (lastStop ?n) \<le> stopBurstBeforeRing
             then ?n\<lparr>ignoreStopsUntil := now + staleStopWindow\<rparr> else ?n)"
      by (simp_all add: map_frame_def Let_def)
    show ?thesis by (rule start [of ?i]) (use True False m' in simp_all)
  qed
next
  case False
  let ?rest = "raw \<noteq> FrameAudioMuted \<and> raw \<noteq> FrameAudioUnmuted \<and> ParseVoicemailStatus raw = None"
  show ?thesis
  proof (cases "?rest \<and> is_stop_frame raw \<and> activeEntrypoint m \<noteq> '''' \<and> ignoreStopsUntil m \<le> now")
    case True
    with False assms show ?thesis using clear by (auto simp: map_frame_def)
  next
    case no: False
    have "m' = m" "es = [] \<or> es = [AudioMuted] \<or> es = [AudioUnmuted] \<or> es = [VoicemailEnabled] \<or> es = [VoicemailDisabled]"
      using False no assms by (auto simp: map_frame_def split: if_splits option.splits)
    then show ?thesis using quiet by simp
  qed
qed

lemma ring_start_not_stop: "IsRingStart raw \<Longrightarrow> \<not> is_stop_frame raw"
  by (auto simp: IsRingStart_def is_stop_frame_def IsStreamStop_def IsFreeAVResources_def has_prefix_iff)

text \<open>The same for \<open>Map\<close> as a whole.\<close>

lemma Mapper_Map_cases:
  assumes "Mapper_Map m now message = (m', es)"
  obtains (quiet) "activeEntrypoint m' = activeEntrypoint m" "ignoreStopsUntil m' = ignoreStopsUntil m"
      "es = [] \<or> es = [AudioMuted] \<or> es = [AudioUnmuted] \<or> es = [VoicemailEnabled] \<or> es = [VoicemailDisabled]"
  | (start) i where "activeEntrypoint m = ''''" "i \<noteq> ''''" "activeEntrypoint m' = i" "es = [RingStarted i]"
      "ignoreStopsUntil m' = (if \<not> is_zero_time (lastStop m) \<and> time_sub now (lastStop m) \<le> stopBurstBeforeRing
                              then now + staleStopWindow else ignoreStopsUntil m)"
  | (clear) "activeEntrypoint m \<noteq> ''''" "ignoreStopsUntil m \<le> now" "activeEntrypoint m' = ''''"
      "ignoreStopsUntil m' = ignoreStopsUntil m" "es = [RingCleared (activeEntrypoint m)]"
proof -
  let ?raw = "trim_space (msg_raw message)"
  let ?m = "if is_stop_frame ?raw then m\<lparr>lastStop := now\<rparr> else m"
  obtain n d where n: "duplicate ?m ?raw now = (n, d)" by fastforce
  have f: "activeEntrypoint n = activeEntrypoint m" "ignoreStopsUntil n = ignoreStopsUntil m"
    "\<not> is_stop_frame ?raw \<Longrightarrow> lastStop n = lastStop m"
    using duplicate_fields [OF n] by simp_all
  have "Mapper_Map m now message = (m, []) \<or> Mapper_Map m now message = (n, []) \<or>
        Mapper_Map m now message = map_frame n now ?raw"
    unfolding Mapper_Map_def Let_def by (simp add: n)
  with assms consider "m' = m" "es = []" | "m' = n" "es = []" | "map_frame n now ?raw = (m', es)"
    by auto
  then show thesis
  proof cases
    case 1
    then show ?thesis using quiet by simp
  next
    case 2
    then show ?thesis using quiet f by simp
  next
    case 3
    then show ?thesis
    proof (cases rule: map_frame_cases)
      case quiet
      then show ?thesis using f that(1) by simp
    next
      case (start i)
      then show ?thesis using f that(2) [of i] ring_start_not_stop by simp
    next
      case clear
      then show ?thesis using f that(3) by simp
    qed
  qed
qed

interpretation mapper: projector_source mapper_step "\<lambda>_. True" ring_event mapper_rel
proof
  fix m i m' es
  assume "mapper_step m i = (m', es)"
  then show "es = [] \<or> (\<exists>e. es = [e])"
    unfolding mapper_step_def by (cases rule: Mapper_Map_cases) auto
next
  fix m p i m' es
  assume r: "mapper_rel m p" and s: "mapper_step m i = (m', es)"
  from s [unfolded mapper_step_def] show "accepted p es \<and> mapper_rel m' (project p es)"
  proof (cases rule: Mapper_Map_cases)
    case quiet
    then show ?thesis using r by (auto simp: mapper_rel_def projector_defs)
  next
    case (start i)
    then show ?thesis using r by (simp add: mapper_rel_def projector_defs)
  next
    case clear
    then show ?thesis using r by (auto simp: mapper_rel_def projector_defs)
  qed
next
  fix m p e
  assume "mapper_rel m p" "\<not> ring_event e"
  then show "mapper_rel m (fst (Projector_Apply p e))"
    by (cases e) (auto simp: mapper_rel_def Projector_Apply_def Let_def split: option.splits sum.splits)
qed


section \<open>The duplicate filter\<close>

definition mapper_wf :: "Mapper \<Rightarrow> bool" where
  "mapper_wf m \<longleftrightarrow> distinct (map fst (mp_entrypoints m)) \<and> distinct (map fst (recentFrames m))"

definition relevant :: "Message \<Rightarrow> bool" where
  "relevant message \<longleftrightarrow>
     to_lower (trim_space (msg_system message)) \<in> {''open'', ''aswm''} \<and> trim_space (msg_raw message) \<noteq> ''''"

definition last_seen :: "Mapper \<Rightarrow> string \<Rightarrow> time option" where
  "last_seen m raw = map_of (recentFrames m) raw"

lemma entrypoint_index_distinct: "distinct (map fst acc) \<Longrightarrow> distinct (map fst (entrypoint_index es acc))"
  by (induction es acc rule: entrypoint_index.induct) (auto intro: distinct_update)

lemma NewMapper_wf: "mapper_wf (NewMapper es)"
  by (simp add: mapper_wf_def NewMapper_def entrypoint_index_distinct)

lemma map_frame_entrypoints [mapper_simps]:
  "map_frame m now raw = (m', es) \<Longrightarrow> mp_entrypoints m' = mp_entrypoints m"
  by (auto simp: map_frame_def Let_def split: if_splits option.splits)

text \<open>A relevant message records its frame, expires the old ones and answers from what it found.\<close>

lemma Mapper_Map_relevant:
  assumes "relevant message" and "mapper_wf m" and "Mapper_Map m now message = (m', es)"
  shows "mapper_wf m'"
    and "last_seen m' raw =
           (if raw = trim_space (msg_raw message) then Some now
            else case last_seen m raw of Some seen \<Rightarrow> if is_recent now seen then Some seen else None | None \<Rightarrow> None)"
    and "last_seen m (trim_space (msg_raw message)) = Some seen \<Longrightarrow> is_recent now seen \<Longrightarrow>
         es = [] \<and> activeEntrypoint m' = activeEntrypoint m \<and> ignoreStopsUntil m' = ignoreStopsUntil m"
proof -
  let ?raw = "trim_space (msg_raw message)"
  let ?m = "if is_stop_frame ?raw then m\<lparr>lastStop := now\<rparr> else m"
  let ?recent = "filter (\<lambda>(frame, seen). is_recent now seen) (recentFrames m)"
  have d: "distinct (map fst (recentFrames m))" using assms(2) by (simp add: mapper_wf_def)
  have r: "map_of ?recent k = (case last_seen m k of Some seen \<Rightarrow> if is_recent now seen then Some seen else None | None \<Rightarrow> None)" for k
    using map_of_swept [OF d] by (auto simp: last_seen_def split: option.splits)
  obtain n dup where n: "duplicate ?m ?raw now = (n, dup)" by fastforce
  have nf: "recentFrames n = AList.update ?raw now ?recent" "mp_entrypoints n = mp_entrypoints m"
    "activeEntrypoint n = activeEntrypoint m" "ignoreStopsUntil n = ignoreStopsUntil m"
    "dup = (case map_of ?recent ?raw of Some seen \<Rightarrow> is_recent now seen | None \<Rightarrow> False)"
    using n by (auto simp: duplicate_def Let_def split: if_splits)
  have m: "(m', es) = (if dup then (n, []) else map_frame n now ?raw)"
    using assms(1,3) n by (auto simp: Mapper_Map_def Let_def relevant_def)
  then have m': "recentFrames m' = recentFrames n" "mp_entrypoints m' = mp_entrypoints n"
    using map_frame_recent map_frame_entrypoints by (metis prod.inject)+
  have "distinct (map fst ?recent)" using d by (simp add: distinct_map_filter)
  then show "mapper_wf m'" using assms(2) m' nf by (simp add: mapper_wf_def distinct_update)
  show "last_seen m' raw =
           (if raw = ?raw then Some now
            else case last_seen m raw of Some seen \<Rightarrow> if is_recent now seen then Some seen else None | None \<Rightarrow> None)"
    unfolding last_seen_def [of m'] m'(1) nf(1) by (auto simp: update_conv r)
  show "es = [] \<and> activeEntrypoint m' = activeEntrypoint m \<and> ignoreStopsUntil m' = ignoreStopsUntil m"
    if "last_seen m ?raw = Some seen" "is_recent now seen"
    using that m nf r by auto
qed

lemma Mapper_Map_irrelevant: "\<not> relevant message \<Longrightarrow> Mapper_Map m now message = (m, [])"
  by (auto simp: Mapper_Map_def Let_def relevant_def)

lemma is_recent_between: "t1 \<le> seen \<Longrightarrow> now \<le> t1 + duplicateWindow \<Longrightarrow> is_recent now seen"
  by (simp add: is_recent_def duplicateWindow_def millisecond_def time_sub_le_iff)

lemma mapper_run_seen:
  assumes "mapper_wf m" and "last_seen m raw = Some seen" and "t1 \<le> seen"
    and "list_all (\<lambda>(t, message). t1 \<le> t \<and> t \<le> t1 + duplicateWindow) ms"
  shows "mapper_wf (fst (mapper_run m ms)) \<and>
         (\<exists>seen. last_seen (fst (mapper_run m ms)) raw = Some seen \<and> t1 \<le> seen)"
  using assms
proof (induction m ms arbitrary: seen rule: mapper_run.induct)
  case (1 m)
  then show ?case by auto
next
  case (2 m now message ms)
  obtain m1 es where m1: "Mapper_Map m now message = (m1, es)" by fastforce
  have t: "t1 \<le> now" "now \<le> t1 + duplicateWindow" using "2.prems" by auto
  have "mapper_wf m1 \<and> (\<exists>seen. last_seen m1 raw = Some seen \<and> t1 \<le> seen)"
  proof (cases "relevant message")
    case True
    then show ?thesis
      using Mapper_Map_relevant [OF True "2.prems"(1) m1] "2.prems" t is_recent_between by auto
  next
    case False
    then show ?thesis using "2.prems" m1 by (auto simp: Mapper_Map_irrelevant)
  qed
  then show ?case using 2 m1 by (auto split: prod.splits)
qed


lemma mapper_run_ring_kept:
  assumes "activeEntrypoint m = i" and "i \<noteq> ''''"
    and "list_all (\<lambda>(t, message). t < ignoreStopsUntil m) ms" and "mapper_run m ms = (m', es)"
  shows "activeEntrypoint m' = i \<and> list_all (\<lambda>e. \<not> ring_event e) es"
  using assms
proof (induction m ms arbitrary: es rule: mapper_run.induct)
  case (1 m)
  then show ?case by auto
next
  case (2 m now message ms)
  obtain m1 fs where m1: "Mapper_Map m now message = (m1, fs)" by fastforce
  from m1 have "activeEntrypoint m1 = i \<and> ignoreStopsUntil m1 = ignoreStopsUntil m \<and> list_all (\<lambda>e. \<not> ring_event e) fs"
    by (cases rule: Mapper_Map_cases) (use "2.prems" in auto)
  then show ?case using 2 m1 by (auto split: prod.splits)
qed

section \<open>Properties\<close>

text \<open>
  C5. Whatever frames the bus carries, and whatever the calls, the previews and the settings do to the
  state in between, the projector accepts every event of the mapper, and once all of them are delivered
  it shows either no ring or the mapper's own: a ring cleared by an answered call does not turn the bus
  frame that ends it into a refused transition.
\<close>

theorem mapper_events_accepted:
  assumes "physical_ring p = None"
    and "list_all (act_ok (\<lambda>_. True) ring_event) acts"
    and "source_run mapper_step acts \<lparr>dl_source = NewMapper eps, dl_queue = [], dl_projector = p\<rparr> = (d, ok)"
  shows "ok \<and> (dl_queue d = [] \<longrightarrow> physical_ring (dl_projector d) \<in> {None, Some (activeEntrypoint (dl_source d))})"
proof -
  have "mapper_rel (NewMapper eps) p" using assms(1) by (simp add: mapper_rel_def)
  from mapper.run_accepted [OF this assms(2,3)] show ?thesis by (auto simp: mapper_rel_def)
qed

definition sample_ring :: Message where
  "sample_ring = \<lparr>msg_system = ''OPEN'', msg_raw = ''*8*1#1#4#21*10##''\<rparr>"

definition sample_stop :: Message where
  "sample_stop = \<lparr>msg_system = ''OPEN'', msg_raw = ''*7*0*##''\<rparr>"

theorem mapper_events_accepted_witness:
  "\<exists>d ok. source_run mapper_step
     [Own (10 * second, sample_ring), Deliver, Foreign (IncomingCallStarted ''d1'' ''main''), Own (12 * second, sample_stop),
      Foreign (CallAnswered ''d1''), Deliver]
     \<lparr>dl_source = NewMapper [], dl_queue = [], dl_projector = NewProjector\<rparr> = (d, ok) \<and> ok"
proof -
  let ?acts = "[Own (10 * second, sample_ring), Deliver, Foreign (IncomingCallStarted ''d1'' ''main''),
    Own (12 * second, sample_stop), Foreign (CallAnswered ''d1''), Deliver]"
  let ?c = "\<lparr>dl_source = NewMapper [], dl_queue = [], dl_projector = NewProjector\<rparr>"
  obtain d ok where r: "source_run mapper_step ?acts ?c = (d, ok)" by fastforce
  have p: "physical_ring NewProjector = None" by (simp add: NewProjector_def)
  have a: "list_all (act_ok (\<lambda>_. True) ring_event) ?acts" by simp
  from mapper_events_accepted [OF p a r] r show ?thesis by blast
qed

text \<open>
  A frame the mapper saw at \<open>t1\<close> is a duplicate for the next 300 ms, whatever else arrives in
  between: its copies publish nothing and do not touch the ring being tracked.
\<close>

theorem mapper_drops_duplicates:
  assumes "mapper_wf m" and "relevant message" and "relevant message'"
    and "trim_space (msg_raw message') = trim_space (msg_raw message)"
    and "list_all (\<lambda>(t, other). t1 \<le> t \<and> t \<le> t1 + 300 * millisecond) between"
    and "t2 \<le> t1 + 300 * millisecond"
    and "m2 = fst (mapper_run (fst (Mapper_Map m t1 message)) between)"
    and "Mapper_Map m2 t2 message' = (m3, es)"
  shows "es = [] \<and> activeEntrypoint m3 = activeEntrypoint m2 \<and> ignoreStopsUntil m3 = ignoreStopsUntil m2"
proof -
  let ?raw = "trim_space (msg_raw message)"
  obtain m1 fs where m1: "Mapper_Map m t1 message = (m1, fs)" by fastforce
  from Mapper_Map_relevant [OF assms(2,1) m1]
  have w: "mapper_wf m1" and s: "last_seen m1 ?raw = Some t1" by simp_all
  from mapper_run_seen [OF w s, of t1 between] assms(5,7) m1
  obtain seen where w2: "mapper_wf m2" and s2: "last_seen m2 ?raw = Some seen" "t1 \<le> seen"
    by (auto simp: duplicateWindow_def)
  have "is_recent t2 seen" by (rule is_recent_between [OF s2(2)]) (simp add: assms(6) duplicateWindow_def)
  then show ?thesis
    using Mapper_Map_relevant(3) [OF assms(3) w2 assms(8)] s2 assms(4) by simp
qed

definition sample_entrypoint :: Entrypoint where
  "sample_entrypoint =
     \<lparr>ep_id = ''main'', Label = ''Main'', DevAddr = ''20'', Caps = \<lparr>Stream = True, Unlock = True, Ring = True\<rparr>,
      UnlockMode = '''', UnlockDurationMS = 0\<rparr>"

lemma sample_relevant: "relevant sample_ring" "relevant sample_stop"
proof -
  have "trim_space ''OPEN'' = ''OPEN''" "trim_space ''*8*1#1#4#21*10##'' = ''*8*1#1#4#21*10##''"
    "trim_space ''*7*0*##'' = ''*7*0*##''"
    by (rule trim_space_all_plain; simp add: plain_def byte_of_def)+
  moreover have "to_lower ''OPEN'' = ''open''"
    by (simp add: to_lower_def to_lower_char_def byte_of_def char_of_def bit_0)
  ultimately show "relevant sample_ring" "relevant sample_stop"
    by (simp_all add: relevant_def sample_ring_def sample_stop_def)
qed

theorem mapper_drops_duplicates_witness:
  "snd (Mapper_Map
     (fst (mapper_run (fst (Mapper_Map (NewMapper [sample_entrypoint]) (5 * second) sample_ring))
       [(5 * second + 100 * millisecond, sample_stop)]))
     (5 * second + 200 * millisecond) sample_ring) = []"
proof -
  let ?m2 = "fst (mapper_run (fst (Mapper_Map (NewMapper [sample_entrypoint]) (5 * second) sample_ring))
       [(5 * second + 100 * millisecond, sample_stop)])"
  obtain m3 es where m3: "Mapper_Map ?m2 (5 * second + 200 * millisecond) sample_ring = (m3, es)" by fastforce
  have "es = []"
    using mapper_drops_duplicates [OF NewMapper_wf sample_relevant(1) sample_relevant(1) refl _ _ refl m3]
    by (simp add: millisecond_def)
  then show ?thesis by (simp only: m3 snd_conv)
qed

text \<open>
  The second press of the doorbell. A ring that starts within a second of the stop burst of the
  ring before it is not ended by the tail of that burst: for the next 1500 ms no message clears it and
  no message starts another ring.
\<close>

theorem mapper_ignores_stale_stops:
  assumes "Mapper_Map m now message = (m', [RingStarted i])"
    and "\<not> is_zero_time (lastStop m)" and "now - lastStop m \<le> second"
    and "list_all (\<lambda>(t, other). t < now + 1500 * millisecond) later"
    and "mapper_run m' later = (m'', es)"
  shows "activeEntrypoint m'' = i \<and> list_all (\<lambda>e. \<not> ring_event e) es"
proof -
  have b: "time_sub now (lastStop m) \<le> stopBurstBeforeRing"
    using assms(3) by (simp add: stopBurstBeforeRing_def second_def time_sub_le_iff)
  from assms(1) show ?thesis
  proof (cases rule: Mapper_Map_cases)
    case (start j)
    then show ?thesis
      using mapper_run_ring_kept [of m' i later m'' es] assms(2,4,5) b by (auto simp: staleStopWindow_def)
  qed auto
qed


definition sample_mapper :: Mapper where
  "sample_mapper = (NewMapper [sample_entrypoint])\<lparr>lastStop := 10 * second\<rparr>"

lemma sample_ring_starts:
  "\<exists>m'. Mapper_Map sample_mapper (10 * second + 200 * millisecond) sample_ring = (m', [RingStarted ''main''])"
proof -
  have t: "trim_space ''*8*1#1#4#21*10##'' = ''*8*1#1#4#21*10##''"
    by (rule trim_space_all_plain) (simp add: plain_def byte_of_def)
  have r: "IsRingStart ''*8*1#1#4#21*10##''" by (simp add: IsRingStart_def t has_prefix_def)
  have s: "\<not> is_stop_frame ''*8*1#1#4#21*10##''" using ring_start_not_stop r by blast
  have d: "mp_doorbell sample_mapper = ''main''" "activeEntrypoint sample_mapper = ''''" "recentFrames sample_mapper = []"
    by (simp_all add: sample_mapper_def NewMapper_def sample_entrypoint_def DoorbellEntrypoint_eq)
  have "to_lower (trim_space (msg_system sample_ring)) \<in> {''open'', ''aswm''}"
    using sample_relevant(1) by (simp add: relevant_def)
  then show ?thesis
    by (auto simp: Mapper_Map_def Let_def sample_ring_def t s duplicate_def map_frame_def r d resolveEntrypoint_def)
qed

theorem mapper_ignores_stale_stops_witness:
  "\<exists>m'. Mapper_Map sample_mapper (10 * second + 200 * millisecond) sample_ring = (m', [RingStarted ''main'']) \<and>
        activeEntrypoint (fst (mapper_run m' [(10 * second + 900 * millisecond, sample_stop)])) = ''main''"
proof -
  obtain m' where m': "Mapper_Map sample_mapper (10 * second + 200 * millisecond) sample_ring = (m', [RingStarted ''main''])"
    using sample_ring_starts by blast
  obtain m'' es where r: "mapper_run m' [(10 * second + 900 * millisecond, sample_stop)] = (m'', es)" by fastforce
  have "activeEntrypoint m'' = ''main''"
    using mapper_ignores_stale_stops [OF m' _ _ _ r]
    by (simp add: sample_mapper_def is_zero_time_def second_def millisecond_def)
  then show ?thesis using m' r by (intro exI [of _ m']) simp
qed

end
