(* ===== verification/Sig_Manager.thy ===== *)
theory Sig_Manager
  imports Event_Source
begin

text \<open>
  The call manager of \<^verbatim>\<open>src/internal/signaling/manager.go\<close>, which owns the one inbound and the one
  outbound SIP dialog and publishes what happens to them.

  Every critical section of the source is one function on the record \<open>Manager\<close>; it returns the calls
  the code makes after it released the lock as a list of \<open>effect\<close>s. What those calls return (a SIP
  response that fails, a BYE that fails, a dialog the dialer made) is an argument. \<^verbatim>\<open>OnInvite\<close> and
  \<^verbatim>\<open>Answer\<close> have two critical sections with a SIP response in between, so they are two functions each,
  and \<open>sig_step\<close> keeps the answers that are on the wire: any other operation may run before they
  commit. Dialogs are compared by identity in the source; \<open>dlg_ref\<close> is that identity, fresh for every
  INVITE. A timer that already fired cannot be stopped, so an expiry may come for any dialog at
  any time.

  The lemmas give the invariant of the manager, that it is a \<open>projector_source\<close>, that its publish queue
  delivers in commit order and never loses its drain, and that a dialog gets at most one final
  refusal.
\<close>

section \<open>State\<close>

record IncomingDialog =
  dlg_ref :: nat
  dlg_ID :: DialogID

datatype OutgoingDialog = AnsweredDialog IncomingDialog | DialledDialog nat

datatype sip_error =
    ErrNoIncomingDialog | ErrIncomingDialog | ErrActiveDialog | ErrNoInboundCall
  | ResponseFailed nat | ByeFailed | OutgoingStreamFailed

datatype effect =
    Respond IncomingDialog nat "string option"
  | Bye OutgoingDialog
  | RunHungUp
  | RunCallEnded
  | RunBusDecline
  | GoDrainEvents

record Manager =
  mg_pending :: "event list"
  mg_draining :: bool
  mg_events :: bool
  mg_incoming :: "IncomingDialog option"
  mg_incomingDevAddr :: string
  mg_incomingEntrypoint :: EntrypointID
  mg_incomingExpiry :: "(IncomingDialog \<times> duration) option"
  mg_incomingTimeout :: duration
  mg_active :: "OutgoingDialog option"
  mg_activeID :: DialogID
  mg_activeIncoming :: bool
  mg_activeEntrypoint :: EntrypointID
  mg_hungUp :: bool
  mg_callEnded :: bool
  mg_busDecline :: bool

definition defaultIncomingTimeout :: duration where
  "defaultIncomingTimeout = 60 * second"

definition NewManager :: "bool \<Rightarrow> Manager" where
  "NewManager events =
     \<lparr>mg_pending = [], mg_draining = False, mg_events = events,
      mg_incoming = None, mg_incomingDevAddr = '''', mg_incomingEntrypoint = '''',
      mg_incomingExpiry = None, mg_incomingTimeout = defaultIncomingTimeout,
      mg_active = None, mg_activeID = '''', mg_activeIncoming = False, mg_activeEntrypoint = '''',
      mg_hungUp = False, mg_callEnded = False, mg_busDecline = False\<rparr>"

section \<open>Publishing\<close>

definition publishLocked :: "Manager \<Rightarrow> event option \<Rightarrow> Manager \<times> effect list" where
  "publishLocked m ev =
     (let m = (case ev of Some e \<Rightarrow> m\<lparr>mg_pending := mg_pending m @ [e]\<rparr> | None \<Rightarrow> m) in
      if mg_draining m \<or> mg_pending m = [] then (m, [])
      else (m\<lparr>mg_draining := True\<rparr>, [GoDrainEvents]))"

text \<open>One round of the loop of \<^verbatim>\<open>drainEvents\<close> up to the call of the sink; \<open>None\<close> ends the goroutine.\<close>

definition drainEvents_round :: "Manager \<Rightarrow> Manager \<times> event option" where
  "drainEvents_round m =
     (case mg_pending m of
        [] \<Rightarrow> (m\<lparr>mg_draining := False\<rparr>, None)
      | e # es \<Rightarrow> (m\<lparr>mg_pending := es\<rparr>, Some e))"

section \<open>The incoming call\<close>

definition stopIncomingExpiryLocked :: "Manager \<Rightarrow> Manager" where
  "stopIncomingExpiryLocked m = m\<lparr>mg_incomingExpiry := None\<rparr>"

definition startIncomingExpiryLocked :: "Manager \<Rightarrow> IncomingDialog \<Rightarrow> Manager" where
  "startIncomingExpiryLocked m dialog =
     (let m = stopIncomingExpiryLocked m;
          timeout = (if mg_incomingTimeout m \<le> 0 then defaultIncomingTimeout else mg_incomingTimeout m)
      in m\<lparr>mg_incomingExpiry := Some (dialog, timeout)\<rparr>)"

definition takeIncomingLocked :: "Manager \<Rightarrow> IncomingDialog option \<Rightarrow> Manager \<times> IncomingDialog option" where
  "takeIncomingLocked m expected =
     (case mg_incoming m of
        None \<Rightarrow> (m, None)
      | Some dialog \<Rightarrow>
          if expected \<noteq> None \<and> expected \<noteq> Some dialog then (m, None)
          else ((stopIncomingExpiryLocked m)
                  \<lparr>mg_incoming := None, mg_incomingDevAddr := '''', mg_incomingEntrypoint := ''''\<rparr>,
                Some dialog))"

definition clearIncoming ::
  "Manager \<Rightarrow> IncomingDialog option \<Rightarrow> CallEndReason \<Rightarrow> Manager \<times> effect list \<times> bool" where
  "clearIncoming m expected reason =
     (case takeIncomingLocked m expected of
        (m, None) \<Rightarrow> (m, [], False)
      | (m, Some dialog) \<Rightarrow>
          (case publishLocked m (Some (IncomingCallEnded (dlg_ID dialog) reason)) of
             (m, effs) \<Rightarrow> (m, effs, True)))"

text \<open>
  \<^verbatim>\<open>OnInvite\<close> up to the 180; \<open>resolved\<close> is what the resolver returns. The flag says whether the call was
  reserved, and so whether the 180 may still have to be rolled back.
\<close>

definition OnInvite ::
  "Manager \<Rightarrow> EntrypointID \<times> string \<Rightarrow> IncomingDialog \<Rightarrow> Manager \<times> effect list \<times> bool" where
  "OnInvite m resolved dialog =
     (if mg_incoming m \<noteq> None \<or> mg_active m \<noteq> None then (m, [Respond dialog 486 None], False)
      else
        case resolved of (entrypointID, devAddr) \<Rightarrow>
          if entrypointID = '''' then (m, [Respond dialog 486 None], False)
          else
            let m = startIncomingExpiryLocked
                      (m\<lparr>mg_incoming := Some dialog, mg_incomingDevAddr := devAddr,
                         mg_incomingEntrypoint := entrypointID\<rparr>) dialog
            in case publishLocked m (Some (IncomingCallStarted (dlg_ID dialog) entrypointID)) of
                 (m, effs) \<Rightarrow> (m, effs @ [Respond dialog 180 None], True))"

text \<open>The rest of \<^verbatim>\<open>OnInvite\<close> when the 180 failed.\<close>

definition OnInvite_rollback :: "Manager \<Rightarrow> IncomingDialog \<Rightarrow> Manager \<times> effect list" where
  "OnInvite_rollback m dialog =
     (case clearIncoming m (Some dialog) CallEndReasonCancelled of
        (m, effs, cleared) \<Rightarrow> (m, effs @ (if cleared then [Respond dialog 500 None] else [])))"

definition Answer_begin :: "Manager \<Rightarrow> (sip_error, IncomingDialog \<times> string \<times> EntrypointID) result" where
  "Answer_begin m =
     (case mg_incoming m of
        None \<Rightarrow> Err ErrNoIncomingDialog
      | Some dialog \<Rightarrow> Ok (dialog, mg_incomingDevAddr m, mg_incomingEntrypoint m))"

text \<open>The rest of \<^verbatim>\<open>Answer\<close> once its 200 went out.\<close>

definition Answer_commit ::
  "Manager \<Rightarrow> IncomingDialog \<Rightarrow> EntrypointID \<Rightarrow> Manager \<times> effect list \<times> (sip_error, unit) result" where
  "Answer_commit m dialog entrypointID =
     (if mg_incoming m \<noteq> Some dialog then
        (if mg_active m = Some (AnsweredDialog dialog) then (m, [], Ok ())
         else (m, [Bye (AnsweredDialog dialog)], Err ErrNoIncomingDialog))
      else
        let m = (stopIncomingExpiryLocked m)
                  \<lparr>mg_incoming := None, mg_incomingDevAddr := '''', mg_incomingEntrypoint := '''',
                   mg_active := Some (AnsweredDialog dialog), mg_activeID := dlg_ID dialog,
                   mg_activeIncoming := True, mg_activeEntrypoint := entrypointID\<rparr>
        in case publishLocked m (Some (CallAnswered (dlg_ID dialog))) of (m, effs) \<Rightarrow> (m, effs, Ok ()))"

definition Decline :: "Manager \<Rightarrow> bool \<Rightarrow> Manager \<times> effect list \<times> (sip_error, unit) result" where
  "Decline m sent =
     (case takeIncomingLocked m None of
        (m, None) \<Rightarrow> (m, [], Err ErrNoIncomingDialog)
      | (m, Some dialog) \<Rightarrow>
          (case publishLocked m (Some (CallDeclined (dlg_ID dialog))) of
             (m, effs) \<Rightarrow> (m, effs @ [Respond dialog 603 None],
                          if sent then Ok () else Err (ResponseFailed 603))))"

definition EndIncoming :: "Manager \<Rightarrow> CallEndReason \<Rightarrow> Manager \<times> effect list" where
  "EndIncoming m reason =
     (let reason = (case reason of CallEndReasonOther _ \<Rightarrow> CallEndReasonCancelled | _ \<Rightarrow> reason) in
      case clearIncoming m None reason of (m, effs, _) \<Rightarrow> (m, effs))"

text \<open>The function \<^verbatim>\<open>startIncomingExpiryLocked\<close> hands to the timer.\<close>

definition incoming_expired :: "Manager \<Rightarrow> IncomingDialog \<Rightarrow> Manager \<times> effect list" where
  "incoming_expired m dialog =
     (case clearIncoming m (Some dialog) CallEndReasonTimeout of
        (m, effs, cleared) \<Rightarrow> (m, effs @ (if cleared then [Respond dialog 480 None] else [])))"

section \<open>The active call\<close>

definition drop_active :: "Manager \<Rightarrow> Manager \<times> effect list" where
  "drop_active m =
     publishLocked
       (m\<lparr>mg_active := None, mg_activeID := '''', mg_activeIncoming := False, mg_activeEntrypoint := ''''\<rparr>)
       (if mg_activeID m \<noteq> '''' then Some (CallHungUp (mg_activeID m)) else None)"

definition byeActiveLocked ::
  "Manager \<Rightarrow> OutgoingDialog \<Rightarrow> bool \<Rightarrow> Manager \<times> effect list \<times> (sip_error, unit) result" where
  "byeActiveLocked m active sent =
     (case drop_active m of
        (m', effs) \<Rightarrow>
          (m', effs @ [Bye active] @ (if mg_callEnded m then [RunCallEnded] else []),
           if sent then Ok () else Err ByeFailed))"

definition HangupCall :: "Manager \<Rightarrow> bool \<Rightarrow> Manager \<times> effect list \<times> (sip_error, unit) result" where
  "HangupCall m sent =
     (case mg_active m of
        None \<Rightarrow> (m, [], Ok ())
      | Some active \<Rightarrow> byeActiveLocked m active sent)"

text \<open>
  \<open>busTook\<close> is the answer of the bus decline, \<open>withdrawn\<close> whether the CANCEL came within the grace, and
  \<open>response\<close> what the 603 returned: \<open>None\<close> for no error, else whether it was \<^verbatim>\<open>ErrDialogConcluded\<close>.
\<close>

definition Hangup ::
  "Manager \<Rightarrow> bool \<Rightarrow> bool \<Rightarrow> bool option \<Rightarrow> bool \<Rightarrow> Manager \<times> effect list \<times> (sip_error, unit) result" where
  "Hangup m busTook withdrawn response sent =
     (let hung = (if mg_hungUp m then [RunHungUp] else []);
          ended = (if mg_callEnded m then [RunCallEnded] else []) in
      case mg_active m of
        Some active \<Rightarrow>
          (case byeActiveLocked m active sent of (m', effs, r) \<Rightarrow> (m', effs @ hung, r))
      | None \<Rightarrow>
          (case takeIncomingLocked m None of
             (m, None) \<Rightarrow> (m, [], Ok ())
           | (m, Some dialog) \<Rightarrow>
               (case publishLocked m (Some (CallHungUp (dlg_ID dialog))) of
                  (m, effs) \<Rightarrow>
                    let bus = (if mg_busDecline m then [RunBusDecline] else []);
                        declinedOnBus = (mg_busDecline m \<and> busTook) in
                    if declinedOnBus \<and> withdrawn then (m, effs @ bus @ hung, Ok ())
                    else (m, effs @ bus @ [Respond dialog 603 None] @ hung @ ended,
                          case response of
                            None \<Rightarrow> Ok ()
                          | Some concluded \<Rightarrow>
                              if declinedOnBus \<and> concluded then Ok () else Err (ResponseFailed 603)))))"

definition RemoteDialogEnded :: "Manager \<Rightarrow> Manager \<times> effect list" where
  "RemoteDialogEnded m = (if mg_active m = None then (m, []) else drop_active m)"

definition HasAnsweredInboundCall :: "Manager \<Rightarrow> bool" where
  "HasAnsweredInboundCall m \<longleftrightarrow> mg_active m \<noteq> None \<and> mg_activeIncoming m"

definition HasRingingInboundCall :: "Manager \<Rightarrow> bool" where
  "HasRingingInboundCall m \<longleftrightarrow> mg_incoming m \<noteq> None"

definition AdoptRingingCall :: "Manager \<Rightarrow> EntrypointID \<Rightarrow> (sip_error, bool) result" where
  "AdoptRingingCall m entrypointID =
     (if mg_incoming m \<noteq> None \<and> entrypointID = mg_incomingEntrypoint m then Ok False
      else if mg_active m \<noteq> None \<and> mg_activeIncoming m \<and> entrypointID = mg_activeEntrypoint m then Ok True
      else Err ErrNoInboundCall)"

text \<open>\<open>dialled\<close> is what the dialer returns for the INVITE the manager sends with its lock held.\<close>

definition StartStream :: "Manager \<Rightarrow> nat option \<Rightarrow> Manager \<times> (sip_error, bool) result" where
  "StartStream m dialled =
     (if mg_incoming m \<noteq> None then (m, Err ErrIncomingDialog)
      else if mg_activeIncoming m then (m, Ok False)
      else if mg_active m \<noteq> None then (m, Err ErrActiveDialog)
      else case dialled of
        None \<Rightarrow> (m, Err OutgoingStreamFailed)
      | Some d \<Rightarrow> (m\<lparr>mg_active := Some (DialledDialog d)\<rparr>, Ok True))"

definition SetEvents :: "bool \<Rightarrow> Manager \<Rightarrow> Manager" where "SetEvents b m = m\<lparr>mg_events := b\<rparr>"
definition SetHangupObserver :: "bool \<Rightarrow> Manager \<Rightarrow> Manager" where "SetHangupObserver b m = m\<lparr>mg_hungUp := b\<rparr>"
definition SetCallEndObserver :: "bool \<Rightarrow> Manager \<Rightarrow> Manager" where "SetCallEndObserver b m = m\<lparr>mg_callEnded := b\<rparr>"
definition SetBusDecline :: "bool \<Rightarrow> Manager \<Rightarrow> Manager" where "SetBusDecline b m = m\<lparr>mg_busDecline := b\<rparr>"
definition SetIncomingTimeout :: "duration \<Rightarrow> Manager \<Rightarrow> Manager" where
  "SetIncomingTimeout t m = m\<lparr>mg_incomingTimeout := t\<rparr>"

section \<open>Concurrent operations\<close>

text \<open>
  The manager with the answers on the wire and the identity of the next dialog. An input is one critical
  section of one operation; \<open>AnswerSent n\<close> is the commit of the \<open>n\<close>-th answer on the wire, and
  \<open>AnswerFailed n\<close> its 200 that was not sent.
\<close>

record Signaling =
  sg_manager :: Manager
  sg_answering :: "(IncomingDialog \<times> EntrypointID) list"
  sg_next :: nat

datatype sig_input =
    Invite DialogID "EntrypointID \<times> string"
  | RingingFailed IncomingDialog
  | AnswerStart
  | AnswerSent nat
  | AnswerFailed nat
  | DeclineCall bool
  | HangupAny bool bool "bool option" bool
  | HangupActive bool
  | RemoteEnded
  | IncomingGone CallEndReason
  | Expire IncomingDialog
  | DialStream "nat option"

definition remove_nth :: "nat \<Rightarrow> 'a list \<Rightarrow> 'a list" where
  "remove_nth n xs = take n xs @ drop (Suc n) xs"

fun sig_step :: "Signaling \<Rightarrow> sig_input \<Rightarrow> Signaling \<times> effect list" where
  "sig_step s (Invite i resolved) =
     (case OnInvite (sg_manager s) resolved \<lparr>dlg_ref = sg_next s, dlg_ID = i\<rparr> of
        (m, effs, _) \<Rightarrow> (s\<lparr>sg_manager := m, sg_next := Suc (sg_next s)\<rparr>, effs))"
| "sig_step s (RingingFailed d) =
     (case OnInvite_rollback (sg_manager s) d of (m, effs) \<Rightarrow> (s\<lparr>sg_manager := m\<rparr>, effs))"
| "sig_step s AnswerStart =
     (case Answer_begin (sg_manager s) of
        Inl _ \<Rightarrow> (s, [])
      | Inr (d, devAddr, e) \<Rightarrow>
          (s\<lparr>sg_answering := sg_answering s @ [(d, e)]\<rparr>, [Respond d 200 (Some devAddr)]))"
| "sig_step s (AnswerSent n) =
     (if n < length (sg_answering s) then
        (case sg_answering s ! n of
           (d, e) \<Rightarrow>
             (case Answer_commit (sg_manager s) d e of
                (m, effs, _) \<Rightarrow>
                  (s\<lparr>sg_manager := m, sg_answering := remove_nth n (sg_answering s)\<rparr>, effs)))
      else (s, []))"
| "sig_step s (AnswerFailed n) = (s\<lparr>sg_answering := remove_nth n (sg_answering s)\<rparr>, [])"
| "sig_step s (DeclineCall sent) =
     (case Decline (sg_manager s) sent of (m, effs, _) \<Rightarrow> (s\<lparr>sg_manager := m\<rparr>, effs))"
| "sig_step s (HangupAny busTook withdrawn response sent) =
     (case Hangup (sg_manager s) busTook withdrawn response sent of
        (m, effs, _) \<Rightarrow> (s\<lparr>sg_manager := m\<rparr>, effs))"
| "sig_step s (HangupActive sent) =
     (case HangupCall (sg_manager s) sent of (m, effs, _) \<Rightarrow> (s\<lparr>sg_manager := m\<rparr>, effs))"
| "sig_step s RemoteEnded =
     (case RemoteDialogEnded (sg_manager s) of (m, effs) \<Rightarrow> (s\<lparr>sg_manager := m\<rparr>, effs))"
| "sig_step s (IncomingGone reason) =
     (case EndIncoming (sg_manager s) reason of (m, effs) \<Rightarrow> (s\<lparr>sg_manager := m\<rparr>, effs))"
| "sig_step s (Expire d) =
     (case incoming_expired (sg_manager s) d of (m, effs) \<Rightarrow> (s\<lparr>sg_manager := m\<rparr>, effs))"
| "sig_step s (DialStream dialled) =
     (case StartStream (sg_manager s) dialled of (m, _) \<Rightarrow> (s\<lparr>sg_manager := m\<rparr>, []))"

text \<open>The manager as the application sets it up, with or without each observer.\<close>

definition NewSignaling :: "bool \<Rightarrow> bool \<Rightarrow> bool \<Rightarrow> Signaling" where
  "NewSignaling hungUp callEnded busDecline =
     \<lparr>sg_manager = SetHangupObserver hungUp (SetCallEndObserver callEnded (SetBusDecline busDecline (NewManager True))),
      sg_answering = [], sg_next = 0\<rparr>"

section \<open>Invariant\<close>

definition manager_wf :: "Manager \<Rightarrow> bool" where
  "manager_wf m \<longleftrightarrow>
     (mg_incoming m \<noteq> None \<longrightarrow> mg_active m = None) \<and>
     (mg_incoming m = None \<longrightarrow>
        mg_incomingDevAddr m = '''' \<and> mg_incomingEntrypoint m = '''' \<and> mg_incomingExpiry m = None) \<and>
     (\<forall>d. mg_incoming m = Some d \<longrightarrow>
        dlg_ID d \<noteq> '''' \<and> mg_incomingEntrypoint m \<noteq> '''' \<and>
        (\<exists>t > 0. mg_incomingExpiry m = Some (d, t))) \<and>
     (case mg_active m of
        None \<Rightarrow> mg_activeID m = '''' \<and> \<not> mg_activeIncoming m \<and> mg_activeEntrypoint m = ''''
      | Some (DialledDialog _) \<Rightarrow> mg_activeID m = '''' \<and> \<not> mg_activeIncoming m \<and> mg_activeEntrypoint m = ''''
      | Some (AnsweredDialog d) \<Rightarrow>
          mg_activeID m = dlg_ID d \<and> dlg_ID d \<noteq> '''' \<and> mg_activeIncoming m \<and> mg_activeEntrypoint m \<noteq> '''')"

definition signaling_wf :: "Signaling \<Rightarrow> bool" where
  "signaling_wf s \<longleftrightarrow>
     manager_wf (sg_manager s) \<and>
     (\<forall>(d, e) \<in> set (sg_answering s).
        dlg_ref d < sg_next s \<and> (mg_incoming (sg_manager s) = Some d \<longrightarrow> e = mg_incomingEntrypoint (sg_manager s))) \<and>
     (\<forall>d. mg_incoming (sg_manager s) = Some d \<longrightarrow> dlg_ref d < sg_next s)"

text \<open>The projector's calls are the manager's.\<close>

definition manager_mirrored :: "Manager \<Rightarrow> State \<Rightarrow> bool" where
  "manager_mirrored m p \<longleftrightarrow>
     incoming_call p =
       map_option (\<lambda>d. \<lparr>ic_dialog = dlg_ID d, ic_entrypoint = mg_incomingEntrypoint m\<rparr>) (mg_incoming m) \<and>
     active_call p =
       (if mg_activeIncoming m then Some \<lparr>ac_dialog = mg_activeID m, ac_entrypoint = mg_activeEntrypoint m\<rparr> else None)"

fun call_event :: "event \<Rightarrow> bool" where
  "call_event (IncomingCallStarted _ _) = True"
| "call_event (IncomingCallEnded _ _) = True"
| "call_event (CallAnswered _) = True"
| "call_event (CallDeclined _) = True"
| "call_event (CallHungUp _) = True"
| "call_event _ = False"

fun sig_input_ok :: "sig_input \<Rightarrow> bool" where
  "sig_input_ok (Invite i _) = (i \<noteq> '''')"
| "sig_input_ok _ = True"

text \<open>The manager with its publish queue taken out, and a step with the events it commits.\<close>

definition unqueued :: "Signaling \<Rightarrow> Signaling" where
  "unqueued s = s\<lparr>sg_manager := (sg_manager s)\<lparr>mg_pending := [], mg_draining := False\<rparr>\<rparr>"

definition sig_commit :: "Signaling \<Rightarrow> sig_input \<Rightarrow> Signaling \<times> event list" where
  "sig_commit s i =
     (let s' = fst (sig_step (unqueued s) i) in (unqueued s', mg_pending (sg_manager s')))"

definition sig_rel :: "Signaling \<Rightarrow> State \<Rightarrow> bool" where
  "sig_rel s p \<longleftrightarrow> signaling_wf s \<and> manager_mirrored (sg_manager s) p"


section \<open>Lemmas\<close>

lemma publishLocked_eq:
  "publishLocked m ev =
     (m\<lparr>mg_pending := mg_pending m @ (case ev of Some e \<Rightarrow> [e] | None \<Rightarrow> []),
        mg_draining := (mg_draining m \<or> mg_pending m \<noteq> [] \<or> ev \<noteq> None)\<rparr>,
      if \<not> mg_draining m \<and> (mg_pending m \<noteq> [] \<or> ev \<noteq> None) then [GoDrainEvents] else [])"
  by (cases ev) (auto simp: publishLocked_def Let_def)

lemmas manager_defs =
  publishLocked_eq takeIncomingLocked_def clearIncoming_def stopIncomingExpiryLocked_def
  startIncomingExpiryLocked_def Let_def

lemmas operation_defs =
  OnInvite_def OnInvite_rollback_def Answer_begin_def Answer_commit_def Decline_def EndIncoming_def
  incoming_expired_def drop_active_def byeActiveLocked_def HangupCall_def Hangup_def
  RemoteDialogEnded_def StartStream_def

lemma apply_one:
  assumes "apply_event p e = Inr q"
  shows "accepted p [e] \<and> incoming_call (project p [e]) = incoming_call q \<and>
         active_call (project p [e]) = active_call q"
  using assms by (simp add: Projector_Apply_def Let_def)

lemma in_remove_nth: "x \<in> set (remove_nth n xs) \<Longrightarrow> x \<in> set xs"
  by (auto simp: remove_nth_def dest: in_set_takeD in_set_dropD)

text \<open>The five ways a step changes the calls, each with the event that tells the projector.\<close>

lemma mirrored_invite:
  assumes "manager_mirrored m p" "mg_incoming m = None" "mg_active m = None" "manager_wf m"
    "dlg_ID d \<noteq> ''''" "e \<noteq> ''''"
    "mg_incoming m' = Some d" "mg_incomingEntrypoint m' = e" "mg_activeIncoming m' = mg_activeIncoming m"
  shows "accepted p [IncomingCallStarted (dlg_ID d) e] \<and>
         manager_mirrored m' (project p [IncomingCallStarted (dlg_ID d) e])"
  using assms by (auto simp: manager_mirrored_def manager_wf_def projector_defs)

lemma mirrored_ended:
  assumes "manager_mirrored m p" "mg_incoming m = Some d" "manager_wf m"
    "mg_incoming m' = None" "mg_activeIncoming m' = mg_activeIncoming m"
    "ev \<in> {IncomingCallEnded (dlg_ID d) r, CallDeclined (dlg_ID d), CallHungUp (dlg_ID d)}"
  shows "accepted p [ev] \<and> manager_mirrored m' (project p [ev])"
  using assms by (auto simp: manager_mirrored_def manager_wf_def projector_defs split: option.splits)

lemma mirrored_answered:
  assumes "manager_mirrored m p" "mg_incoming m = Some d"
    "mg_incoming m' = None" "mg_activeIncoming m'" "mg_activeID m' = dlg_ID d"
    "mg_activeEntrypoint m' = mg_incomingEntrypoint m"
  shows "accepted p [CallAnswered (dlg_ID d)] \<and> manager_mirrored m' (project p [CallAnswered (dlg_ID d)])"
  using assms by (auto simp: manager_mirrored_def projector_defs)

lemma mirrored_hung_up:
  assumes "manager_mirrored m p" "mg_active m = Some (AnsweredDialog d)" "manager_wf m"
    "mg_incoming m' = None" "\<not> mg_activeIncoming m'"
  shows "accepted p [CallHungUp (dlg_ID d)] \<and> manager_mirrored m' (project p [CallHungUp (dlg_ID d)])"
  using assms by (auto simp: manager_mirrored_def manager_wf_def projector_defs)

lemma mirrored_silent:
  assumes "manager_mirrored m p" "mg_incoming m' = mg_incoming m"
    "mg_incomingEntrypoint m' = mg_incomingEntrypoint m" "mg_activeIncoming m' = mg_activeIncoming m"
    "mg_activeID m' = mg_activeID m" "mg_activeEntrypoint m' = mg_activeEntrypoint m"
  shows "manager_mirrored m' p"
  using assms by (simp add: manager_mirrored_def)


lemma manager_wf_queue [simp]:
  "manager_wf (m\<lparr>mg_pending := q\<rparr>) = manager_wf m"
  "manager_wf (m\<lparr>mg_draining := b\<rparr>) = manager_wf m"
  "manager_mirrored (m\<lparr>mg_pending := q\<rparr>) p = manager_mirrored m p"
  "manager_mirrored (m\<lparr>mg_draining := b\<rparr>) p = manager_mirrored m p"
  by (auto simp: manager_wf_def manager_mirrored_def split: option.splits OutgoingDialog.splits)

lemma unqueued_simps [simp]:
  "sg_manager (unqueued s) = (sg_manager s)\<lparr>mg_pending := [], mg_draining := False\<rparr>"
  "sg_answering (unqueued s) = sg_answering s" "sg_next (unqueued s) = sg_next s"
  "signaling_wf (unqueued s) = signaling_wf s" "sig_rel (unqueued s) p = sig_rel s p"
  by (simp_all add: unqueued_def signaling_wf_def sig_rel_def)

text \<open>
  What a step does to the manager: nothing the projector sees, a reservation, the end of the ringing
  call, its answer, or the end of the active call. The queue grows by the events of the step.
\<close>

inductive commit :: "Signaling \<Rightarrow> Manager \<Rightarrow> event list \<Rightarrow> Manager \<Rightarrow> bool" for s m where
  c_silent: "commit s m [] m"
| c_dialled: "mg_incoming m = None \<Longrightarrow> mg_active m = None \<Longrightarrow>
    commit s m [] (m\<lparr>mg_active := Some (DialledDialog r)\<rparr>)"
| c_invite: "mg_incoming m = None \<Longrightarrow> mg_active m = None \<Longrightarrow> e \<noteq> '''' \<Longrightarrow> i \<noteq> '''' \<Longrightarrow> 0 < t \<Longrightarrow>
    d = \<lparr>dlg_ref = sg_next s, dlg_ID = i\<rparr> \<Longrightarrow>
    commit s m [IncomingCallStarted i e]
      (m\<lparr>mg_incoming := Some d, mg_incomingDevAddr := a, mg_incomingEntrypoint := e,
         mg_incomingExpiry := Some (d, t)\<rparr>)"
| c_ended: "mg_incoming m = Some d \<Longrightarrow>
    ev \<in> {IncomingCallEnded (dlg_ID d) r, CallDeclined (dlg_ID d), CallHungUp (dlg_ID d)} \<Longrightarrow>
    commit s m [ev]
      (m\<lparr>mg_incomingExpiry := None, mg_incoming := None, mg_incomingDevAddr := '''', mg_incomingEntrypoint := ''''\<rparr>)"
| c_answered: "mg_incoming m = Some d \<Longrightarrow> (d, e) \<in> set (sg_answering s) \<Longrightarrow>
    commit s m [CallAnswered (dlg_ID d)]
      (m\<lparr>mg_incomingExpiry := None, mg_incoming := None, mg_incomingDevAddr := '''', mg_incomingEntrypoint := '''',
         mg_active := Some (AnsweredDialog d), mg_activeID := dlg_ID d, mg_activeIncoming := True,
         mg_activeEntrypoint := e\<rparr>)"
| c_hung_up: "mg_active m \<noteq> None \<Longrightarrow>
    commit s m (if mg_activeID m = '''' then [] else [CallHungUp (mg_activeID m)])
      (m\<lparr>mg_active := None, mg_activeID := '''', mg_activeIncoming := False, mg_activeEntrypoint := ''''\<rparr>)"

lemma defaultIncomingTimeout_pos: "0 < defaultIncomingTimeout"
  by (simp add: defaultIncomingTimeout_def second_def)

text \<open>Every step is such a commit with its events appended to the queue, and a drain for them.\<close>

definition published :: "Manager \<Rightarrow> event list \<Rightarrow> Manager \<Rightarrow> bool" where
  "published m es m' \<longleftrightarrow>
     (\<exists>b. m' = m\<lparr>mg_pending := mg_pending m @ es, mg_draining := b\<rparr> \<and> (mg_draining m \<longrightarrow> b) \<and> (es \<noteq> [] \<longrightarrow> b))"

definition step_ok :: "Signaling \<Rightarrow> Manager \<Rightarrow> Manager \<Rightarrow> bool" where
  "step_ok s m m' \<longleftrightarrow> (\<exists>es m0. commit s m es m0 \<and> published m0 es m')"

lemma published_publishLocked:
  "publishLocked m ev = (m', effs) \<Longrightarrow> published m (case ev of Some e \<Rightarrow> [e] | None \<Rightarrow> []) m'"
  unfolding published_def publishLocked_eq by (cases ev) auto

lemma step_ok_publish:
  assumes "commit s m es m0" and "publishLocked m0 ev = (m', effs)"
    and "es = (case ev of Some e \<Rightarrow> [e] | None \<Rightarrow> [])"
  shows "step_ok s m m'"
  unfolding step_ok_def using assms published_publishLocked by blast

lemma step_ok_silent: "commit s m [] m' \<Longrightarrow> step_ok s m m'"
  unfolding step_ok_def published_def
  by (intro exI [of _ "[]"] exI [of _ m'] conjI exI [of _ "mg_draining m'"]) simp_all

lemma step_ok_refl [simp]: "step_ok s m m"
  by (rule step_ok_silent [OF c_silent])

lemma takeIncomingLocked_cases:
  assumes "takeIncomingLocked m x = (m', taken)"
  obtains (nothing) "taken = None" "m' = m"
  | (taken) d where "taken = Some d" "mg_incoming m = Some d" "x = None \<or> x = Some d"
      "m' = m\<lparr>mg_incomingExpiry := None, mg_incoming := None, mg_incomingDevAddr := '''', mg_incomingEntrypoint := ''''\<rparr>"
proof (cases "mg_incoming m = None \<or> x \<noteq> None \<and> x \<noteq> mg_incoming m")
  case True
  then have "taken = None \<and> m' = m" using assms by (auto simp: takeIncomingLocked_def split: option.splits if_splits)
  then show ?thesis by (intro that(1)) simp_all
next
  case False
  then obtain d where "mg_incoming m = Some d" "x = None \<or> x = Some d" by auto
  then show ?thesis using assms that(2) [of d] by (auto simp: takeIncomingLocked_def stopIncomingExpiryLocked_def)
qed

lemma clearIncoming_step:
  assumes "clearIncoming m x r = (m', effs, cleared)"
  shows "step_ok s m m'"
proof -
  obtain m0 taken where t: "takeIncomingLocked m x = (m0, taken)" by fastforce
  then show ?thesis
  proof (cases rule: takeIncomingLocked_cases)
    case nothing
    then show ?thesis using assms t by (simp add: clearIncoming_def)
  next
    case (taken d)
    with assms t obtain effs' where "publishLocked m0 (Some (IncomingCallEnded (dlg_ID d) r)) = (m', effs')"
      by (auto simp: clearIncoming_def split: prod.splits)
    moreover have "commit s m [IncomingCallEnded (dlg_ID d) r] m0"
      using c_ended [OF taken(2)] taken(4) by simp
    ultimately show ?thesis by (auto intro: step_ok_publish)
  qed
qed

lemma take_publish_step:
  assumes "takeIncomingLocked m None = (m0, Some d)" and "publishLocked m0 (Some ev) = (m', effs)"
    and "ev \<in> {CallDeclined (dlg_ID d), CallHungUp (dlg_ID d)}"
  shows "step_ok s m m'"
  using assms(1)
proof (cases rule: takeIncomingLocked_cases)
  case (taken d')
  then have "commit s m [ev] m0" using c_ended [of m d' ev CallEndReasonCancelled s] assms(1,3) by auto
  with assms(2) show ?thesis by (auto intro: step_ok_publish)
qed simp

lemma drop_active_step:
  assumes "drop_active m = (m', effs)" and "mg_active m \<noteq> None"
  shows "step_ok s m m'"
  using step_ok_publish [OF c_hung_up [OF assms(2)] assms(1) [unfolded drop_active_def]] by simp

lemma OnInvite_step:
  assumes "OnInvite m resolved \<lparr>dlg_ref = sg_next s, dlg_ID = i\<rparr> = (m', effs, reserved)" and "i \<noteq> ''''"
  shows "step_ok s m m'"
proof (cases "mg_incoming m \<noteq> None \<or> mg_active m \<noteq> None \<or> fst resolved = ''''")
  case True
  then have "OnInvite m resolved \<lparr>dlg_ref = sg_next s, dlg_ID = i\<rparr> = (m, [Respond \<lparr>dlg_ref = sg_next s, dlg_ID = i\<rparr> 486 None], False)"
    by (cases resolved) (auto simp: OnInvite_def)
  with assms(1) show ?thesis by simp
next
  case False
  let ?d = "\<lparr>dlg_ref = sg_next s, dlg_ID = i\<rparr>"
  let ?t = "if mg_incomingTimeout m \<le> 0 then defaultIncomingTimeout else mg_incomingTimeout m"
  let ?m = "m\<lparr>mg_incoming := Some ?d, mg_incomingDevAddr := snd resolved, mg_incomingEntrypoint := fst resolved,
             mg_incomingExpiry := Some (?d, ?t)\<rparr>"
  have "commit s m [IncomingCallStarted i (fst resolved)] ?m"
    using False assms(2) defaultIncomingTimeout_pos by (intro c_invite) auto
  moreover have "\<exists>effs'. publishLocked ?m (Some (IncomingCallStarted i (fst resolved))) = (m', effs')"
    using assms(1) False
    by (auto simp: OnInvite_def Let_def startIncomingExpiryLocked_def stopIncomingExpiryLocked_def split: prod.splits)
  ultimately show ?thesis by (auto intro: step_ok_publish)
qed

lemma Answer_commit_step:
  assumes "Answer_commit m d e = (m', effs, r)" and "(d, e) \<in> set (sg_answering s)"
  shows "step_ok s m m'"
proof (cases "mg_incoming m = Some d")
  case False
  then show ?thesis using assms by (auto simp: Answer_commit_def split: if_splits)
next
  case True
  from assms(1) True show ?thesis
    unfolding Answer_commit_def Let_def stopIncomingExpiryLocked_def
    by (auto split: prod.splits intro: step_ok_publish [OF c_answered [OF True assms(2)]])
qed

lemma Hangup_step:
  assumes "Hangup m busTook withdrawn response sent = (m', effs, r)"
  shows "step_ok s m m'"
proof (cases "mg_active m")
  case (Some a)
  then show ?thesis
    using assms drop_active_step [of m _ _ s] by (auto simp: Hangup_def byeActiveLocked_def Let_def split: prod.splits)
next
  case None
  obtain m0 taken where t: "takeIncomingLocked m None = (m0, taken)" by fastforce
  show ?thesis
  proof (cases taken)
    case None
    with t \<open>mg_active m = None\<close> assms have "m' = m0" by (auto simp: Hangup_def)
    with t None show ?thesis
      by (auto elim!: takeIncomingLocked_cases)
  next
    case (Some d)
    obtain m1 e1 where p: "publishLocked m0 (Some (CallHungUp (dlg_ID d))) = (m1, e1)" by fastforce
    have "m' = m1" using t Some p \<open>mg_active m = None\<close> assms
      by (auto simp: Hangup_def Let_def split: if_splits)
    with p take_publish_step [OF t [unfolded Some] p] show ?thesis by simp
  qed
qed


lemma sig_step_ok:
  assumes "sig_step s i = (s', effs)" and "sig_input_ok i"
  shows "step_ok s (sg_manager s) (sg_manager s')"
proof (cases i)
  case (AnswerSent n)
  then show ?thesis
  proof (cases "n < length (sg_answering s)")
    case True
    obtain d e where de: "sg_answering s ! n = (d, e)" by fastforce
    then have "(d, e) \<in> set (sg_answering s)" using True nth_mem by fastforce
    then show ?thesis using assms(1) AnswerSent True de Answer_commit_step [of "sg_manager s" d e _ _ _ s]
      by (auto split: prod.splits)
  qed (use assms AnswerSent in simp)
next
  case (DeclineCall sent)
  obtain m0 taken where t: "takeIncomingLocked (sg_manager s) None = (m0, taken)" by fastforce
  then show ?thesis
  proof (cases rule: takeIncomingLocked_cases)
    case nothing
    then show ?thesis using assms DeclineCall t by (auto simp: Decline_def)
  next
    case (taken d)
    obtain m1 e1 where p: "publishLocked m0 (Some (CallDeclined (dlg_ID d))) = (m1, e1)" by fastforce
    have "sg_manager s' = m1" using assms DeclineCall t taken(1) p by (auto simp: Decline_def)
    with take_publish_step [OF t [unfolded taken(1)] p] show ?thesis by simp
  qed
next
  case (Invite j resolved)
  then show ?thesis using assms OnInvite_step [of "sg_manager s" resolved s j] by (auto split: prod.splits)
next
  case (RingingFailed d)
  then show ?thesis using assms clearIncoming_step [of "sg_manager s" "Some d" _ _ _ _ s]
    by (auto simp: OnInvite_rollback_def split: prod.splits)
next
  case (Expire d)
  then show ?thesis using assms clearIncoming_step [of "sg_manager s" "Some d" _ _ _ _ s]
    by (auto simp: incoming_expired_def split: prod.splits)
next
  case (IncomingGone r)
  then show ?thesis using assms clearIncoming_step [of "sg_manager s" None _ _ _ _ s]
    by (auto simp: EndIncoming_def Let_def split: prod.splits)
next
  case (HangupAny b w r c)
  then show ?thesis using assms Hangup_step [of "sg_manager s" b w r c _ _ _ s] by (auto split: prod.splits)
next
  case (HangupActive c)
  then show ?thesis using assms drop_active_step [of "sg_manager s" _ _ s]
    by (auto simp: HangupCall_def byeActiveLocked_def split: prod.splits option.splits)
next
  case RemoteEnded
  then show ?thesis using assms drop_active_step [of "sg_manager s" _ _ s]
    by (auto simp: RemoteDialogEnded_def split: prod.splits if_splits)
next
  case (DialStream r)
  then show ?thesis using assms c_dialled [of "sg_manager s" s]
    by (auto simp: StartStream_def split: prod.splits option.splits if_splits intro: step_ok_silent)
qed (use assms in \<open>auto split: sum.splits\<close>)

text \<open>What a step does to the answers on the wire, and that the identities stay fresh.\<close>

lemma sig_step_answering:
  assumes "sig_step s i = (s', effs)"
  shows "set (sg_answering s') \<subseteq> set (sg_answering s) \<union>
           {(d, e). mg_incoming (sg_manager s) = Some d \<and> e = mg_incomingEntrypoint (sg_manager s)}"
proof (cases i)
  case AnswerStart
  then show ?thesis using assms by (auto simp: Answer_begin_def split: option.splits)
next
  case (AnswerSent n)
  then show ?thesis using assms in_remove_nth [of _ n "sg_answering s"] by (auto split: prod.splits if_splits)
next
  case (AnswerFailed n)
  then show ?thesis using assms in_remove_nth [of _ n "sg_answering s"] by auto
qed (use assms in \<open>auto split: prod.splits\<close>)

lemma sig_step_next:
  "sig_step s i = (s', effs) \<Longrightarrow> sg_next s \<le> sg_next s'"
  by (cases i) (auto split: prod.splits if_splits sum.splits)

text \<open>Only an INVITE can put a call into the incoming slot.\<close>

lemma incoming_taken:
  "takeIncomingLocked m x = (m', t) \<Longrightarrow> mg_incoming m' = None \<or> mg_incoming m' = mg_incoming m"
  by (auto simp: takeIncomingLocked_def split: option.splits if_splits)

lemma incoming_published: "publishLocked m ev = (m', effs) \<Longrightarrow> mg_incoming m' = mg_incoming m"
  by (auto simp: publishLocked_eq)

lemma incoming_take_publish:
  "takeIncomingLocked m x = (m0, t) \<Longrightarrow> publishLocked m0 ev = (m', effs) \<Longrightarrow>
   mg_incoming m' = None \<or> mg_incoming m' = mg_incoming m"
  using incoming_taken [of m x m0 t] incoming_published [of m0 ev m' effs] by auto

lemma incoming_published_fst [simp]:
  "mg_incoming (fst (publishLocked m ev)) = mg_incoming m" "mg_incoming (fst (drop_active m)) = mg_incoming m"
  by (auto simp: publishLocked_eq drop_active_def)

lemma incoming_cleared:
  "clearIncoming m x r = (m', effs, b) \<Longrightarrow> mg_incoming m' = None \<or> mg_incoming m' = mg_incoming m"
  unfolding clearIncoming_def by (auto split: prod.splits option.splits dest: incoming_taken incoming_take_publish)

lemma incoming_dropped: "drop_active m = (m', effs) \<Longrightarrow> mg_incoming m' = mg_incoming m"
  by (auto simp: drop_active_def dest: incoming_published)

lemma Hangup_manager:
  "fst (Hangup m b w r c) =
     (if mg_active m \<noteq> None then fst (drop_active m)
      else case takeIncomingLocked m None of
        (m0, None) \<Rightarrow> m0
      | (m0, Some d) \<Rightarrow> fst (publishLocked m0 (Some (CallHungUp (dlg_ID d)))))"
  by (auto simp: Hangup_def byeActiveLocked_def Let_def split: prod.splits option.splits)

lemma incoming_hangup:
  assumes "Hangup m b w r c = (m', effs, res)"
  shows "mg_incoming m' = None \<or> mg_incoming m' = mg_incoming m"
proof -
  have "m' = fst (Hangup m b w r c)" using assms by simp
  then show ?thesis
    unfolding Hangup_manager by (auto split: prod.splits option.splits if_splits dest: incoming_taken incoming_take_publish)
qed

lemma incoming_kept:
  assumes "sig_step s i = (s', effs)" and "\<And>j res. i \<noteq> Invite j res"
  shows "mg_incoming (sg_manager s') = None \<or> mg_incoming (sg_manager s') = mg_incoming (sg_manager s)"
proof (cases i)
  case (HangupAny a b c d)
  then show ?thesis using assms(1) by (auto split: prod.splits dest: incoming_hangup)
next
  case (RingingFailed d)
  then show ?thesis using assms(1) by (auto simp: OnInvite_rollback_def split: prod.splits dest: incoming_cleared)
next
  case (Expire d)
  then show ?thesis using assms(1) by (auto simp: incoming_expired_def split: prod.splits dest: incoming_cleared)
next
  case (IncomingGone r)
  then show ?thesis using assms(1) by (auto simp: EndIncoming_def Let_def split: prod.splits dest: incoming_cleared)
next
  case (DeclineCall b)
  then show ?thesis using assms(1) by (auto simp: Decline_def split: prod.splits option.splits dest: incoming_taken incoming_take_publish)
next
  case (AnswerSent n)
  then show ?thesis using assms(1)
    by (auto simp: Answer_commit_def Let_def stopIncomingExpiryLocked_def split: prod.splits if_splits
        dest: incoming_published)
next
  case (HangupActive b)
  then show ?thesis using assms(1)
    by (auto simp: HangupCall_def byeActiveLocked_def split: prod.splits option.splits dest: incoming_dropped)
next
  case RemoteEnded
  then show ?thesis using assms(1)
    by (auto simp: RemoteDialogEnded_def split: prod.splits if_splits dest: incoming_dropped)
next
  case (DialStream r)
  then show ?thesis using assms(1) by (auto simp: StartStream_def split: prod.splits if_splits option.splits)
next
  case AnswerStart
  then show ?thesis using assms(1) by (auto split: sum.splits)
next
  case (AnswerFailed n)
  then show ?thesis using assms(1) by auto
qed (use assms(2) in auto)

lemma sig_step_fresh:
  assumes "sig_step s i = (s', effs)" and "mg_incoming (sg_manager s') = Some d"
    and "mg_incoming (sg_manager s) \<noteq> Some d"
  shows "dlg_ref d = sg_next s \<and> sg_next s' = Suc (sg_next s)"
proof (cases "\<exists>j res. i = Invite j res")
  case True
  then show ?thesis using assms
    by (auto simp: OnInvite_def manager_defs split: prod.splits if_splits)
next
  case False
  then show ?thesis using incoming_kept [OF assms(1)] assms(2,3) by auto
qed

lemma commit_wf: "commit s m es m' \<Longrightarrow> signaling_wf s \<Longrightarrow> m = sg_manager s \<Longrightarrow> manager_wf m'"
  by (induction rule: commit.induct)
    (auto simp: manager_wf_def signaling_wf_def split: option.splits OutgoingDialog.splits)

lemma commit_mirrored:
  assumes "commit s m es m'" and "signaling_wf s" and "m = sg_manager s" and "manager_mirrored m p"
  shows "accepted p es \<and> manager_mirrored m' (project p es)"
  using assms(1)
proof cases
  case c_silent
  then show ?thesis using assms by simp
next
  case (c_dialled r)
  then show ?thesis using assms by (simp add: manager_mirrored_def)
next
  case (c_invite e i t d a)
  then show ?thesis using mirrored_invite [OF assms(4), of d e m'] assms(2,3) by (simp add: signaling_wf_def)
next
  case (c_ended d ev r)
  then show ?thesis using mirrored_ended [OF assms(4), of d m' ev r] assms(2,3) by (simp add: signaling_wf_def)
next
  case (c_answered d e)
  moreover have "e = mg_incomingEntrypoint m" using c_answered assms(2,3) by (auto simp: signaling_wf_def)
  ultimately show ?thesis using mirrored_answered [OF assms(4), of d m'] by simp
next
  case c_hung_up
  then obtain a where a: "mg_active m = Some a" by auto
  have w: "manager_wf m" using assms(2,3) by (simp add: signaling_wf_def)
  show ?thesis
  proof (cases a)
    case (AnsweredDialog d)
    then show ?thesis
      using mirrored_hung_up [OF assms(4), of d m'] a w c_hung_up by (simp add: manager_wf_def)
  next
    case (DialledDialog r)
    then show ?thesis using a w c_hung_up assms(4) by (simp add: manager_wf_def manager_mirrored_def)
  qed
qed


lemma commit_frame:
  assumes "commit s m es m'"
  shows "mg_pending m' = mg_pending m" and "mg_draining m' = mg_draining m"
    and "mg_incoming m = Some d \<Longrightarrow> mg_incoming m' = Some d \<Longrightarrow>
         mg_incomingEntrypoint m' = mg_incomingEntrypoint m"
    and "mg_events m' = mg_events m"
  using assms by (cases; force)+

lemma commit_single: "commit s m es m' \<Longrightarrow> es = [] \<or> (\<exists>e. es = [e] \<and> call_event e)"
  by (cases rule: commit.cases) (auto split: if_splits)

lemma published_unqueued:
  "published m es m' \<Longrightarrow>
   m'\<lparr>mg_pending := [], mg_draining := False\<rparr> = m\<lparr>mg_pending := [], mg_draining := False\<rparr>"
  by (auto simp: published_def)

lemma published_pending: "published m es m' \<Longrightarrow> mg_pending m' = mg_pending m @ es"
  by (auto simp: published_def)

lemma sig_step_wf:
  assumes "signaling_wf s" and "sig_step s i = (s', effs)" and "sig_input_ok i"
  shows "signaling_wf s'"
proof -
  from sig_step_ok [OF assms(2,3)] obtain es m0 where c: "commit s (sg_manager s) es m0"
    and pub: "published m0 es (sg_manager s')" unfolding step_ok_def by blast
  have f: "mg_incoming (sg_manager s') = mg_incoming m0"
    "mg_incomingEntrypoint (sg_manager s') = mg_incomingEntrypoint m0"
    using pub by (auto simp: published_def)
  have "manager_wf (sg_manager s')" using commit_wf [OF c assms(1)] pub by (auto simp: published_def)
  moreover have n: "sg_next s \<le> sg_next s'" by (rule sig_step_next [OF assms(2)])
  moreover have ref: "dlg_ref d < sg_next s'" if "mg_incoming (sg_manager s') = Some d" for d
    using sig_step_fresh [OF assms(2) that] assms(1) n
    by (cases "mg_incoming (sg_manager s) = Some d") (auto simp: signaling_wf_def)
  moreover have "dlg_ref d < sg_next s' \<and>
      (mg_incoming (sg_manager s') = Some d \<longrightarrow> e = mg_incomingEntrypoint (sg_manager s'))"
    if de: "(d, e) \<in> set (sg_answering s')" for d e
  proof -
    from sig_step_answering [OF assms(2)] de assms(1)
    have o: "dlg_ref d < sg_next s \<and> (mg_incoming (sg_manager s) = Some d \<longrightarrow> e = mg_incomingEntrypoint (sg_manager s))"
      by (auto simp: signaling_wf_def)
    have "e = mg_incomingEntrypoint (sg_manager s')" if i: "mg_incoming (sg_manager s') = Some d"
    proof -
      have j: "mg_incoming (sg_manager s) = Some d" using sig_step_fresh [OF assms(2) i] o by fastforce
      with commit_frame(3) [OF c j] f i o show ?thesis by simp
    qed
    with o n show ?thesis by simp
  qed
  ultimately show ?thesis by (auto simp: signaling_wf_def)
qed

lemma sig_commit_props:
  assumes "sig_commit s i = (s', es)" and "sig_input_ok i"
  shows "\<exists>m0. commit (unqueued s) (sg_manager (unqueued s)) es m0 \<and>
              sg_manager s' = m0\<lparr>mg_pending := [], mg_draining := False\<rparr>"
proof -
  obtain s1 effs where s1: "sig_step (unqueued s) i = (s1, effs)" by fastforce
  then have s': "s' = unqueued s1" "es = mg_pending (sg_manager s1)" using assms(1) by (auto simp: sig_commit_def Let_def)
  from sig_step_ok [OF s1 assms(2)] obtain fs m0 where c: "commit (unqueued s) (sg_manager (unqueued s)) fs m0"
    and pub: "published m0 fs (sg_manager s1)" unfolding step_ok_def by blast
  have "es = fs" using commit_frame(1) [OF c] published_pending [OF pub] s' by simp
  with c published_unqueued [OF pub] s' show ?thesis by auto
qed

lemma sig_rel_foreign:
  "sig_rel s p \<Longrightarrow> \<not> call_event e \<Longrightarrow> sig_rel s (fst (Projector_Apply p e))"
  by (cases e) (auto simp: sig_rel_def manager_mirrored_def projector_defs split: option.splits)

interpretation signaling: projector_source sig_commit sig_input_ok call_event sig_rel
proof
  fix s i s' es
  assume "sig_input_ok i" "sig_commit s i = (s', es)"
  then show "es = [] \<or> (\<exists>e. es = [e])"
    using sig_commit_props [of s i s' es] commit_single by blast
next
  fix s p i s' es
  assume r: "sig_rel s p" and ok: "sig_input_ok i" and c: "sig_commit s i = (s', es)"
  obtain s1 effs where s1: "sig_step (unqueued s) i = (s1, effs)" by fastforce
  have w: "signaling_wf (unqueued s)" using r by (simp add: sig_rel_def)
  have w': "signaling_wf s'" using sig_step_wf [OF w s1 ok] c s1 by (auto simp: sig_commit_def Let_def)
  from sig_commit_props [OF c ok] obtain m0 where m0: "commit (unqueued s) (sg_manager (unqueued s)) es m0"
    "sg_manager s' = m0\<lparr>mg_pending := [], mg_draining := False\<rparr>" by blast
  from commit_mirrored [OF m0(1) w refl] r have "accepted p es \<and> manager_mirrored m0 (project p es)"
    by (simp add: sig_rel_def)
  with w' m0(2) show "accepted p es \<and> sig_rel s' (project p es)" by (simp add: sig_rel_def)
next
  fix s p e
  assume "sig_rel s p" "\<not> call_event e"
  then show "sig_rel s (fst (Projector_Apply p e))" by (rule sig_rel_foreign)
qed


section \<open>The publish queue\<close>

text \<open>
  The manager, the number of drain goroutines that run (a step starts one for each \<open>GoDrainEvents\<close>, and one whose
  round finds the queue empty ends), the event a drain took from the queue but has not delivered yet, and the
  projector behind the sink. There is one such event at most, as the invariant below allows one drain.
  \<open>OtherEvent\<close> is an event another component applies to the projector.
\<close>

record sig_system =
  sy_signaling :: Signaling
  sy_drains :: nat
  sy_held :: "event option"
  sy_projector :: State

datatype sys_act = Operation sig_input | DrainTake | DrainDeliver | OtherEvent event

fun sys_step :: "sys_act \<Rightarrow> sig_system \<Rightarrow> sig_system \<times> bool" where
  "sys_step (Operation i) c =
     (case sig_step (sy_signaling c) i of
        (s, effs) \<Rightarrow>
          (c\<lparr>sy_signaling := s, sy_drains := sy_drains c + length (filter (\<lambda>e. e = GoDrainEvents) effs)\<rparr>, True))"
| "sys_step DrainTake c =
     (let s = sy_signaling c in
      if 0 < sy_drains c \<and> sy_held c = None then
        (case drainEvents_round (sg_manager s) of
           (m, held) \<Rightarrow>
             (c\<lparr>sy_signaling := s\<lparr>sg_manager := m\<rparr>, sy_held := held,
                sy_drains := (if held = None then sy_drains c - 1 else sy_drains c)\<rparr>, True))
      else (c, True))"
| "sys_step DrainDeliver c =
     (case sy_held c of
        None \<Rightarrow> (c, True)
      | Some e \<Rightarrow>
          if mg_events (sg_manager (sy_signaling c)) then
            (case Projector_Apply (sy_projector c) e of
               (p, r) \<Rightarrow> (c\<lparr>sy_held := None, sy_projector := p\<rparr>, is_Ok r))
          else (c\<lparr>sy_held := None\<rparr>, True))"
| "sys_step (OtherEvent e) c = (c\<lparr>sy_projector := fst (Projector_Apply (sy_projector c) e)\<rparr>, True)"

fun sys_run :: "sys_act list \<Rightarrow> sig_system \<Rightarrow> sig_system \<times> bool" where
  "sys_run [] c = (c, True)"
| "sys_run (a # as) c =
     (case sys_step a c of (c', ok) \<Rightarrow> (case sys_run as c' of (d, oks) \<Rightarrow> (d, ok \<and> oks)))"

fun sys_act_ok :: "sys_act \<Rightarrow> bool" where
  "sys_act_ok (Operation i) = sig_input_ok i"
| "sys_act_ok (OtherEvent e) = (\<not> call_event e)"
| "sys_act_ok _ = True"

definition unq :: "Manager \<Rightarrow> Manager" where
  "unq m = m\<lparr>mg_pending := [], mg_draining := False\<rparr>"

text \<open>A step does the same whatever is queued before it, and only appends to the queue.\<close>

definition queue_blind :: "Manager \<Rightarrow> Manager \<Rightarrow> Manager \<Rightarrow> bool" where
  "queue_blind m m' n \<longleftrightarrow> unq n = unq m' \<and> mg_pending m' = mg_pending m @ mg_pending n"

lemma unq_fields [simp]:
  "mg_incoming (unq m) = mg_incoming m" "mg_active (unq m) = mg_active m" "mg_activeID (unq m) = mg_activeID m"
  "mg_activeIncoming (unq m) = mg_activeIncoming m" "mg_incomingEntrypoint (unq m) = mg_incomingEntrypoint m"
  "mg_incomingDevAddr (unq m) = mg_incomingDevAddr m" "mg_incomingTimeout (unq m) = mg_incomingTimeout m"
  "mg_pending (unq m) = []" "mg_draining (unq m) = False" "unq (unq m) = unq m"
  by (simp_all add: unq_def)

lemma queue_blind_refl: "queue_blind m m (unq m)"
  by (simp add: queue_blind_def)

lemma publishLocked_blind:
  assumes "unq n = unq m" and "mg_pending n = []" and "mg_draining n = False" and "mg_pending m = mg_pending m0"
  shows "queue_blind m0 (fst (publishLocked m ev)) (fst (publishLocked n ev))"
  using assms by (cases ev) (simp_all add: queue_blind_def publishLocked_eq unq_def)

lemma takeIncomingLocked_unq:
  "takeIncomingLocked (unq m) x = (case takeIncomingLocked m x of (m', t) \<Rightarrow> (unq m', t))"
  by (auto simp: takeIncomingLocked_def stopIncomingExpiryLocked_def unq_def split: option.splits)

lemma takeIncomingLocked_pending: "takeIncomingLocked m x = (m', t) \<Longrightarrow> mg_pending m' = mg_pending m"
  by (auto simp: takeIncomingLocked_def stopIncomingExpiryLocked_def split: option.splits if_splits)

lemma take_publish_blind:
  assumes "takeIncomingLocked m x = (m', t)"
  shows "queue_blind m m' (unq m')" "queue_blind m (fst (publishLocked m' ev)) (fst (publishLocked (unq m') ev))"
  using takeIncomingLocked_pending [OF assms] by (simp_all add: queue_blind_def [of _ m'] publishLocked_blind)

lemma clearIncoming_blind:
  "queue_blind m (fst (clearIncoming m x r)) (fst (clearIncoming (unq m) x r))"
proof -
  obtain m' t where t: "takeIncomingLocked m x = (m', t)" by fastforce
  show ?thesis using take_publish_blind [OF t]
    by (cases t) (simp_all add: clearIncoming_def takeIncomingLocked_unq t case_prod_beta)
qed

lemma drop_active_blind: "queue_blind m (fst (drop_active m)) (fst (drop_active (unq m)))"
  unfolding drop_active_def unq_fields by (rule publishLocked_blind) (simp_all add: unq_def)

lemma Hangup_blind: "queue_blind m (fst (Hangup m b w r c)) (fst (Hangup (unq m) b w r c))"
proof -
  obtain m' t where t: "takeIncomingLocked m None = (m', t)" by fastforce
  show ?thesis unfolding Hangup_manager takeIncomingLocked_unq unq_fields
    using take_publish_blind [OF t] drop_active_blind [of m] by (cases t) (simp_all add: t)
qed

lemma OnInvite_blind: "queue_blind m (fst (OnInvite m res d)) (fst (OnInvite (unq m) res d))"
  by (cases res) (simp add: queue_blind_def OnInvite_def manager_defs unq_def)

lemma Answer_commit_blind: "queue_blind m (fst (Answer_commit m d e)) (fst (Answer_commit (unq m) d e))"
  by (simp add: queue_blind_def Answer_commit_def manager_defs unq_def)

lemma Decline_blind: "queue_blind m (fst (Decline m b)) (fst (Decline (unq m) b))"
proof -
  obtain m' t where t: "takeIncomingLocked m None = (m', t)" by fastforce
  show ?thesis using take_publish_blind [OF t]
    by (cases t) (simp_all add: Decline_def takeIncomingLocked_unq t case_prod_beta)
qed

lemma sig_step_blind:
  "queue_blind (sg_manager s) (sg_manager (fst (sig_step s i))) (sg_manager (fst (sig_step (unqueued s) i))) \<and>
   sg_answering (fst (sig_step (unqueued s) i)) = sg_answering (fst (sig_step s i)) \<and>
   sg_next (fst (sig_step (unqueued s) i)) = sg_next (fst (sig_step s i))"
proof -
  have u: "sg_manager (unqueued s) = unq (sg_manager s)" by (simp add: unq_def)
  show ?thesis
  proof (cases i)
    case (Invite j res)
    then show ?thesis unfolding Invite sig_step.simps u by (simp add: case_prod_beta OnInvite_blind del: unqueued_simps(1))
  next
    case (RingingFailed d)
    then show ?thesis
      unfolding RingingFailed sig_step.simps u OnInvite_rollback_def
      by (simp add: case_prod_beta clearIncoming_blind del: unqueued_simps(1))
  next
    case (Expire d)
    then show ?thesis
      unfolding Expire sig_step.simps u incoming_expired_def
      by (simp add: case_prod_beta clearIncoming_blind del: unqueued_simps(1))
  next
    case (IncomingGone r)
    then show ?thesis
      unfolding IncomingGone sig_step.simps u EndIncoming_def Let_def
      by (simp add: case_prod_beta clearIncoming_blind del: unqueued_simps(1))
  next
    case (DeclineCall b)
    then show ?thesis unfolding DeclineCall sig_step.simps u by (simp add: case_prod_beta Decline_blind del: unqueued_simps(1))
  next
    case (HangupAny a b c d)
    then show ?thesis unfolding HangupAny sig_step.simps u by (simp add: case_prod_beta Hangup_blind del: unqueued_simps(1))
  next
    case (AnswerSent n)
    then show ?thesis unfolding AnswerSent sig_step.simps u
      by (simp add: case_prod_beta Answer_commit_blind queue_blind_refl u del: unqueued_simps(1))
  next
    case (HangupActive b)
    then show ?thesis unfolding HangupActive sig_step.simps u HangupCall_def byeActiveLocked_def
      by (cases "mg_active (sg_manager s)")
        (simp_all add: case_prod_beta drop_active_blind queue_blind_refl del: unqueued_simps(1))
  next
    case RemoteEnded
    then show ?thesis unfolding RemoteEnded sig_step.simps u RemoteDialogEnded_def
      by (simp add: case_prod_beta drop_active_blind queue_blind_refl del: unqueued_simps(1))
  next
    case (DialStream r)
    then show ?thesis unfolding DialStream sig_step.simps u StartStream_def
      by (cases r) (simp_all add: queue_blind_refl queue_blind_def unq_def del: unqueued_simps(1))
  next
    case AnswerStart
    then show ?thesis unfolding AnswerStart sig_step.simps u Answer_begin_def
      by (cases "mg_incoming (sg_manager s)") (simp_all add: queue_blind_refl u del: unqueued_simps(1))
  next
    case (AnswerFailed n)
    then show ?thesis by (simp add: queue_blind_refl u del: unqueued_simps(1))
  qed
qed


lemma sig_commit_real:
  assumes "sig_step s i = (s', effs)"
  shows "\<exists>es. sig_commit (unqueued s) i = (unqueued s', es) \<and>
              mg_pending (sg_manager s') = mg_pending (sg_manager s) @ es"
proof -
  let ?t = "fst (sig_step (unqueued s) i)"
  have u: "unqueued (unqueued s) = unqueued s" by (simp add: unqueued_def)
  from sig_step_blind [of s i] assms
  have b: "queue_blind (sg_manager s) (sg_manager s') (sg_manager ?t)"
    "sg_answering ?t = sg_answering s'" "sg_next ?t = sg_next s'" by simp_all
  then have "unqueued ?t = unqueued s'"
    by (simp add: unqueued_def queue_blind_def unq_def)
  with b(1) show ?thesis by (auto simp: sig_commit_def Let_def u queue_blind_def)
qed

definition sys_view :: "sig_system \<Rightarrow> Signaling delivery" where
  "sys_view c =
     \<lparr>dl_source = unqueued (sy_signaling c),
      dl_queue = (case sy_held c of Some e \<Rightarrow> [e] | None \<Rightarrow> []) @ mg_pending (sg_manager (sy_signaling c)),
      dl_projector = sy_projector c\<rparr>"

definition queue_inv :: "sig_system \<Rightarrow> bool" where
  "queue_inv c \<longleftrightarrow>
     mg_events (sg_manager (sy_signaling c)) \<and>
     sy_drains c = of_bool (mg_draining (sg_manager (sy_signaling c))) \<and>
     (mg_pending (sg_manager (sy_signaling c)) \<noteq> [] \<or> sy_held c \<noteq> None \<longrightarrow> mg_draining (sg_manager (sy_signaling c)))"

fun view_acts :: "sys_act \<Rightarrow> sig_system \<Rightarrow> sig_input act list" where
  "view_acts (Operation i) c = [Own i]"
| "view_acts DrainTake c = []"
| "view_acts DrainDeliver c = (if sy_held c = None then [] else [Deliver])"
| "view_acts (OtherEvent e) c = [Foreign e]"

lemma sig_step_queue:
  assumes "sig_step s i = (s', effs)" and "sig_input_ok i" and "mg_events (sg_manager s)"
    and "mg_pending (sg_manager s) \<noteq> [] \<longrightarrow> mg_draining (sg_manager s)"
  shows "mg_events (sg_manager s')" and "mg_draining (sg_manager s) \<longrightarrow> mg_draining (sg_manager s')"
    and "mg_pending (sg_manager s') \<noteq> [] \<longrightarrow> mg_draining (sg_manager s')"
proof -
  from sig_step_ok [OF assms(1,2)] obtain es m0 where c: "commit s (sg_manager s) es m0"
    and pub: "published m0 es (sg_manager s')" unfolding step_ok_def by blast
  show "mg_events (sg_manager s')" using commit_frame(4) [OF c] pub assms(3) by (auto simp: published_def)
  show "mg_draining (sg_manager s) \<longrightarrow> mg_draining (sg_manager s')"
    "mg_pending (sg_manager s') \<noteq> [] \<longrightarrow> mg_draining (sg_manager s')"
    using commit_frame(1,2) [OF c] pub assms(4) by (auto simp: published_def)
qed

text \<open>A step starts a drain exactly when it raises the flag that says one is running.\<close>

abbreviation drains :: "effect list \<Rightarrow> nat" where
  "drains effs \<equiv> length (filter (\<lambda>e. e = GoDrainEvents) effs)"

definition starts_drain :: "Manager \<Rightarrow> effect list \<Rightarrow> Manager \<Rightarrow> bool" where
  "starts_drain m effs m' \<longleftrightarrow> drains effs + of_bool (mg_draining m) = of_bool (mg_draining m')"

lemma starts_drain_simps [simp]:
  "starts_drain m [] m" "e \<noteq> GoDrainEvents \<Longrightarrow> starts_drain m (e # effs) m' = starts_drain m effs m'"
  "drains xs = 0 \<Longrightarrow> starts_drain m (effs @ xs) m' = starts_drain m effs m'"
  by (simp_all add: starts_drain_def)

lemma drains_publish: "mg_draining m = mg_draining n \<Longrightarrow> publishLocked m ev = (m', effs) \<Longrightarrow> starts_drain n effs m'"
  by (auto simp: publishLocked_def starts_drain_def Let_def split: option.splits if_splits)

lemma drains_take: "takeIncomingLocked m x = (m', t) \<Longrightarrow> mg_draining m' = mg_draining m"
  by (auto simp: takeIncomingLocked_def stopIncomingExpiryLocked_def split: option.splits if_splits)

lemma drains_same: "mg_draining m' = mg_draining m \<Longrightarrow> starts_drain m [] m'"
  by (simp add: starts_drain_def)

lemma drains_clear:
  assumes "clearIncoming m x r = (m', effs, cleared)"
  shows "starts_drain m effs m'"
proof -
  obtain m0 t where t: "takeIncomingLocked m x = (m0, t)" by fastforce
  then show ?thesis using assms drains_take [OF t]
    by (cases t) (auto simp: clearIncoming_def drains_same dest: drains_publish [OF drains_take [OF t]] split: prod.splits)
qed

lemma drains_drop: "drop_active m = (m', effs) \<Longrightarrow> starts_drain m effs m'"
  unfolding drop_active_def by (erule drains_publish [rotated]) simp

lemma drains_hangup:
  assumes "Hangup m b w r c = (m', effs, res)"
  shows "starts_drain m effs m'"
proof -
  obtain m0 t where t: "takeIncomingLocked m None = (m0, t)" by fastforce
  obtain m1 e1 where d: "drop_active m = (m1, e1)" by fastforce
  show ?thesis
  proof (cases t)
    case None
    then show ?thesis using assms t d drains_take [OF t] drains_drop [OF d]
      by (auto simp: Hangup_def byeActiveLocked_def Let_def drains_same split: option.splits)
  next
    case (Some dlg)
    obtain m2 e2 where p: "publishLocked m0 (Some (CallHungUp (dlg_ID dlg))) = (m2, e2)" by fastforce
    show ?thesis using assms t d p Some drains_publish [OF drains_take [OF t] p] drains_drop [OF d]
      by (auto simp: Hangup_def byeActiveLocked_def Let_def split: option.splits if_splits)
  qed
qed

lemma drains_decline:
  assumes "Decline m b = (m', effs, res)"
  shows "starts_drain m effs m'"
proof -
  obtain m0 t where t: "takeIncomingLocked m None = (m0, t)" by fastforce
  then show ?thesis using assms drains_take [OF t]
    by (cases t) (auto simp: Decline_def drains_same dest: drains_publish [OF drains_take [OF t]] split: prod.splits)
qed

lemma drains_invite: "OnInvite m res d = (m', effs, ok) \<Longrightarrow> starts_drain m effs m'"
  by (auto simp: OnInvite_def startIncomingExpiryLocked_def stopIncomingExpiryLocked_def Let_def elim!: drains_publish [rotated] split: prod.splits if_splits)

lemma drains_answer: "Answer_commit m d e = (m', effs, res) \<Longrightarrow> starts_drain m effs m'"
  by (auto simp: Answer_commit_def stopIncomingExpiryLocked_def Let_def elim!: drains_publish [rotated] split: prod.splits if_splits)

lemma drains_step:
  assumes "sig_step s i = (s', effs)"
  shows "starts_drain (sg_manager s) effs (sg_manager s')"
proof (cases i)
  case (DialStream r)
  then show ?thesis using assms by (auto simp: StartStream_def drains_same split: option.splits prod.splits if_splits)
next
  case (RingingFailed d)
  then show ?thesis using assms by (auto simp: OnInvite_rollback_def dest: drains_clear split: prod.splits if_splits)
next
  case (Expire d)
  then show ?thesis using assms by (auto simp: incoming_expired_def dest: drains_clear split: prod.splits if_splits)
next
  case (IncomingGone r)
  then show ?thesis using assms by (auto simp: EndIncoming_def Let_def dest: drains_clear split: prod.splits)
next
  case (HangupActive b)
  then show ?thesis using assms
    by (auto simp: HangupCall_def byeActiveLocked_def dest: drains_drop split: prod.splits option.splits)
next
  case RemoteEnded
  then show ?thesis using assms by (auto simp: RemoteDialogEnded_def dest: drains_drop split: prod.splits option.splits if_splits)
qed (use assms in \<open>auto dest: drains_invite drains_hangup drains_decline drains_answer split: prod.splits if_splits sum.splits\<close>)

text \<open>The queue in the manager and the drain goroutine implement the delivery of the contract.\<close>

lemma sys_step_sim:
  assumes "queue_inv c" and "sys_act_ok a" and "sys_step a c = (c', ok)"
  shows "queue_inv c' \<and> list_all (act_ok sig_input_ok call_event) (view_acts a c) \<and>
         source_run sig_commit (view_acts a c) (sys_view c) = (sys_view c', ok)"
proof (cases a)
  case (Operation i)
  obtain s' effs where s': "sig_step (sy_signaling c) i = (s', effs)" by fastforce
  have "queue_inv c'"
    using sig_step_queue [OF s'] drains_step [OF s'] Operation assms s' by (auto simp: queue_inv_def starts_drain_def)
  moreover from sig_commit_real [OF s'] Operation assms(3) s'
  have "source_run sig_commit [Own i] (sys_view c) = (sys_view c', ok)"
    by (auto simp: sys_view_def split: option.splits)
  ultimately show ?thesis using Operation assms(2) by simp
next
  case DrainTake
  show ?thesis
  proof (cases "mg_pending (sg_manager (sy_signaling c))")
    case Nil
    then show ?thesis using assms DrainTake
      by (auto simp: Let_def drainEvents_round_def queue_inv_def sys_view_def unqueued_def split: if_splits)
  next
    case (Cons e q)
    then show ?thesis using assms DrainTake
      by (auto simp: Let_def drainEvents_round_def queue_inv_def sys_view_def unqueued_def split: if_splits)
  qed
next
  case DrainDeliver
  show ?thesis
  proof (cases "sy_held c")
    case None
    then show ?thesis using assms DrainDeliver by simp
  next
    case (Some e)
    then show ?thesis using assms DrainDeliver
      by (auto simp: queue_inv_def sys_view_def split: prod.splits if_splits)
  qed
next
  case (OtherEvent e)
  then show ?thesis using assms by (auto simp: queue_inv_def sys_view_def)
qed

definition sys_inv :: "sig_system \<Rightarrow> bool" where
  "sys_inv c \<longleftrightarrow>
     queue_inv c \<and>
     (\<exists>m is. sig_rel m (dl_projector (sys_view c)) \<and> list_all sig_input_ok is \<and>
             emits sig_commit m is = (dl_source (sys_view c), dl_queue (sys_view c)))"

lemma sys_run_inv:
  "sys_inv c \<Longrightarrow> list_all sys_act_ok as \<Longrightarrow> sys_run as c = (d, ok) \<Longrightarrow> ok \<and> sys_inv d"
proof (induction as arbitrary: c ok)
  case Nil
  then show ?case by simp
next
  case (Cons a as)
  obtain c' ok' where s: "sys_step a c = (c', ok')" by fastforce
  from Cons.prems(1) have q: "queue_inv c" by (simp add: sys_inv_def)
  from Cons.prems(2) have a: "sys_act_ok a" by simp
  from sys_step_sim [OF q a s] have sim: "queue_inv c'" "list_all (act_ok sig_input_ok call_event) (view_acts a c)"
    "source_run sig_commit (view_acts a c) (sys_view c) = (sys_view c', ok')" by simp_all
  from Cons.prems(1) have "\<exists>m is. sig_rel m (dl_projector (sys_view c)) \<and> list_all sig_input_ok is \<and>
     emits sig_commit m is = (dl_source (sys_view c), dl_queue (sys_view c))" by (simp add: sys_inv_def)
  from signaling.run_invariant [OF this sim(2,3)] sim(1) have "ok' \<and> sys_inv c'" by (simp add: sys_inv_def)
  moreover obtain ok'' where r: "sys_run as c' = (d, ok'')" "ok = (ok' \<and> ok'')"
    using Cons.prems(3) s by (auto split: prod.splits)
  ultimately show ?case using Cons.IH [of c' ok''] Cons.prems(2) by simp
qed

lemmas NewSignaling_defs =
  NewSignaling_def NewManager_def SetHangupObserver_def SetCallEndObserver_def SetBusDecline_def

lemma NewSignaling_wf: "signaling_wf (NewSignaling h e b)"
  by (simp add: signaling_wf_def manager_wf_def NewSignaling_defs)

lemma NewSignaling_rel:
  "incoming_call p = None \<Longrightarrow> active_call p = None \<Longrightarrow> sig_rel (NewSignaling h e b) p"
  using NewSignaling_wf [of h e b] by (simp add: sig_rel_def manager_mirrored_def NewSignaling_defs)

lemma sys_inv_start:
  assumes "incoming_call p = None" and "active_call p = None"
  shows "sys_inv \<lparr>sy_signaling = NewSignaling h e b, sy_drains = 0, sy_held = None, sy_projector = p\<rparr>"
proof -
  let ?c = "\<lparr>sy_signaling = NewSignaling h e b, sy_drains = 0, sy_held = None, sy_projector = p\<rparr>"
  have "queue_inv ?c" by (simp add: queue_inv_def NewSignaling_defs)
  moreover have "emits sig_commit (NewSignaling h e b) [] = (dl_source (sys_view ?c), dl_queue (sys_view ?c))"
    by (simp add: sys_view_def NewSignaling_defs unqueued_def)
  moreover have "sig_rel (NewSignaling h e b) (dl_projector (sys_view ?c))"
    using NewSignaling_rel [OF assms] by (simp add: sys_view_def)
  ultimately show ?thesis unfolding sys_inv_def by (intro conjI exI [of _ "NewSignaling h e b"] exI [of _ "[]"]) simp_all
qed

lemma sys_inv_mirrored:
  assumes "sys_inv c" and "mg_pending (sg_manager (sy_signaling c)) = []" and "sy_held c = None"
  shows "sig_rel (sy_signaling c) (sy_projector c)"
proof -
  from assms obtain m "is" where "sig_rel m (sy_projector c)" "list_all sig_input_ok is"
    "emits sig_commit m is = (unqueued (sy_signaling c), [])"
    by (auto simp: sys_inv_def sys_view_def)
  then have "sig_rel (unqueued (sy_signaling c)) (sy_projector c)" by (rule signaling.emits_silent)
  then show ?thesis by simp
qed

section \<open>Final responses\<close>

fun sig_run :: "Signaling \<Rightarrow> sig_input list \<Rightarrow> Signaling \<times> effect list" where
  "sig_run s [] = (s, [])"
| "sig_run s (i # is) =
     (case sig_step s i of (s', es) \<Rightarrow> (case sig_run s' is of (s'', fs) \<Rightarrow> (s'', es @ fs)))"

text \<open>A final response that refuses the call: 480, 486, 500 or 603.\<close>

fun refusal :: "IncomingDialog \<Rightarrow> effect \<Rightarrow> bool" where
  "refusal d (Respond d' code _) = (d' = d \<and> 300 \<le> code)"
| "refusal d _ = False"

abbreviation refusals :: "IncomingDialog \<Rightarrow> effect list \<Rightarrow> nat" where
  "refusals d effs \<equiv> length (filter (refusal d) effs)"

lemma refusals_publish: "publishLocked m ev = (m', effs) \<Longrightarrow> refusals d effs = 0"
  by (auto simp: publishLocked_eq)

lemma refusals_clear:
  "clearIncoming m x r = (m', effs, cleared) \<Longrightarrow>
   refusals d effs = 0 \<and> (cleared \<longrightarrow> mg_incoming m \<noteq> None \<and> (x = None \<or> x = mg_incoming m) \<and> mg_incoming m' = None)"
  by (auto simp: clearIncoming_def takeIncomingLocked_def publishLocked_eq stopIncomingExpiryLocked_def
      split: option.splits if_splits)

lemma refusals_drop: "drop_active m = (m', effs) \<Longrightarrow> refusals d effs = 0"
  unfolding drop_active_def by (rule refusals_publish)

lemma refusals_hangup:
  assumes "Hangup m b w r c = (m', effs, res)"
  shows "refusals d effs = 0 \<or> refusals d effs = 1 \<and> mg_incoming m = Some d \<and> mg_incoming m' = None"
proof (cases "mg_active m")
  case (Some a)
  then show ?thesis using assms refusals_drop [of m _ _ d]
    by (auto simp: Hangup_def byeActiveLocked_def Let_def split: prod.splits)
next
  case None
  obtain m0 t where t: "takeIncomingLocked m None = (m0, t)" by fastforce
  then show ?thesis
  proof (cases rule: takeIncomingLocked_cases)
    case nothing
    then show ?thesis using assms None t by (auto simp: Hangup_def)
  next
    case (taken d')
    obtain m1 e1 where p: "publishLocked m0 (Some (CallHungUp (dlg_ID d'))) = (m1, e1)" by fastforce
    have "m' = m1" using assms None t taken(1) p by (auto simp: Hangup_def Let_def split: if_splits)
    then have "mg_incoming m' = None" using incoming_published [OF p] taken(4) by simp
    then show ?thesis using assms None t taken p refusals_publish [OF p, of d]
      by (auto simp: Hangup_def Let_def split: if_splits)
  qed
qed


lemma refusals_step:
  assumes "sig_step s i = (s', effs)" and "signaling_wf s"
  shows "refusals d effs = 0 \<or>
         refusals d effs = 1 \<and> mg_incoming (sg_manager s') \<noteq> Some d \<and>
           (mg_incoming (sg_manager s) = Some d \<or> dlg_ref d = sg_next s \<and> sg_next s' = Suc (sg_next s))"
proof (cases i)
  case (Invite j res)
  have "mg_incoming (sg_manager s) \<noteq> Some \<lparr>dlg_ref = sg_next s, dlg_ID = j\<rparr>"
    using assms(2) by (auto simp: signaling_wf_def)
  then show ?thesis using assms Invite
    by (auto simp: OnInvite_def manager_defs split: prod.splits if_splits)
next
  case (RingingFailed d')
  then show ?thesis using assms refusals_clear [of "sg_manager s" "Some d'" _ _ _ _ d]
    by (fastforce simp: OnInvite_rollback_def split: prod.splits)
next
  case (Expire d')
  then show ?thesis using assms refusals_clear [of "sg_manager s" "Some d'" _ _ _ _ d]
    by (fastforce simp: incoming_expired_def split: prod.splits)
next
  case (IncomingGone r)
  then show ?thesis using assms refusals_clear [of "sg_manager s" None _ _ _ _ d]
    by (fastforce simp: EndIncoming_def Let_def split: prod.splits)
next
  case (DeclineCall b)
  then show ?thesis using assms
    by (auto simp: Decline_def manager_defs split: prod.splits option.splits if_splits)
next
  case (HangupAny a b c e)
  then show ?thesis using assms refusals_hangup [of "sg_manager s" a b c e _ _ _ d]
    by (fastforce split: prod.splits)
next
  case (HangupActive b)
  then show ?thesis using assms refusals_drop [of "sg_manager s" _ _ d]
    by (auto simp: HangupCall_def byeActiveLocked_def split: prod.splits option.splits)
next
  case RemoteEnded
  then show ?thesis using assms refusals_drop [of "sg_manager s" _ _ d]
    by (auto simp: RemoteDialogEnded_def split: prod.splits if_splits)
next
  case (AnswerSent n)
  then show ?thesis using assms
    by (auto simp: Answer_commit_def Let_def split: prod.splits if_splits dest: refusals_publish)
qed (use assms in \<open>auto split: prod.splits sum.splits\<close>)

lemma sig_run_refusals:
  "signaling_wf s \<Longrightarrow> list_all sig_input_ok is \<Longrightarrow> sig_run s is = (s', effs) \<Longrightarrow>
   signaling_wf s' \<and> refusals d effs \<le> 1 \<and>
   (dlg_ref d < sg_next s \<longrightarrow> mg_incoming (sg_manager s) \<noteq> Some d \<longrightarrow> refusals d effs = 0)"
proof (induction "is" arbitrary: s effs)
  case Nil
  then show ?case by simp
next
  case (Cons i "is")
  obtain s1 e1 where s1: "sig_step s i = (s1, e1)" by fastforce
  obtain e2 where e2: "sig_run s1 is = (s', e2)" "effs = e1 @ e2"
    using Cons.prems(3) s1 by (auto split: prod.splits)
  have w: "signaling_wf s1" using sig_step_wf [OF Cons.prems(1) s1] Cons.prems(2) by simp
  from Cons.IH [OF w _ e2(1)] Cons.prems(2)
  have IH: "signaling_wf s'" "refusals d e2 \<le> 1"
    "dlg_ref d < sg_next s1 \<longrightarrow> mg_incoming (sg_manager s1) \<noteq> Some d \<longrightarrow> refusals d e2 = 0" by simp_all
  have n: "sg_next s \<le> sg_next s1" by (rule sig_step_next [OF s1])
  have i: "mg_incoming (sg_manager s) = Some d \<longrightarrow> dlg_ref d < sg_next s"
    using Cons.prems(1) by (auto simp: signaling_wf_def)
  from refusals_step [OF s1 Cons.prems(1), of d] show ?case
  proof
    assume "refusals d e1 = 0"
    then show ?thesis using IH e2(2) n sig_step_fresh [OF s1, of d] by fastforce
  next
    assume r: "refusals d e1 = 1 \<and> mg_incoming (sg_manager s1) \<noteq> Some d \<and>
      (mg_incoming (sg_manager s) = Some d \<or> dlg_ref d = sg_next s \<and> sg_next s1 = Suc (sg_next s))"
    then have "dlg_ref d < sg_next s1" using i n by auto
    then show ?thesis using r IH e2(2) by auto
  qed
qed

lemma deliver_held:
  assumes "queue_inv c"
  shows "\<exists>c1 ok. sys_step DrainDeliver c = (c1, ok) \<and> queue_inv c1 \<and> sy_held c1 = None \<and>
           mg_pending (sg_manager (sy_signaling c1)) = mg_pending (sg_manager (sy_signaling c))"
  using assms by (cases "sy_held c") (auto simp: queue_inv_def split: prod.splits)

text \<open>The rounds that empty a queue of \<open>n\<close> events, and the steps of the drain alone.\<close>

lemma drain_all:
  assumes "queue_inv c" and "sy_held c = None" and "mg_pending (sg_manager (sy_signaling c)) = q"
  shows "\<exists>d ok. sys_run (concat (replicate (length q) [DrainTake, DrainDeliver])) c = (d, ok) \<and>
           mg_pending (sg_manager (sy_signaling d)) = [] \<and> sy_held d = None"
  using assms
proof (induction q arbitrary: c)
  case (Cons e q)
  let ?s = "sy_signaling c"
  have dr: "0 < sy_drains c" and ev: "mg_events (sg_manager ?s)" using Cons.prems by (auto simp: queue_inv_def)
  obtain p r where p: "Projector_Apply (sy_projector c) e = (p, r)" by fastforce
  let ?c1 = "c\<lparr>sy_signaling := ?s\<lparr>sg_manager := (sg_manager ?s)\<lparr>mg_pending := q\<rparr>\<rparr>, sy_held := Some e\<rparr>"
  let ?c2 = "?c1\<lparr>sy_held := None, sy_projector := p\<rparr>"
  have t: "sys_step DrainTake c = (?c1, True)" using Cons.prems dr by (simp add: Let_def drainEvents_round_def)
  have d: "sys_step DrainDeliver ?c1 = (?c2, is_Ok r)" using ev p by simp
  have "queue_inv ?c2" using Cons.prems by (auto simp: queue_inv_def)
  from Cons.IH [OF this] obtain d' ok where
    "sys_run (concat (replicate (length q) [DrainTake, DrainDeliver])) ?c2 = (d', ok)"
    "mg_pending (sg_manager (sy_signaling d')) = []" "sy_held d' = None" by auto
  then show ?case using t d by (simp del: sys_step.simps)
qed auto

section \<open>Properties\<close>

text \<open>
  C2. The manager and the projector. Whatever the SIP peer, the users, the media sessions and the timers do and in
  whatever order their critical sections run, with answers on the wire and events waiting in the queue:
  the projector accepts every event the manager publishes, no event is ever queued or taken without a drain
  goroutine that will deliver it, and whenever everything is delivered the projector shows exactly the
  manager's ringing call and its answered call. Previews the manager dialled are not calls to it.
\<close>

theorem manager_events_accepted:
  assumes "incoming_call p = None" and "active_call p = None" and "list_all sys_act_ok acts"
    and "sys_run acts \<lparr>sy_signaling = NewSignaling h e b, sy_drains = 0, sy_held = None, sy_projector = p\<rparr> = (c, ok)"
  shows "ok \<and>
     (let m = sg_manager (sy_signaling c) in
      sy_drains c \<le> 1 \<and>
      (mg_pending m \<noteq> [] \<or> sy_held c \<noteq> None \<longrightarrow> sy_drains c = 1) \<and>
      (mg_pending m = [] \<and> sy_held c = None \<longrightarrow> manager_mirrored m (sy_projector c)))"
proof -
  from sys_run_inv [OF sys_inv_start [OF assms(1,2)] assms(3,4)] have "ok" and inv: "sys_inv c" by simp_all
  then show ?thesis using sys_inv_mirrored [OF inv]
    by (auto simp: Let_def sys_inv_def queue_inv_def sig_rel_def)
qed

theorem manager_events_accepted_witness:
  "snd (sys_run [Operation (Invite ''c1'' (''main'', ''20'')), Operation AnswerStart, DrainTake,
       Operation (Expire \<lparr>dlg_ref = 0, dlg_ID = ''c1''\<rparr>), DrainDeliver, OtherEvent (RingCleared ''main''),
       Operation (AnswerSent 0), DrainTake, DrainDeliver]
     \<lparr>sy_signaling = NewSignaling True True True, sy_drains = 0, sy_held = None, sy_projector = NewProjector\<rparr>)"
proof -
  let ?acts = "[Operation (Invite ''c1'' (''main'', ''20'')), Operation AnswerStart, DrainTake,
       Operation (Expire \<lparr>dlg_ref = 0, dlg_ID = ''c1''\<rparr>), DrainDeliver, OtherEvent (RingCleared ''main''),
       Operation (AnswerSent 0), DrainTake, DrainDeliver]"
  let ?c = "\<lparr>sy_signaling = NewSignaling True True True, sy_drains = 0, sy_held = None, sy_projector = NewProjector\<rparr>"
  obtain c ok where r: "sys_run ?acts ?c = (c, ok)" by fastforce
  have p: "incoming_call NewProjector = None" "active_call NewProjector = None" by (simp_all add: NewProjector_def)
  have a: "list_all sys_act_ok ?acts" by simp
  from manager_events_accepted [OF p a r] r show ?thesis by simp
qed

text \<open>
  C3. Nothing the manager published is stuck: from every state a run reaches, the drain goroutine needs no help to
  deliver everything, as many rounds of it as events are queued bring the projector to what the manager holds.
\<close>

theorem manager_events_delivered:
  assumes "incoming_call p = None" and "active_call p = None" and "list_all sys_act_ok acts"
    and "sys_run acts \<lparr>sy_signaling = NewSignaling h e b, sy_drains = 0, sy_held = None, sy_projector = p\<rparr> = (c, ok)"
  shows "\<exists>d. sys_run (DrainDeliver #
               concat (replicate (length (mg_pending (sg_manager (sy_signaling c)))) [DrainTake, DrainDeliver])) c = (d, True) \<and>
             mg_pending (sg_manager (sy_signaling d)) = [] \<and> sy_held d = None \<and>
             manager_mirrored (sg_manager (sy_signaling d)) (sy_projector d)"
proof -
  let ?rounds = "concat (replicate (length (mg_pending (sg_manager (sy_signaling c)))) [DrainTake, DrainDeliver])"
  from sys_run_inv [OF sys_inv_start [OF assms(1,2)] assms(3,4)] have inv: "sys_inv c" by simp
  then have "queue_inv c" by (simp add: sys_inv_def)
  from deliver_held [OF this] obtain c1 ok1 where c1: "sys_step DrainDeliver c = (c1, ok1)" "queue_inv c1" "sy_held c1 = None"
    "mg_pending (sg_manager (sy_signaling c1)) = mg_pending (sg_manager (sy_signaling c))" by blast
  from drain_all [OF c1(2,3,4)] obtain d ok2 where d: "sys_run ?rounds c1 = (d, ok2)"
    "mg_pending (sg_manager (sy_signaling d)) = []" "sy_held d = None" by blast
  have r: "sys_run (DrainDeliver # ?rounds) c = (d, ok1 \<and> ok2)" using c1(1) d(1) by (simp del: sys_step.simps)
  have "list_all sys_act_ok (DrainDeliver # ?rounds)" by (auto simp: list_all_iff)
  from sys_run_inv [OF inv this r] have "ok1 \<and> ok2" and "sys_inv d" by simp_all
  then show ?thesis using r d(2,3) sys_inv_mirrored [of d] by (auto simp: sig_rel_def)
qed

theorem manager_events_delivered_witness:
  "(let c = fst (sys_run [Operation (Invite ''c1'' (''main'', ''20'')), DrainTake,
                          Operation (Expire \<lparr>dlg_ref = 0, dlg_ID = ''c1''\<rparr>)]
              \<lparr>sy_signaling = NewSignaling True True True, sy_drains = 0, sy_held = None, sy_projector = NewProjector\<rparr>) in
    length (mg_pending (sg_manager (sy_signaling c))) = 1 \<and>
    (\<exists>d. sys_run [DrainDeliver, DrainTake, DrainDeliver] c = (d, True) \<and> sy_held d = None \<and>
         manager_mirrored (sg_manager (sy_signaling d)) (sy_projector d)))"
proof -
  let ?r = "sys_run [Operation (Invite ''c1'' (''main'', ''20'')), DrainTake,
                     Operation (Expire \<lparr>dlg_ref = 0, dlg_ID = ''c1''\<rparr>)]
              \<lparr>sy_signaling = NewSignaling True True True, sy_drains = 0, sy_held = None, sy_projector = NewProjector\<rparr>"
  have l: "length (mg_pending (sg_manager (sy_signaling (fst ?r)))) = 1"
    by (simp add: NewSignaling_defs OnInvite_def incoming_expired_def clearIncoming_def takeIncomingLocked_def
          manager_defs drainEvents_round_def Let_def)
  have "incoming_call NewProjector = None" "active_call NewProjector = None" by (simp_all add: NewProjector_def)
  from manager_events_delivered [OF this _ surjective_pairing [of ?r]] l show ?thesis unfolding Let_def by auto
qed

text \<open>
  C4. The invariant of the manager after any sequence of critical sections: a ringing call and an active
  dialog exclude each other, a ringing call has its entrypoint and its armed expiry, a cleared slot is
  cleared completely, and the flags of the active dialog say whether it is an answered call or a preview the
  manager dialled. And each dialog is refused at most once: the expiry, the rollback of a failed 180, the
  decline and the hangup never put two final refusals on one transaction.
\<close>

theorem manager_invariant:
  assumes "list_all sig_input_ok inputs" and "sig_run (NewSignaling h e b) inputs = (s, effs)"
  shows "manager_wf (sg_manager s) \<and> refusals d effs \<le> 1"
  using sig_run_refusals [OF NewSignaling_wf assms] by (simp add: signaling_wf_def)

theorem manager_invariant_witness:
  "refusals \<lparr>dlg_ref = 0, dlg_ID = ''c1''\<rparr>
     (snd (sig_run (NewSignaling True True True)
        [Invite ''c1'' (''main'', ''20''), DeclineCall True, RingingFailed \<lparr>dlg_ref = 0, dlg_ID = ''c1''\<rparr>,
         Expire \<lparr>dlg_ref = 0, dlg_ID = ''c1''\<rparr>])) \<le> 1"
proof -
  let ?is = "[Invite ''c1'' (''main'', ''20''), DeclineCall True, RingingFailed \<lparr>dlg_ref = 0, dlg_ID = ''c1''\<rparr>,
         Expire \<lparr>dlg_ref = 0, dlg_ID = ''c1''\<rparr>]"
  obtain s effs where r: "sig_run (NewSignaling True True True) ?is = (s, effs)" by fastforce
  have "list_all sig_input_ok ?is" by simp
  from manager_invariant [OF this r, of "\<lparr>dlg_ref = 0, dlg_ID = ''c1''\<rparr>"] r show ?thesis by simp
qed


text \<open>
  C6. An answered dialog is never lost. Once the 200 of an answer went out, the commit leaves the dialog as the
  active call and returns no error, or it sends the BYE and returns an error; and it sends the BYE only when the
  manager refers to the dialog neither as the ringing nor as the active call. A second answer of the same call
  does not tear it down.
\<close>

theorem answer_owned_or_ended:
  "case Answer_commit m d e of (m', effs, r) \<Rightarrow>
     (mg_active m' = Some (AnsweredDialog d) \<and> r = Ok () \<and> Bye (AnsweredDialog d) \<notin> set effs) \<or>
     (effs = [Bye (AnsweredDialog d)] \<and> r = Err ErrNoIncomingDialog \<and> m' = m \<and>
      mg_incoming m \<noteq> Some d \<and> mg_active m \<noteq> Some (AnsweredDialog d))"
  by (auto simp: Answer_commit_def manager_defs split: prod.splits)

text \<open>
  The hangup a media session can reach never touches a call that is only ringing: it neither rejects it
  nor takes it nor publishes anything, and whatever is up it sends no SIP response at all. The user's hangup
  of a ringing call takes it and tells the projector, and answers 603 unless the bus decline made
  the intercom cancel the call.
\<close>

theorem media_hangup_spares_ringing:
  assumes "manager_wf m" and "mg_incoming m = Some d"
  shows "HangupCall m sent = (m, [], Ok ()) \<and>
     (case Hangup m busTook withdrawn response sent of (m', effs, r) \<Rightarrow>
        mg_incoming m' = None \<and> mg_pending m' = mg_pending m @ [CallHungUp (dlg_ID d)] \<and>
        (Respond d 603 None \<in> set effs \<longleftrightarrow> \<not> (mg_busDecline m \<and> busTook \<and> withdrawn)))"
  using assms by (auto simp: manager_wf_def HangupCall_def Hangup_def manager_defs split: prod.splits)

theorem media_hangup_spares_ringing_witness:
  "\<exists>m. mg_incoming m = Some \<lparr>dlg_ref = 0, dlg_ID = ''c1''\<rparr> \<and> HangupCall m True = (m, [], Ok ())"
proof -
  let ?m = "sg_manager (fst (sig_run (NewSignaling True True True) [Invite ''c1'' (''main'', ''20'')]))"
  have i: "mg_incoming ?m = Some \<lparr>dlg_ref = 0, dlg_ID = ''c1''\<rparr>"
    by (simp add: OnInvite_def manager_defs NewSignaling_defs)
  have "sig_run (NewSignaling True True True) [Invite ''c1'' (''main'', ''20'')] =
      (fst (sig_run (NewSignaling True True True) [Invite ''c1'' (''main'', ''20'')]),
       snd (sig_run (NewSignaling True True True) [Invite ''c1'' (''main'', ''20'')]))" by simp
  from sig_run_refusals [OF NewSignaling_wf _ this] have "manager_wf ?m" by (simp add: signaling_wf_def)
  from media_hangup_spares_ringing [OF this i] i show ?thesis by blast
qed

end
