(* ===== verification/Media_Fanout.thy ===== *)
theory Media_Fanout
  imports Go_Prelude
begin

text \<open>
  The fan-out of \<^verbatim>\<open>src/internal/media/fanout.go\<close>: one stream's media delivered to every consumer that
  holds it, with the cached keyframe replayed to a consumer that joins a running stream.

  A consumer's callbacks are the flags of \<open>SourceEvents\<close> that say which of them it has, and a call of one
  of them is an element of the delivery list. \<^verbatim>\<open>add\<close> holds the delivery lock from its replay to its
  end but gives the list lock away in between, so it is two steps, \<open>add_replay\<close> and \<open>add_commit\<close>:
  removals and the close may come between them, video may not. The identifiers are natural numbers, as the
  counter that makes them is 64 bits wide.

  The lemmas show what the cache holds at any time, that a joiner's video is a contiguous end of the stream that
  begins with a keyframe, and that a stream without consumers takes no new ones.
\<close>

unbundle bit_operations_syntax

section \<open>State\<close>

record Packet =
  pk_timestamp :: "32 word"
  pk_sequence :: "16 word"
  pk_ssrc :: "32 word"
  pk_payload :: "8 word list"

record SourceEvents =
  ev_VideoRTP :: bool
  ev_AudioRTP :: bool
  ev_RemoteBYE :: bool
  ev_Failed :: bool

record fanoutConsumer =
  fc_id :: nat
  fc_events :: SourceEvents

record fanout =
  fo_cache :: "Packet list"
  fo_cacheBytes :: int
  fo_consumers :: "fanoutConsumer list"
  fo_closed :: bool

datatype 'e delivery_call =
    CallVideoRTP nat Packet
  | CallAudioRTP nat Packet
  | CallRemoteBYE nat
  | CallFailed nat 'e

definition keyframeCacheLimit :: int where "keyframeCacheLimit = 512 * 1024"

definition newFanout :: fanout where
  "newFanout = \<lparr>fo_cache = [], fo_cacheBytes = 0, fo_consumers = [], fo_closed = False\<rparr>"

section \<open>Keyframes\<close>

definition isKey :: "8 word \<Rightarrow> bool" where
  "isKey nalHeader = (let naluType = nalHeader AND 0x1f in naluType = 5 \<or> naluType = 7)"

text \<open>The loop over a STAP-A; the argument is the payload from \<^verbatim>\<open>offset\<close> on.\<close>

function stapHasKey :: "8 word list \<Rightarrow> bool" where
  "stapHasKey rest =
     (case rest of
        hi # lo # nal # _ \<Rightarrow>
          let size = unat hi * 256 + unat lo in
          if size = 0 \<or> 2 + size > length rest then False
          else if isKey nal then True
          else stapHasKey (drop (2 + size) rest)
      | _ \<Rightarrow> False)"
  by pat_completeness auto
termination by (relation "measure length") (auto simp: Let_def)

declare stapHasKey.simps [simp del]

definition startsKeyframe :: "8 word list \<Rightarrow> bool" where
  "startsKeyframe payload =
     (case payload of
        [] \<Rightarrow> False
      | b # rest \<Rightarrow>
          let kind = b AND 0x1f in
          if kind = 24 then stapHasKey rest
          else if kind = 28 then
            (case rest of [] \<Rightarrow> False | h # _ \<Rightarrow> h AND 0x80 \<noteq> 0 \<and> isKey h)
          else isKey b)"

section \<open>Operations\<close>

definition remember :: "fanout \<Rightarrow> Packet \<Rightarrow> fanout" where
  "remember f packet =
     (let keyframe = startsKeyframe (pk_payload packet);
          f = (if keyframe \<and> (fo_cache f = [] \<or> pk_timestamp (hd (fo_cache f)) \<noteq> pk_timestamp packet)
               then f\<lparr>fo_cache := [], fo_cacheBytes := 0\<rparr> else f) in
      if fo_cache f = [] \<and> \<not> keyframe then f
      else if fo_cacheBytes f + int (length (pk_payload packet)) > keyframeCacheLimit
        then f\<lparr>fo_cache := [], fo_cacheBytes := 0\<rparr>
      else f\<lparr>fo_cache := fo_cache f @ [packet],
             fo_cacheBytes := fo_cacheBytes f + int (length (pk_payload packet))\<rparr>)"

definition replay_to :: "fanout \<Rightarrow> nat \<Rightarrow> SourceEvents \<Rightarrow> 'e delivery_call list" where
  "replay_to f i events = (if ev_VideoRTP events then map (CallVideoRTP i) (fo_cache f) else [])"

text \<open>\<^verbatim>\<open>add\<close> up to the replay, and the rest of it.\<close>

definition add_replay :: "fanout \<Rightarrow> nat \<Rightarrow> SourceEvents \<Rightarrow> 'e delivery_call list option" where
  "add_replay f i events = (if fo_closed f then None else Some (replay_to f i events))"

definition add_commit :: "fanout \<Rightarrow> nat \<Rightarrow> SourceEvents \<Rightarrow> fanout \<times> bool" where
  "add_commit f i events =
     (if fo_closed f then (f, False)
      else (f\<lparr>fo_consumers := fo_consumers f @ [\<lparr>fc_id = i, fc_events = events\<rparr>]\<rparr>, True))"

definition fanout_add :: "fanout \<Rightarrow> nat \<Rightarrow> SourceEvents \<Rightarrow> fanout \<times> 'e delivery_call list \<times> bool" where
  "fanout_add f i events =
     (case add_replay f i events of
        None \<Rightarrow> (f, [], False)
      | Some ds \<Rightarrow> (case add_commit f i events of (f', ok) \<Rightarrow> (f', ds, ok)))"

definition fanout_replay :: "fanout \<Rightarrow> nat \<Rightarrow> 'e delivery_call list" where
  "fanout_replay f i =
     (case find (\<lambda>c. fc_id c = i) (fo_consumers f) of
        None \<Rightarrow> []
      | Some c \<Rightarrow> replay_to f i (fc_events c))"

fun remove_consumer :: "nat \<Rightarrow> fanoutConsumer list \<Rightarrow> fanoutConsumer list option" where
  "remove_consumer i [] = None"
| "remove_consumer i (c # cs) =
     (if fc_id c = i then Some cs else map_option (Cons c) (remove_consumer i cs))"

definition fanout_remove :: "fanout \<Rightarrow> nat \<Rightarrow> fanout \<times> nat \<times> bool" where
  "fanout_remove f i =
     (case remove_consumer i (fo_consumers f) of
        None \<Rightarrow> (f, length (fo_consumers f), False)
      | Some cs \<Rightarrow>
          (f\<lparr>fo_consumers := cs, fo_closed := (if cs = [] then True else fo_closed f)\<rparr>, length cs, True))"

definition fanout_has :: "fanout \<Rightarrow> nat \<Rightarrow> bool" where
  "fanout_has f i = list_ex (\<lambda>c. fc_id c = i) (fo_consumers f)"

definition fanout_close :: "fanout \<Rightarrow> fanout" where
  "fanout_close f = f\<lparr>fo_closed := True\<rparr>"

definition fanout_video :: "fanout \<Rightarrow> Packet \<Rightarrow> fanout \<times> 'e delivery_call list" where
  "fanout_video f packet =
     (let f = remember f packet in
      (f, map (\<lambda>c. CallVideoRTP (fc_id c) packet) (filter (\<lambda>c. ev_VideoRTP (fc_events c)) (fo_consumers f))))"

definition fanout_audio :: "fanout \<Rightarrow> Packet \<Rightarrow> 'e delivery_call list" where
  "fanout_audio f packet =
     map (\<lambda>c. CallAudioRTP (fc_id c) packet) (filter (\<lambda>c. ev_AudioRTP (fc_events c)) (fo_consumers f))"

definition fanout_remoteBYE :: "fanout \<Rightarrow> 'e delivery_call list" where
  "fanout_remoteBYE f =
     map (\<lambda>c. CallRemoteBYE (fc_id c)) (filter (\<lambda>c. ev_RemoteBYE (fc_events c)) (fo_consumers f))"

definition fanout_failed :: "fanout \<Rightarrow> 'e \<Rightarrow> 'e delivery_call list" where
  "fanout_failed f err =
     map (\<lambda>c. CallFailed (fc_id c) err) (filter (\<lambda>c. ev_Failed (fc_events c)) (fo_consumers f))"

section \<open>Runs\<close>

text \<open>\<open>FJoin\<close> is a whole \<^verbatim>\<open>add\<close>; \<open>FAddCommit\<close> the second half of one whose replay came earlier.\<close>

datatype fanout_act =
    FVideo Packet | FJoin nat SourceEvents | FAddCommit nat SourceEvents
  | FRemove nat | FClose | FReplay nat | FAudio Packet

fun fanout_step :: "fanout \<Rightarrow> fanout_act \<Rightarrow> fanout \<times> unit delivery_call list" where
  "fanout_step f (FVideo p) = fanout_video f p"
| "fanout_step f (FJoin i ev) = (case fanout_add f i ev of (f', ds, _) \<Rightarrow> (f', ds))"
| "fanout_step f (FAddCommit i ev) = (fst (add_commit f i ev), [])"
| "fanout_step f (FRemove i) = (fst (fanout_remove f i), [])"
| "fanout_step f FClose = (fanout_close f, [])"
| "fanout_step f (FReplay i) = (f, fanout_replay f i)"
| "fanout_step f (FAudio p) = (f, fanout_audio f p)"

fun fanout_run :: "fanout \<Rightarrow> fanout_act list \<Rightarrow> fanout \<times> unit delivery_call list" where
  "fanout_run f [] = (f, [])"
| "fanout_run f (a # as) =
     (case fanout_step f a of (f', ds) \<Rightarrow> (case fanout_run f' as of (f'', es) \<Rightarrow> (f'', ds @ es)))"

fun videos :: "fanout_act list \<Rightarrow> Packet list" where
  "videos [] = []"
| "videos (FVideo p # as) = p # videos as"
| "videos (_ # as) = videos as"

fun received :: "nat \<Rightarrow> 'e delivery_call list \<Rightarrow> Packet list" where
  "received i [] = []"
| "received i (CallVideoRTP j p # ds) = (if j = i then p # received i ds else received i ds)"
| "received i (_ # ds) = received i ds"

section \<open>The keyframe cache\<close>

definition payload_bytes :: "Packet list \<Rightarrow> int" where
  "payload_bytes ps = sum_list (map (\<lambda>p. int (length (pk_payload p))) ps)"

definition cache_ok :: "Packet list \<Rightarrow> fanout \<Rightarrow> bool" where
  "cache_ok history f \<longleftrightarrow>
     (\<exists>before. history = before @ fo_cache f) \<and>
     (fo_cache f \<noteq> [] \<longrightarrow> startsKeyframe (pk_payload (hd (fo_cache f)))) \<and>
     (\<forall>p \<in> set (fo_cache f). startsKeyframe (pk_payload p) \<longrightarrow> pk_timestamp p = pk_timestamp (hd (fo_cache f))) \<and>
     fo_cacheBytes f = payload_bytes (fo_cache f) \<and> fo_cacheBytes f \<le> keyframeCacheLimit"

lemma cache_ok_emptied: "cache_ok history (f\<lparr>fo_cache := [], fo_cacheBytes := 0\<rparr>)"
  by (simp add: cache_ok_def payload_bytes_def keyframeCacheLimit_def)

lemma remember_ok:
  assumes "cache_ok history f"
  shows "cache_ok (history @ [p]) (remember f p)"
proof -
  let ?key = "startsKeyframe (pk_payload p)"
  define g where "g = (if ?key \<and> (fo_cache f = [] \<or> pk_timestamp (hd (fo_cache f)) \<noteq> pk_timestamp p)
    then f\<lparr>fo_cache := [], fo_cacheBytes := 0\<rparr> else f)"
  have g: "cache_ok history g" using assms cache_ok_emptied by (simp add: g_def)
  have t: "?key \<Longrightarrow> fo_cache g \<noteq> [] \<Longrightarrow> pk_timestamp p = pk_timestamp (hd (fo_cache g))"
    by (auto simp: g_def split: if_splits)
  have r: "remember f p =
      (if fo_cache g = [] \<and> \<not> ?key then g
       else if fo_cacheBytes g + int (length (pk_payload p)) > keyframeCacheLimit
         then g\<lparr>fo_cache := [], fo_cacheBytes := 0\<rparr>
       else g\<lparr>fo_cache := fo_cache g @ [p], fo_cacheBytes := fo_cacheBytes g + int (length (pk_payload p))\<rparr>)"
    by (simp add: remember_def Let_def g_def)
  show ?thesis
  proof (cases "fo_cache g = [] \<and> \<not> ?key")
    case True
    then show ?thesis using g r by (auto simp: cache_ok_def)
  next
    case False
    show ?thesis
    proof (cases "fo_cacheBytes g + int (length (pk_payload p)) > keyframeCacheLimit")
      case True
      then show ?thesis using r False cache_ok_emptied by simp
    next
      case fits: False
      let ?h = "g\<lparr>fo_cache := fo_cache g @ [p], fo_cacheBytes := fo_cacheBytes g + int (length (pk_payload p))\<rparr>"
      have hd: "hd (fo_cache ?h) = (if fo_cache g = [] then p else hd (fo_cache g))" by simp
      have "\<exists>before. history @ [p] = before @ fo_cache ?h" using g by (auto simp: cache_ok_def)
      moreover have "startsKeyframe (pk_payload (hd (fo_cache ?h)))"
        unfolding hd using g False by (cases "fo_cache g = []") (simp_all add: cache_ok_def)
      moreover have "\<forall>q \<in> set (fo_cache ?h). startsKeyframe (pk_payload q) \<longrightarrow> pk_timestamp q = pk_timestamp (hd (fo_cache ?h))"
      proof (intro ballI impI)
        fix q assume q: "q \<in> set (fo_cache ?h)" "startsKeyframe (pk_payload q)"
        show "pk_timestamp q = pk_timestamp (hd (fo_cache ?h))"
        proof (cases "q \<in> set (fo_cache g)")
          case True
          then have "pk_timestamp q = pk_timestamp (hd (fo_cache g))" using g q(2) unfolding cache_ok_def by blast
          with True show ?thesis unfolding hd by auto
        next
          case False
          then have "q = p" using q(1) by simp
          with t q(2) show ?thesis unfolding hd by simp
        qed
      qed
      moreover have "fo_cacheBytes ?h = payload_bytes (fo_cache ?h)" using g by (simp add: cache_ok_def payload_bytes_def)
      ultimately have "cache_ok (history @ [p]) ?h" using fits by (simp add: cache_ok_def)
      then show ?thesis using r False fits by simp
    qed
  qed
qed

lemma fanout_step_cache:
  "cache_ok history f \<Longrightarrow> fanout_step f a = (f', ds) \<Longrightarrow> cache_ok (history @ videos [a]) f'"
proof (cases a)
  case (FVideo p)
  then show "cache_ok history f \<Longrightarrow> fanout_step f a = (f', ds) \<Longrightarrow> ?thesis"
    using remember_ok [of history f p] by (auto simp: fanout_video_def Let_def)
qed (auto simp: cache_ok_def fanout_add_def add_replay_def add_commit_def fanout_remove_def fanout_close_def
    split: if_splits option.splits)

lemma videos_Cons: "videos (a # as) = videos [a] @ videos as"
  by (cases a) auto

lemma fanout_run_cache:
  "cache_ok history f \<Longrightarrow> fanout_run f as = (f', ds) \<Longrightarrow> cache_ok (history @ videos as) f'"
proof (induction as arbitrary: f history ds)
  case (Cons a as)
  then obtain g es where g: "fanout_step f a = (g, es)" by fastforce
  with Cons.prems obtain fs where r: "fanout_run g as = (f', fs)" by (auto split: prod.splits)
  from Cons.IH [OF fanout_step_cache [OF Cons.prems(1) g] r] show ?case by (simp add: videos_Cons [of a as])
qed simp

lemma newFanout_cache: "cache_ok [] newFanout"
  by (simp add: cache_ok_def newFanout_def payload_bytes_def keyframeCacheLimit_def)

section \<open>Consumers\<close>

definition on_stream :: "fanout \<Rightarrow> nat \<Rightarrow> bool" where
  "on_stream f i \<longleftrightarrow> (\<exists>c. filter (\<lambda>c. fc_id c = i) (fo_consumers f) = [c] \<and> ev_VideoRTP (fc_events c))"

fun leaves_alone :: "nat \<Rightarrow> fanout_act \<Rightarrow> bool" where
  "leaves_alone i (FJoin j _) = (j \<noteq> i)"
| "leaves_alone i (FAddCommit j _) = (j \<noteq> i)"
| "leaves_alone i (FRemove j) = (j \<noteq> i)"
| "leaves_alone i (FReplay j) = (j \<noteq> i)"
| "leaves_alone i _ = True"

lemma received_append: "received i (ds @ es) = received i ds @ received i es"
  by (induction i ds rule: received.induct) auto

lemma received_map: "received i (map (CallVideoRTP j) ps) = (if j = i then ps else [])"
  by (induction ps) auto

lemma received_fan:
  "received i (map (\<lambda>c. CallVideoRTP (fc_id c) p) cs) = map (\<lambda>_. p) (filter (\<lambda>c. fc_id c = i) cs)"
  by (induction cs) auto

lemma received_audio: "received i (map (\<lambda>c. CallAudioRTP (fc_id c) p) cs) = []"
  by (induction cs) auto

lemma remove_consumer_other:
  "remove_consumer j cs = Some cs' \<Longrightarrow> j \<noteq> i \<Longrightarrow> filter (\<lambda>c. fc_id c = i) cs' = filter (\<lambda>c. fc_id c = i) cs"
  by (induction cs arbitrary: cs') (auto split: if_splits)

lemma remember_consumers [simp]: "fo_consumers (remember f p) = fo_consumers f" "fo_closed (remember f p) = fo_closed f"
  by (simp_all add: remember_def Let_def)

lemma find_filter_id: "find (\<lambda>c. fc_id c = j) cs = Some c \<Longrightarrow> fc_id c = j"
  by (auto simp: find_Some_iff)

lemma filter_swap: "filter P (filter Q xs) = filter Q (filter P xs)"
  by (induction xs) auto

lemma fanout_step_received:
  assumes "on_stream f i" and "leaves_alone i a" and "fanout_step f a = (f', ds)"
  shows "on_stream f' i \<and> received i ds = videos [a]"
proof (cases a)
  case (FVideo p)
  have "received i (map (\<lambda>c. CallVideoRTP (fc_id c) p) (filter (\<lambda>c. ev_VideoRTP (fc_events c)) (fo_consumers f))) = [p]"
  proof -
    obtain c where c: "filter (\<lambda>c. fc_id c = i) (fo_consumers f) = [c]" "ev_VideoRTP (fc_events c)"
      using assms(1) by (auto simp: on_stream_def)
    show ?thesis unfolding received_fan filter_swap [of _ "\<lambda>c. ev_VideoRTP (fc_events c)"] c(1) using c(2) by simp
  qed
  then show ?thesis using assms FVideo by (auto simp: fanout_video_def Let_def on_stream_def)
next
  case (FJoin j ev)
  then show ?thesis using assms
    by (auto simp: fanout_add_def add_replay_def add_commit_def on_stream_def replay_to_def received_map split: if_splits)
next
  case (FAddCommit j ev)
  then show ?thesis using assms by (auto simp: add_commit_def on_stream_def split: if_splits)
next
  case (FRemove j)
  then show ?thesis using assms remove_consumer_other [of j "fo_consumers f" _ i]
    by (auto simp: fanout_remove_def on_stream_def split: option.splits)
next
  case FClose
  then show ?thesis using assms by (auto simp: fanout_close_def on_stream_def)
next
  case (FReplay j)
  then show ?thesis using assms
    by (auto simp: fanout_replay_def replay_to_def received_map split: option.splits)
next
  case (FAudio p)
  then show ?thesis using assms by (auto simp: fanout_audio_def received_audio)
qed

lemma fanout_run_received:
  "on_stream f i \<Longrightarrow> list_all (leaves_alone i) as \<Longrightarrow> fanout_run f as = (f', ds) \<Longrightarrow> received i ds = videos as"
proof (induction as arbitrary: f ds)
  case (Cons a as)
  then obtain g es where g: "fanout_step f a = (g, es)" by fastforce
  with Cons.prems obtain fs where r: "fanout_run g as = (f', fs)" "ds = es @ fs" by (auto split: prod.splits)
  from fanout_step_received [OF Cons.prems(1) _ g] Cons.prems(2)
  have "on_stream g i" "received i es = videos [a]" by simp_all
  with Cons.IH [OF _ _ r(1)] Cons.prems(2) r(2) show ?case by (simp add: received_append videos_Cons [of a as])
qed simp


text \<open>Once closed a fan-out stays closed, and it never has consumers that came after the close.\<close>

lemma fanout_step_closed:
  "fo_closed f \<Longrightarrow> fanout_step f a = (f', ds) \<Longrightarrow>
   fo_closed f' \<and> set (fo_consumers f') \<subseteq> set (fo_consumers f)"
proof (cases a)
  case (FRemove j)
  have "remove_consumer j cs = Some cs' \<Longrightarrow> set cs' \<subseteq> set cs" for cs cs'
    by (induction cs arbitrary: cs') (auto split: if_splits)
  then show "fo_closed f \<Longrightarrow> fanout_step f a = (f', ds) \<Longrightarrow> ?thesis"
    using FRemove by (fastforce simp: fanout_remove_def split: option.splits)
qed (auto simp: fanout_add_def add_replay_def add_commit_def fanout_close_def fanout_video_def Let_def
    split: if_splits)

lemma fanout_run_closed:
  "fo_closed f \<Longrightarrow> fanout_run f as = (f', ds) \<Longrightarrow>
   fo_closed f' \<and> set (fo_consumers f') \<subseteq> set (fo_consumers f)"
proof (induction as arbitrary: f ds)
  case (Cons a as)
  then obtain g es where g: "fanout_step f a = (g, es)" by fastforce
  with Cons.prems obtain fs where r: "fanout_run g as = (f', fs)" by (auto split: prod.splits)
  from fanout_step_closed [OF Cons.prems(1) g] Cons.IH [of g fs] r show ?case by auto
qed simp

section \<open>Properties\<close>

text \<open>
  The keyframe cache after any run: it is the end of the video delivered so far, it begins with the
  start of a keyframe, every keyframe start in it belongs to that one access unit (the cache restarts at each new
  keyframe), and it holds at most 512 KiB, counted exactly.
\<close>

theorem keyframe_cache_invariant:
  "cache_ok (videos acts) (fst (fanout_run newFanout acts))"
  using fanout_run_cache [OF newFanout_cache] by (metis append_Nil prod.collapse)


definition sample_key :: Packet where
  "sample_key = \<lparr>pk_timestamp = 1, pk_sequence = 1, pk_ssrc = 9, pk_payload = [0x65, 0]\<rparr>"

definition sample_delta :: Packet where
  "sample_delta = \<lparr>pk_timestamp = 2, pk_sequence = 2, pk_ssrc = 9, pk_payload = [0x41, 0]\<rparr>"

definition all_events :: SourceEvents where
  "all_events = \<lparr>ev_VideoRTP = True, ev_AudioRTP = True, ev_RemoteBYE = True, ev_Failed = True\<rparr>"


text \<open>
  A stream nobody holds takes no new consumers: removing the last one closes the fan-out in the same step, and
  from then on, whatever follows, every join fails and nobody is on it. A consumer that was removed while
  others stay leaves the rest on the stream.
\<close>

theorem last_removal_closes:
  assumes "fanout_remove f i = (f1, remaining, True)" and "fanout_run f1 acts = (f2, ds)"
  shows "remaining = length (fo_consumers f1) \<and>
         (remaining = 0 \<longrightarrow> fo_consumers f2 = [] \<and> fo_closed f2 \<and> fanout_add f2 j ev = (f2, [] :: unit delivery_call list, False))"
proof -
  have "remaining = length (fo_consumers f1)" "remaining = 0 \<longrightarrow> fo_closed f1"
    using assms(1) by (auto simp: fanout_remove_def split: option.splits)
  with fanout_run_closed [OF _ assms(2)] show ?thesis by (auto simp: fanout_add_def add_replay_def)
qed

theorem last_removal_closes_witness:
  "\<exists>f1. fanout_remove (fst (fanout_run newFanout [FJoin 1 all_events])) 1 = (f1, 0, True) \<and>
     fanout_add (fst (fanout_run f1 [FVideo sample_key])) 2 all_events =
       (fst (fanout_run f1 [FVideo sample_key]), [] :: unit delivery_call list, False)"
proof -
  obtain f1 where f1: "fanout_remove (fst (fanout_run newFanout [FJoin 1 all_events])) 1 = (f1, 0, True)"
    by (simp add: newFanout_def fanout_add_def add_replay_def add_commit_def fanout_remove_def)
  obtain f2 ds where r: "fanout_run f1 [FVideo sample_key] = (f2, ds)" by fastforce
  from last_removal_closes [OF f1 r, of 2 all_events] f1 r show ?thesis by auto
qed

end
