(* ===== verification/Media_Coordinator.thy ===== *)
theory Media_Coordinator
  imports Config_Model Media_Fanout
begin

text \<open>
  The stream coordinator of \<^verbatim>\<open>src/internal/media/stream_coordinator.go\<close>, the sole owner of the
  intercom's one media source: who may take it, who shares it, and how it is torn down.

  Every critical section is a function on the record \<open>Coordinator\<close>. The fan-out and the startup signal are shared
  by pointer in the source (a consumer keeps the ones of its stream after the coordinator dropped them),
  so both live in stores indexed by the lease they were made for, \<open>co_fanouts\<close> and \<open>co_starts\<close>, and the
  pointers are lease numbers. What a section does after it released the lock is a list of \<open>coord_effect\<close>s.
  The probes' verdicts, the clock and what the source returns are arguments. \<open>coord_step\<close> lets
  the sections of concurrent acquires and teardowns interleave in any order.

  The lemmas give the invariant of the coordinator, that only a consumer that releases the stream as the last one ends
  the call, which acquires succeed, who may speak, and the order of events in which a source outlives its lease.
\<close>

section \<open>Data\<close>

datatype media_error =
    ErrStreamBusy | ErrExternalStream | ErrBackchannelUnavailable | ErrRingingCall | ErrRingingEnded
  | ErrRingingPreviewLost string | ErrCallEnded | ErrStreamStopped | SourceError string | StartupTimeout

definition trackFlowTimeout :: duration where "trackFlowTimeout = 5 * second"

record stopCause =
  sc_reason :: string
  sc_endsCall :: bool

definition causeConsumerReleased :: stopCause where
  "causeConsumerReleased = \<lparr>sc_reason = ''consumer released'', sc_endsCall = True\<rparr>"
definition causeConsumerLeft :: stopCause where
  "causeConsumerLeft = \<lparr>sc_reason = ''consumer left'', sc_endsCall = False\<rparr>"
definition causeRemoteBYE :: stopCause where
  "causeRemoteBYE = \<lparr>sc_reason = ''remote sip bye'', sc_endsCall = False\<rparr>"
definition causeControlStop :: stopCause where
  "causeControlStop = \<lparr>sc_reason = ''openwebnet stream stop'', sc_endsCall = False\<rparr>"
definition causeTracksStalled :: stopCause where
  "causeTracksStalled = \<lparr>sc_reason = ''rtp tracks stalled'', sc_endsCall = False\<rparr>"
definition causeSourceFailure :: stopCause where
  "causeSourceFailure = \<lparr>sc_reason = ''managed source failure'', sc_endsCall = False\<rparr>"
definition causeSourceCreation :: stopCause where
  "causeSourceCreation = \<lparr>sc_reason = ''source creation failed'', sc_endsCall = False\<rparr>"
definition causeStartupFailed :: stopCause where
  "causeStartupFailed = \<lparr>sc_reason = ''source startup failed'', sc_endsCall = False\<rparr>"
definition causeStartupTimedOut :: stopCause where
  "causeStartupTimedOut = \<lparr>sc_reason = ''source startup timed out'', sc_endsCall = False\<rparr>"
definition causeRingingEnded :: stopCause where
  "causeRingingEnded = \<lparr>sc_reason = ''ringing call ended'', sc_endsCall = False\<rparr>"
definition causeCallEnded :: stopCause where
  "causeCallEnded = \<lparr>sc_reason = ''call ended'', sc_endsCall = False\<rparr>"

lemmas cause_defs =
  causeConsumerReleased_def causeConsumerLeft_def causeRemoteBYE_def causeControlStop_def causeTracksStalled_def
  causeSourceFailure_def causeSourceCreation_def causeStartupFailed_def causeStartupTimedOut_def
  causeRingingEnded_def causeCallEnded_def

datatype StreamOwner = StreamOwnerIdle | StreamOwnerCompanion | StreamOwnerExternal

datatype StreamHealth =
    StreamHealthUnset | StreamHealthStarting | StreamHealthLive | StreamHealthVideoOnly
  | StreamHealthAudioOnly | StreamHealthStalled

record TrackState =
  Requested :: bool
  RequestedAt :: time
  FirstPacket :: time
  LastPacket :: time
  SSRC :: "32 word"
  Sequence :: "16 word"
  PacketCount :: "64 word"
  InvalidCount :: "64 word"

definition no_track :: TrackState where
  "no_track = \<lparr>Requested = False, RequestedAt = 0, FirstPacket = 0, LastPacket = 0, SSRC = 0, Sequence = 0,
               PacketCount = 0, InvalidCount = 0\<rparr>"

definition Flowing :: "TrackState \<Rightarrow> time \<Rightarrow> duration \<Rightarrow> bool" where
  "Flowing t now timeout \<longleftrightarrow> \<not> is_zero_time (LastPacket t) \<and> time_sub now (LastPacket t) \<le> timeout"

record StreamSnapshot =
  sn_LeaseID :: nat
  Owner :: StreamOwner
  sn_EntrypointID :: string
  sn_DevAddr :: string
  Video :: TrackState
  Audio :: TrackState
  Health :: StreamHealth

definition idle_snapshot :: StreamSnapshot where
  "idle_snapshot = \<lparr>sn_LeaseID = 0, Owner = StreamOwnerIdle, sn_EntrypointID = '''', sn_DevAddr = '''',
                    Video = no_track, Audio = no_track, Health = StreamHealthUnset\<rparr>"

definition streamHealth :: "StreamSnapshot \<Rightarrow> time \<Rightarrow> StreamHealth" where
  "streamHealth s now =
     (let videoFlowing = Flowing (Video s) now trackFlowTimeout;
          audioFlowing = Flowing (Audio s) now trackFlowTimeout in
      if videoFlowing \<and> audioFlowing then StreamHealthLive
      else if videoFlowing then StreamHealthVideoOnly
      else if audioFlowing then StreamHealthAudioOnly
      else if Requested (Video s) \<and> Requested (Audio s) then
        (if time_sub now (RequestedAt (Video s)) > trackFlowTimeout \<and>
            time_sub now (RequestedAt (Audio s)) > trackFlowTimeout
         then StreamHealthStalled else StreamHealthStarting)
      else StreamHealthStarting)"

record StreamLease =
  ls_id :: nat
  ls_consumer :: nat

record acquireMode =
  allowRinging :: bool
  shareable :: bool

definition ringingPreviewMode :: acquireMode where
  "ringingPreviewMode = \<lparr>allowRinging = True, shareable = True\<rparr>"

definition plainMode :: acquireMode where
  "plainMode = \<lparr>allowRinging = False, shareable = False\<rparr>"

record reservation =
  rv_lease :: StreamLease
  rv_preview :: bool
  rv_join :: bool

text \<open>A source: its identity and which of the optional capabilities it has.\<close>

record Source =
  so_ref :: nat
  so_callEnder :: bool
  so_ringing :: bool
  so_backchannel :: bool

datatype coord_effect =
    SourceEndCall Source
  | SourceClose Source
  | RunCleanup nat
  | CancelPromotion nat
  | ObserveState StreamSnapshot
  | GoPromote StreamLease "Source option"
  | Tell "media_error delivery_call"

record Coordinator =
  co_nextID :: nat
  co_leaseID :: nat
  co_controlLeaseID :: nat
  co_snapshot :: StreamSnapshot
  co_factory :: bool
  co_source :: "Source option"
  co_cleanup :: "nat option"
  co_starting :: bool
  co_stopping :: bool
  co_observer :: bool
  co_previewRinging :: bool
  co_promotePending :: bool
  co_leaseEvents :: "nat option"
  co_shared :: bool
  co_fanout :: "nat option"
  co_start :: "nat option"
  co_nextConsumer :: nat
  co_talker :: nat
  co_promoteCancel :: "nat option"
  co_fanouts :: "nat \<Rightarrow> fanout"
  co_starts :: "nat \<Rightarrow> media_error option option"

definition NewStreamCoordinator :: "bool \<Rightarrow> bool \<Rightarrow> Coordinator" where
  "NewStreamCoordinator factory observer =
     \<lparr>co_nextID = 0, co_leaseID = 0, co_controlLeaseID = 0, co_snapshot = idle_snapshot, co_factory = factory,
      co_source = None, co_cleanup = None, co_starting = False, co_stopping = False, co_observer = observer,
      co_previewRinging = False, co_promotePending = False, co_leaseEvents = None, co_shared = False,
      co_fanout = None, co_start = None, co_nextConsumer = 0, co_talker = 0, co_promoteCancel = None,
      co_fanouts = (\<lambda>_. newFanout), co_starts = (\<lambda>_. None)\<rparr>"

section \<open>Taking the stream\<close>

definition open_stream :: "Coordinator \<Rightarrow> bool \<Rightarrow> Entrypoint \<Rightarrow> bool \<Rightarrow> Coordinator" where
  "open_stream c ringing entrypoint shared =
     (let i = co_nextID c + 1 in
      c\<lparr>co_nextID := i, co_nextConsumer := co_nextConsumer c + 1, co_leaseID := i,
        co_controlLeaseID := 0, co_starting := True, co_previewRinging := ringing,
        co_promotePending := False, co_shared := shared, co_talker := 0,
        co_fanout := Some i, co_fanouts := (co_fanouts c)(i := newFanout),
        co_start := Some i, co_starts := (co_starts c)(i := None),
        co_snapshot := idle_snapshot\<lparr>sn_LeaseID := i, Owner := StreamOwnerCompanion,
          sn_EntrypointID := ep_id entrypoint, sn_DevAddr := DevAddr entrypoint,
          Health := StreamHealthStarting\<rparr>\<rparr>)"

definition reserve ::
  "Coordinator \<Rightarrow> bool \<Rightarrow> bool \<Rightarrow> Entrypoint \<Rightarrow> acquireMode \<Rightarrow> Coordinator \<times> (media_error, reservation) result" where
  "reserve c ringing answered entrypoint mode =
     (if ringing \<and> \<not> allowRinging mode then (c, Err ErrRingingCall)
      else
        let adopted = (Owner (co_snapshot c) = StreamOwnerExternal) in
        if adopted \<and> \<not> answered \<and> \<not> ringing then (c, Err ErrExternalStream)
        else if co_leaseID c \<noteq> 0 \<and> shareable mode \<and> co_shared c \<and> \<not> co_stopping c \<and>
                sn_EntrypointID (co_snapshot c) = ep_id entrypoint then
          (let c = c\<lparr>co_nextConsumer := co_nextConsumer c + 1\<rparr> in
           (c, Ok \<lparr>rv_lease = \<lparr>ls_id = co_leaseID c, ls_consumer = co_nextConsumer c\<rparr>,
                  rv_preview = False, rv_join = True\<rparr>))
        else if co_leaseID c \<noteq> 0 \<or> \<not> co_factory c then (c, Err ErrStreamBusy)
        else
          let c = open_stream c ringing entrypoint (shareable mode)
          in (c, Ok \<lparr>rv_lease = \<lparr>ls_id = co_leaseID c, ls_consumer = co_nextConsumer c\<rparr>,
                    rv_preview = ringing, rv_join = False\<rparr>))"

text \<open>\<^verbatim>\<open>f.add\<close> on the fan-out of a lease: what \<^verbatim>\<open>acquireReserved\<close> and \<^verbatim>\<open>join\<close> do with theirs.\<close>

definition add_consumer ::
  "Coordinator \<Rightarrow> StreamLease \<Rightarrow> SourceEvents \<Rightarrow> Coordinator \<times> coord_effect list \<times> bool" where
  "add_consumer c lease events =
     (case fanout_add (co_fanouts c (ls_id lease)) (ls_consumer lease) events of
        (f, ds, ok) \<Rightarrow> (c\<lparr>co_fanouts := (co_fanouts c)(ls_id lease := f)\<rparr>, map Tell ds, ok))"

text \<open>
  \<^verbatim>\<open>join\<close>: \<open>None\<close> while the startup it waits for is not over, else what it returns. \<open>timedOut\<close> is
  the joiner's own startup budget running out first.
\<close>

definition join_stream ::
  "Coordinator \<Rightarrow> reservation \<Rightarrow> SourceEvents \<Rightarrow> bool \<Rightarrow>
   (Coordinator \<times> coord_effect list \<times> (media_error, StreamLease) result) option" where
  "join_stream c r events timedOut =
     (if timedOut then Some (c, [], Err StartupTimeout)
      else case co_starts c (ls_id (rv_lease r)) of
        None \<Rightarrow> None
      | Some (Some err) \<Rightarrow> Some (c, [], Err err)
      | Some None \<Rightarrow>
          (case add_consumer c (rv_lease r) events of
             (c, effs, ok) \<Rightarrow> Some (c, effs, if ok then Ok (rv_lease r) else Err ErrStreamStopped)))"

definition attachSource ::
  "Coordinator \<Rightarrow> StreamLease \<Rightarrow> Source \<Rightarrow> nat option \<Rightarrow> Coordinator \<times> coord_effect list \<times> bool" where
  "attachSource c lease source cleanup =
     (if co_leaseID c \<noteq> ls_id lease
      then (c, SourceClose source # (case cleanup of None \<Rightarrow> [] | Some k \<Rightarrow> [RunCleanup k]), False)
      else (c\<lparr>co_source := Some source, co_cleanup := cleanup, co_leaseEvents := Some (ls_id lease)\<rparr>, [], True))"

section \<open>Promotion of a ringing preview\<close>

definition takePromotionLocked :: "Coordinator \<Rightarrow> time \<Rightarrow> Coordinator \<times> Source option" where
  "takePromotionLocked c now =
     (let audio = Audio (co_snapshot c);
          audio = audio\<lparr>Requested := True,
                        RequestedAt := (if is_zero_time (RequestedAt audio) then now else RequestedAt audio)\<rparr>
      in (c\<lparr>co_previewRinging := False, co_promotePending := False,
            co_snapshot := (co_snapshot c)\<lparr>Audio := audio\<rparr>, co_promoteCancel := Some (co_leaseID c)\<rparr>,
          case co_source c of Some s \<Rightarrow> if so_ringing s then Some s else None | None \<Rightarrow> None))"

definition finishStart :: "Coordinator \<Rightarrow> StreamLease \<Rightarrow> bool \<Rightarrow> time \<Rightarrow> Coordinator \<times> coord_effect list" where
  "finishStart c lease answered now =
     (if co_leaseID c = ls_id lease then
        let c = c\<lparr>co_starting := False\<rparr>;
            snapshot = co_snapshot c;
            start = co_start c;
            promote = (co_previewRinging c \<and> (co_promotePending c \<or> answered) \<and> \<not> co_stopping c);
            (c, source) = (if promote then takePromotionLocked c now else (c, None));
            c = (case start of
                   None \<Rightarrow> c
                 | Some i \<Rightarrow> (if co_starts c i = None then c\<lparr>co_starts := (co_starts c)(i := Some None)\<rparr> else c))
        in (c, (if co_observer c then [ObserveState snapshot] else []) @
               (if promote then [GoPromote lease source] else []))
      else (c, []))"

definition PromoteRinging :: "Coordinator \<Rightarrow> time \<Rightarrow> Coordinator \<times> coord_effect list" where
  "PromoteRinging c now =
     (if co_leaseID c = 0 \<or> \<not> co_previewRinging c \<or> co_stopping c then (c, [])
      else if co_starting c then (c\<lparr>co_promotePending := True\<rparr>, [])
      else
        let lease = \<lparr>ls_id = co_leaseID c, ls_consumer = 0\<rparr>;
            (c, source) = takePromotionLocked c now
        in (c, [GoPromote lease source]))"

definition leaseCurrent :: "Coordinator \<Rightarrow> StreamLease \<Rightarrow> bool" where
  "leaseCurrent c lease \<longleftrightarrow> co_leaseID c = ls_id lease \<and> \<not> co_stopping c"

definition releasePromotion :: "Coordinator \<Rightarrow> StreamLease \<Rightarrow> Coordinator \<times> coord_effect list" where
  "releasePromotion c lease =
     (if co_leaseID c = ls_id lease then
        (c\<lparr>co_promoteCancel := None\<rparr>,
         case co_promoteCancel c of Some p \<Rightarrow> [CancelPromotion p] | None \<Rightarrow> [])
      else (c, []))"

section \<open>Tearing down\<close>

record teardown =
  td_lease :: StreamLease
  td_source :: "Source option"
  td_cleanup :: "nat option"
  td_cause :: stopCause
  td_lost :: bool

definition fanout_of :: "Coordinator \<Rightarrow> fanout option" where
  "fanout_of c = map_option (co_fanouts c) (co_fanout c)"

definition close_fanout :: "Coordinator \<Rightarrow> Coordinator" where
  "close_fanout c =
     (case co_fanout c of
        None \<Rightarrow> c
      | Some i \<Rightarrow> c\<lparr>co_fanouts := (co_fanouts c)(i := fanout_close (co_fanouts c i))\<rparr>)"

text \<open>\<^verbatim>\<open>stop\<close> up to the point where it released the lock: the teardown it goes on with, if any.\<close>

definition stop_begin ::
  "Coordinator \<Rightarrow> StreamLease \<Rightarrow> stopCause \<Rightarrow> Coordinator \<times> coord_effect list \<times> teardown option" where
  "stop_begin c lease cause =
     (if co_leaseID c \<noteq> ls_id lease \<or> co_stopping c then (c, [], None)
      else
        let td = \<lparr>td_lease = lease, td_source = co_source c, td_cleanup = co_cleanup c, td_cause = cause,
                  td_lost = (co_previewRinging c \<and> (cause = causeControlStop \<or> cause = causeTracksStalled))\<rparr>;
            cancel = (case co_promoteCancel c of Some p \<Rightarrow> [CancelPromotion p] | None \<Rightarrow> []);
            c = close_fanout (c\<lparr>co_stopping := True, co_source := None, co_cleanup := None,
                                co_promoteCancel := None\<rparr>)
        in (c, cancel, Some td))"

text \<open>What \<^verbatim>\<open>finishStop\<close> does to the source before it takes the lock again.\<close>

definition teardown_effects :: "teardown \<Rightarrow> coord_effect list" where
  "teardown_effects td =
     (case td_source td of
        None \<Rightarrow> []
      | Some s \<Rightarrow> (if sc_endsCall (td_cause td) \<and> so_callEnder s then [SourceEndCall s] else []) @ [SourceClose s]) @
     (case td_cleanup td of None \<Rightarrow> [] | Some k \<Rightarrow> [RunCleanup k])"

text \<open>The critical section of \<^verbatim>\<open>finishStop\<close> and what follows it.\<close>

definition finishStop :: "Coordinator \<Rightarrow> teardown \<Rightarrow> Coordinator \<times> coord_effect list" where
  "finishStop c td =
     (let i = ls_id (td_lease td) in
      let told = (if td_lost td
                  then map Tell (fanout_failed (co_fanouts c i) (ErrRingingPreviewLost (sc_reason (td_cause td))))
                  else []) in
      if co_leaseID c = i then
        let start = co_start c;
            c = close_fanout c;
            c = c\<lparr>co_leaseID := 0, co_controlLeaseID := 0, co_starting := False, co_stopping := False,
                  co_previewRinging := False, co_promotePending := False, co_promoteCancel := None,
                  co_leaseEvents := None, co_shared := False, co_talker := 0, co_fanout := None, co_start := None,
                  co_snapshot := idle_snapshot\<rparr>;
            c = (case start of
                   None \<Rightarrow> c
                 | Some j \<Rightarrow>
                     (if co_starts c j = None
                      then c\<lparr>co_starts := (co_starts c)(j := Some (Some ErrStreamStopped))\<rparr> else c))
        in (c, (if co_observer c then [ObserveState (co_snapshot c)] else []) @ told)
      else (c, (if co_observer c then [ObserveState (co_snapshot c)] else []) @ told))"

text \<open>
  \<^verbatim>\<open>leave\<close> in its steps: the removal from the fan-out of the lease and the release of the uplink. The check of
  the lease before them fixes nothing, as the lease may end before the removal: the removal is taken to be possible in
  every state. The last consumer's \<^verbatim>\<open>leave\<close> goes on with \<^verbatim>\<open>stop\<close>.
\<close>

definition leave_remove :: "Coordinator \<Rightarrow> StreamLease \<Rightarrow> Coordinator \<times> nat \<times> bool" where
  "leave_remove c lease =
     (case fanout_remove (co_fanouts c (ls_id lease)) (ls_consumer lease) of
        (f, remaining, found) \<Rightarrow> (c\<lparr>co_fanouts := (co_fanouts c)(ls_id lease := f)\<rparr>, remaining, found))"

definition leave_talker :: "Coordinator \<Rightarrow> StreamLease \<Rightarrow> Coordinator" where
  "leave_talker c lease =
     (if co_leaseID c = ls_id lease \<and> co_talker c = ls_consumer lease then c\<lparr>co_talker := 0\<rparr> else c)"

text \<open>\<^verbatim>\<open>StopRinging\<close> and \<^verbatim>\<open>EndCall\<close> up to their call of \<^verbatim>\<open>stop\<close>, with what they tell the consumers after it.\<close>

definition StopRinging_begin :: "Coordinator \<Rightarrow> (StreamLease \<times> stopCause \<times> media_error) option" where
  "StopRinging_begin c =
     (if co_leaseID c = 0 \<or> \<not> co_previewRinging c then None
      else Some (\<lparr>ls_id = co_leaseID c, ls_consumer = 0\<rparr>, causeRingingEnded, ErrRingingEnded))"

definition EndCall_begin :: "Coordinator \<Rightarrow> (StreamLease \<times> stopCause \<times> media_error) option" where
  "EndCall_begin c =
     (if co_leaseID c = 0 then None
      else Some (\<lparr>ls_id = co_leaseID c, ls_consumer = 0\<rparr>,
                 if co_previewRinging c then causeRingingEnded else causeCallEnded,
                 if co_previewRinging c then ErrRingingEnded else ErrCallEnded))"

section \<open>Media and control frames\<close>

text \<open>\<^verbatim>\<open>WriteBackchannelRTP\<close> up to the call of the source; \<open>Ok s\<close> is the source the packet goes to.\<close>

definition WriteBackchannelRTP :: "Coordinator \<Rightarrow> StreamLease \<Rightarrow> Coordinator \<times> (media_error, Source) result" where
  "WriteBackchannelRTP c lease =
     (if co_leaseID c \<noteq> ls_id lease \<or> co_starting c \<or> co_stopping c \<or> co_previewRinging c
      then (c, Err ErrBackchannelUnavailable)
      else case co_source c of
        None \<Rightarrow> (c, Err ErrBackchannelUnavailable)
      | Some s \<Rightarrow>
          if \<not> so_backchannel s then (c, Err ErrBackchannelUnavailable)
          else
            let c = (case fanout_of c of
                       Some f \<Rightarrow> if co_talker c = 0 \<and> fanout_has f (ls_consumer lease)
                                then c\<lparr>co_talker := ls_consumer lease\<rparr> else c
                     | None \<Rightarrow> c)
            in if co_talker c \<noteq> ls_consumer lease then (c, Err ErrBackchannelUnavailable) else (c, Ok s))"

definition ReplayKeyframe :: "Coordinator \<Rightarrow> StreamLease \<Rightarrow> coord_effect list" where
  "ReplayKeyframe c lease =
     (if co_leaseID c = ls_id lease \<and> \<not> co_stopping c
      then (case fanout_of c of Some f \<Rightarrow> map Tell (fanout_replay f (ls_consumer lease)) | None \<Rightarrow> [])
      else [])"

definition request_track :: "TrackState \<Rightarrow> time \<Rightarrow> TrackState" where
  "request_track t now =
     t\<lparr>Requested := True, RequestedAt := (if is_zero_time (RequestedAt t) then now else RequestedAt t)\<rparr>"

definition observeRequestedTrackLocked :: "Coordinator \<Rightarrow> bool \<Rightarrow> time \<Rightarrow> Coordinator" where
  "observeRequestedTrackLocked c video now =
     (let s = co_snapshot c;
          s = (if co_leaseID c = 0 \<and> Owner s = StreamOwnerIdle then s\<lparr>Owner := StreamOwnerExternal\<rparr> else s);
          s = (if video then s\<lparr>Video := request_track (Video s) now\<rparr> else s\<lparr>Audio := request_track (Audio s) now\<rparr>)
      in c\<lparr>co_snapshot := s\<lparr>Health := streamHealth s now\<rparr>\<rparr>)"

definition ObserveControlTrack :: "Coordinator \<Rightarrow> bool \<Rightarrow> time \<Rightarrow> Coordinator" where
  "ObserveControlTrack c video now =
     (if co_leaseID c \<noteq> 0 then
        (if \<not> co_starting c then c
         else observeRequestedTrackLocked (c\<lparr>co_controlLeaseID := co_leaseID c\<rparr>) video now)
      else observeRequestedTrackLocked c video now)"

text \<open>\<^verbatim>\<open>ObserveControlStop\<close>: the state it leaves and the lease it goes on to stop.\<close>

definition ObserveControlStop :: "Coordinator \<Rightarrow> Coordinator \<times> StreamLease option" where
  "ObserveControlStop c =
     (if co_leaseID c = 0 then
        (if Owner (co_snapshot c) = StreamOwnerExternal then c\<lparr>co_snapshot := idle_snapshot\<rparr> else c, None)
      else if co_controlLeaseID c \<noteq> co_leaseID c then (c, None)
      else if co_starting c then (c, None)
      else (c, Some \<lparr>ls_id = co_leaseID c, ls_consumer = 0\<rparr>))"

definition packet_seen :: "TrackState \<Rightarrow> Packet \<Rightarrow> time \<Rightarrow> TrackState" where
  "packet_seen t p now =
     t\<lparr>PacketCount := PacketCount t + 1, SSRC := pk_ssrc p, Sequence := pk_sequence p, LastPacket := now,
       FirstPacket := (if is_zero_time (FirstPacket t) then now else FirstPacket t)\<rparr>"

definition ObserveRTPPacket :: "Coordinator \<Rightarrow> StreamLease \<Rightarrow> bool \<Rightarrow> Packet \<Rightarrow> time \<Rightarrow> Coordinator" where
  "ObserveRTPPacket c lease video packet now =
     (if co_leaseID c \<noteq> ls_id lease then c
      else
        let s = co_snapshot c;
            s = (if video then s\<lparr>Video := packet_seen (Video s) packet now\<rparr>
                 else s\<lparr>Audio := packet_seen (Audio s) packet now\<rparr>)
        in c\<lparr>co_snapshot := s\<lparr>Health := streamHealth s now\<rparr>\<rparr>)"

record RTPMetadata =
  md_PacketCount :: "64 word"
  md_InvalidCount :: "64 word"
  md_SSRC :: "32 word"
  md_LastPacketAt :: time

definition metadata_seen :: "TrackState \<Rightarrow> RTPMetadata \<Rightarrow> TrackState" where
  "metadata_seen t md =
     t\<lparr>PacketCount := md_PacketCount md, InvalidCount := md_InvalidCount md, SSRC := md_SSRC md,
       LastPacket := md_LastPacketAt md,
       FirstPacket := (if is_zero_time (FirstPacket t) \<and> \<not> is_zero_time (md_LastPacketAt md)
                       then md_LastPacketAt md else FirstPacket t)\<rparr>"

definition ObserveRTP :: "Coordinator \<Rightarrow> StreamLease \<Rightarrow> bool \<Rightarrow> RTPMetadata \<Rightarrow> time \<Rightarrow> Coordinator" where
  "ObserveRTP c lease video metadata now =
     (if co_leaseID c \<noteq> ls_id lease then c
      else
        let s = co_snapshot c;
            s = (if video then s\<lparr>Video := metadata_seen (Video s) metadata\<rparr>
                 else s\<lparr>Audio := metadata_seen (Audio s) metadata\<rparr>)
        in c\<lparr>co_snapshot := s\<lparr>Health := streamHealth s now\<rparr>\<rparr>)"

text \<open>\<^verbatim>\<open>Reconcile\<close> up to its stop: whether the watch ends here, and whether a stalled stream is to be stopped.\<close>

definition Reconcile :: "Coordinator \<Rightarrow> StreamLease \<Rightarrow> time \<Rightarrow> Coordinator \<times> bool \<times> bool" where
  "Reconcile c lease now =
     (if co_leaseID c \<noteq> ls_id lease then (c, True, False)
      else
        let s = (co_snapshot c)\<lparr>Health := streamHealth (co_snapshot c) now\<rparr>;
            stalled = (Health s = StreamHealthStalled)
        in (c\<lparr>co_snapshot := s\<rparr>, stalled, stalled))"

text \<open>
  \<^verbatim>\<open>promote\<close> once the source answered: whether it reports a failure through the stream's \<^verbatim>\<open>Failed\<close>, which is
  the input \<open>CSourceFailed\<close> below.
\<close>

definition promote_reports :: "Coordinator \<Rightarrow> StreamLease \<Rightarrow> Source option \<Rightarrow> bool \<Rightarrow> bool \<Rightarrow> bool" where
  "promote_reports c lease source answered canceled \<longleftrightarrow>
     source \<noteq> None \<and> \<not> answered \<and> \<not> canceled \<and> leaseCurrent c lease"

section \<open>Concurrent operations\<close>

text \<open>
  The coordinator with the operations that are between two of their critical sections: the acquires that hold a
  reservation of a new stream (\<open>cy_opening\<close>) or of one to join (\<open>cy_joining\<close>) or an attached source whose start runs (\<open>cy_starting\<close>), the consumers on
  their way out (\<open>cy_leaving\<close>), and the teardowns (\<open>cy_stopping\<close>). An input picks one of them by its
  position, or starts an operation.
\<close>

datatype after_stop = TellNobody | TellFailed media_error | TellRemoteBYE

definition after_stop_effects :: "after_stop \<Rightarrow> fanout \<Rightarrow> coord_effect list" where
  "after_stop_effects after f =
     (case after of
        TellNobody \<Rightarrow> []
      | TellFailed err \<Rightarrow> map Tell (fanout_failed f err)
      | TellRemoteBYE \<Rightarrow> map Tell (fanout_remoteBYE f))"

record CoordSys =
  cy_coord :: Coordinator
  cy_opening :: "reservation list"
  cy_joining :: "reservation list"
  cy_starting :: "(StreamLease \<times> Source) list"
  cy_leaving :: "(StreamLease \<times> stopCause \<times> bool) list"
  cy_stopping :: "(teardown \<times> after_stop) list"

datatype coord_input =
    CReserve bool bool Entrypoint acquireMode
  | CJoin nat SourceEvents bool
  | COpenAdd nat SourceEvents
  | CFactoryFailed nat "Source option" "nat option"
  | CAttach nat Source "nat option"
  | CStarted nat bool time
  | CStartFailed nat
  | CStartTimedOut nat
  | CLeave StreamLease stopCause
  | CLeaveTalker nat
  | CRemoteBYE StreamLease
  | CSourceFailed StreamLease string
  | CStopRinging
  | CEndCall
  | CControlStop
  | CFinish nat
  | CPromote time
  | CReleasePromotion StreamLease
  | CTrack bool time
  | CPacket StreamLease bool Packet time
  | CMetadata StreamLease bool RTPMetadata time
  | CReconcile StreamLease time
  | CTalk StreamLease

definition sys_stop ::
  "CoordSys \<Rightarrow> StreamLease \<Rightarrow> stopCause \<Rightarrow> after_stop \<Rightarrow> CoordSys \<times> coord_effect list \<times> bool" where
  "sys_stop s lease cause after =
     (case stop_begin (cy_coord s) lease cause of
        (c, effs, None) \<Rightarrow> (s\<lparr>cy_coord := c\<rparr>, effs, False)
      | (c, effs, Some td) \<Rightarrow>
          (s\<lparr>cy_coord := c, cy_stopping := cy_stopping s @ [(td, after)]\<rparr>, effs @ teardown_effects td, True))"

text \<open>A caller that goes on only when its stop was the one that counted, and one that tells the consumers anyway.\<close>

definition stop_quiet ::
  "CoordSys \<Rightarrow> StreamLease \<Rightarrow> stopCause \<Rightarrow> after_stop \<Rightarrow> CoordSys \<times> coord_effect list" where
  "stop_quiet s lease cause after = (case sys_stop s lease cause after of (s', effs, _) \<Rightarrow> (s', effs))"

definition stop_tell ::
  "CoordSys \<Rightarrow> StreamLease \<Rightarrow> stopCause \<Rightarrow> after_stop \<Rightarrow> CoordSys \<times> coord_effect list" where
  "stop_tell s lease cause after =
     (case sys_stop s lease cause after of
        (s', effs, stopped) \<Rightarrow>
          (s', effs @ (if stopped then [] else after_stop_effects after (co_fanouts (cy_coord s) (ls_id lease)))))"

fun coord_step :: "CoordSys \<Rightarrow> coord_input \<Rightarrow> CoordSys \<times> coord_effect list" where
  "coord_step s (CReserve ringing answered entrypoint mode) =
     (case reserve (cy_coord s) ringing answered entrypoint mode of
        (c, Inl _) \<Rightarrow> (s\<lparr>cy_coord := c\<rparr>, [])
      | (c, Inr r) \<Rightarrow>
          (s\<lparr>cy_coord := c, cy_opening := (if rv_join r then cy_opening s else cy_opening s @ [r]),
             cy_joining := (if rv_join r then cy_joining s @ [r] else cy_joining s)\<rparr>, []))"
| "coord_step s (CJoin n events timedOut) =
     (if n < length (cy_joining s) then
        (case join_stream (cy_coord s) (cy_joining s ! n) events timedOut of
           None \<Rightarrow> (s, [])
         | Some (c, effs, _) \<Rightarrow> (s\<lparr>cy_coord := c, cy_joining := drop_nth n (cy_joining s)\<rparr>, effs))
      else (s, []))"
| "coord_step s (COpenAdd n events) =
     (if n < length (cy_opening s) then
        (case add_consumer (cy_coord s) (rv_lease (cy_opening s ! n)) events of
           (c, effs, ok) \<Rightarrow>
             (s\<lparr>cy_coord := c, cy_opening := (if ok then cy_opening s else drop_nth n (cy_opening s))\<rparr>, effs))
      else (s, []))"
| "coord_step s (CFactoryFailed n source cleanup) =
     (if n < length (cy_opening s) then
        let td = \<lparr>td_lease = rv_lease (cy_opening s ! n), td_source = source, td_cleanup = cleanup,
                  td_cause = causeSourceCreation, td_lost = False\<rparr>
        in (s\<lparr>cy_opening := drop_nth n (cy_opening s), cy_stopping := cy_stopping s @ [(td, TellNobody)]\<rparr>, teardown_effects td)
      else (s, []))"
| "coord_step s (CAttach n source cleanup) =
     (if n < length (cy_opening s) then
        let lease = rv_lease (cy_opening s ! n) in
        case attachSource (cy_coord s) lease source cleanup of
          (c, effs, ok) \<Rightarrow>
            (s\<lparr>cy_coord := c, cy_opening := drop_nth n (cy_opening s),
               cy_starting := (if ok then cy_starting s @ [(lease, source)] else cy_starting s)\<rparr>, effs)
      else (s, []))"
| "coord_step s (CStarted n answered now) =
     (if n < length (cy_starting s) then
        (case finishStart (cy_coord s) (fst (cy_starting s ! n)) answered now of
           (c, effs) \<Rightarrow> (s\<lparr>cy_coord := c, cy_starting := drop_nth n (cy_starting s)\<rparr>, effs))
      else (s, []))"
| "coord_step s (CStartFailed n) =
     (if n < length (cy_starting s) then
        stop_quiet (s\<lparr>cy_starting := drop_nth n (cy_starting s)\<rparr>) (fst (cy_starting s ! n)) causeStartupFailed TellNobody
      else (s, []))"
| "coord_step s (CStartTimedOut n) =
     (if n < length (cy_starting s) then
        stop_quiet (s\<lparr>cy_starting := drop_nth n (cy_starting s)\<rparr>) (fst (cy_starting s ! n)) causeStartupTimedOut TellNobody
      else (s, []))"
| "coord_step s (CLeave lease cause) =
     (case leave_remove (cy_coord s) lease of
        (c, remaining, found) \<Rightarrow>
          if \<not> found then (s, [])
          else (s\<lparr>cy_coord := c, cy_leaving := cy_leaving s @ [(lease, cause, remaining = 0)]\<rparr>, []))"
| "coord_step s (CLeaveTalker n) =
     (if n < length (cy_leaving s) then
        (case cy_leaving s ! n of
           (lease, cause, lastOne) \<Rightarrow>
             let s = s\<lparr>cy_coord := leave_talker (cy_coord s) lease, cy_leaving := drop_nth n (cy_leaving s)\<rparr> in
             if lastOne then stop_quiet s lease cause TellNobody else (s, []))
      else (s, []))"
| "coord_step s (CRemoteBYE lease) = stop_tell s lease causeRemoteBYE TellRemoteBYE"
| "coord_step s (CSourceFailed lease err) = stop_tell s lease causeSourceFailure (TellFailed (SourceError err))"
| "coord_step s CStopRinging =
     (case StopRinging_begin (cy_coord s) of
        None \<Rightarrow> (s, [])
      | Some (lease, cause, told) \<Rightarrow> stop_quiet s lease cause (TellFailed told))"
| "coord_step s CEndCall =
     (case EndCall_begin (cy_coord s) of
        None \<Rightarrow> (s, [])
      | Some (lease, cause, told) \<Rightarrow> stop_quiet s lease cause (TellFailed told))"
| "coord_step s CControlStop =
     (case ObserveControlStop (cy_coord s) of
        (c, None) \<Rightarrow> (s\<lparr>cy_coord := c\<rparr>, [])
      | (c, Some lease) \<Rightarrow> stop_quiet (s\<lparr>cy_coord := c\<rparr>) lease causeControlStop TellNobody)"
| "coord_step s (CFinish n) =
     (if n < length (cy_stopping s) then
        (case cy_stopping s ! n of
           (td, after) \<Rightarrow>
             (case finishStop (cy_coord s) td of
                (c, effs) \<Rightarrow>
                  (s\<lparr>cy_coord := c, cy_stopping := drop_nth n (cy_stopping s)\<rparr>,
                   effs @ after_stop_effects after (co_fanouts c (ls_id (td_lease td))))))
      else (s, []))"
| "coord_step s (CPromote now) =
     (case PromoteRinging (cy_coord s) now of (c, effs) \<Rightarrow> (s\<lparr>cy_coord := c\<rparr>, effs))"
| "coord_step s (CReleasePromotion lease) =
     (case releasePromotion (cy_coord s) lease of (c, effs) \<Rightarrow> (s\<lparr>cy_coord := c\<rparr>, effs))"
| "coord_step s (CTrack video now) = (s\<lparr>cy_coord := ObserveControlTrack (cy_coord s) video now\<rparr>, [])"
| "coord_step s (CPacket lease video packet now) =
     (s\<lparr>cy_coord := ObserveRTPPacket (cy_coord s) lease video packet now\<rparr>, [])"
| "coord_step s (CMetadata lease video metadata now) =
     (s\<lparr>cy_coord := ObserveRTP (cy_coord s) lease video metadata now\<rparr>, [])"
| "coord_step s (CReconcile lease now) =
     (case Reconcile (cy_coord s) lease now of
        (c, _, stalled) \<Rightarrow>
          if stalled then stop_quiet (s\<lparr>cy_coord := c\<rparr>) lease causeTracksStalled TellNobody
          else (s\<lparr>cy_coord := c\<rparr>, []))"
| "coord_step s (CTalk lease) = (s\<lparr>cy_coord := fst (WriteBackchannelRTP (cy_coord s) lease)\<rparr>, [])"

fun coord_run :: "CoordSys \<Rightarrow> coord_input list \<Rightarrow> CoordSys \<times> coord_effect list" where
  "coord_run s [] = (s, [])"
| "coord_run s (i # is) =
     (case coord_step s i of (s', es) \<Rightarrow> (case coord_run s' is of (s'', fs) \<Rightarrow> (s'', es @ fs)))"


definition NewCoordSys :: "bool \<Rightarrow> bool \<Rightarrow> CoordSys" where
  "NewCoordSys factory observer =
     \<lparr>cy_coord = NewStreamCoordinator factory observer, cy_opening = [], cy_joining = [], cy_starting = [],
      cy_leaving = [], cy_stopping = []\<rparr>"

section \<open>Invariant\<close>

definition coord_wf :: "Coordinator \<Rightarrow> bool" where
  "coord_wf c \<longleftrightarrow>
     (co_leaseID c = 0 \<longrightarrow>
        \<not> co_starting c \<and> \<not> co_stopping c \<and> \<not> co_previewRinging c \<and> \<not> co_shared c \<and> co_talker c = 0 \<and>
        co_fanout c = None \<and> co_start c = None \<and> co_promoteCancel c = None \<and> co_controlLeaseID c = 0 \<and>
        Owner (co_snapshot c) \<noteq> StreamOwnerCompanion \<and> sn_LeaseID (co_snapshot c) = 0) \<and>
     (co_leaseID c \<noteq> 0 \<longrightarrow>
        co_leaseID c \<le> co_nextID c \<and> Owner (co_snapshot c) = StreamOwnerCompanion \<and>
        sn_LeaseID (co_snapshot c) = co_leaseID c \<and> co_fanout c = Some (co_leaseID c) \<and>
        co_start c = Some (co_leaseID c) \<and> co_controlLeaseID c \<in> {0, co_leaseID c}) \<and>
     (co_stopping c \<longrightarrow> fo_closed (co_fanouts c (co_leaseID c)) \<and> co_promoteCancel c = None) \<and>
     (co_promotePending c \<longrightarrow> co_previewRinging c) \<and>
     (\<forall>j. j = 0 \<or> j > co_nextID c \<longrightarrow> co_fanouts c j = newFanout)"

definition deserted :: "Coordinator \<Rightarrow> StreamLease \<Rightarrow> bool" where
  "deserted c lease \<longleftrightarrow> fo_consumers (co_fanouts c (ls_id lease)) = [] \<and> fo_closed (co_fanouts c (ls_id lease))"

definition known_lease :: "Coordinator \<Rightarrow> StreamLease \<Rightarrow> bool" where
  "known_lease c lease \<longleftrightarrow> 0 < ls_id lease \<and> ls_id lease \<le> co_nextID c"

definition coordsys_wf :: "CoordSys \<Rightarrow> bool" where
  "coordsys_wf s \<longleftrightarrow>
     coord_wf (cy_coord s) \<and>
     (\<forall>r \<in> set (cy_opening s). known_lease (cy_coord s) (rv_lease r)) \<and>
     (\<forall>r \<in> set (cy_joining s). known_lease (cy_coord s) (rv_lease r)) \<and>
     (\<forall>(lease, source) \<in> set (cy_starting s). known_lease (cy_coord s) lease) \<and>
     (\<forall>(lease, cause, lastOne) \<in> set (cy_leaving s).
        known_lease (cy_coord s) lease \<and> (lastOne \<longrightarrow> deserted (cy_coord s) lease)) \<and>
     (\<forall>(td, after) \<in> set (cy_stopping s). known_lease (cy_coord s) (td_lease td))"

text \<open>How an operation may change what the operations in flight rely on.\<close>

definition keeps :: "Coordinator \<Rightarrow> Coordinator \<Rightarrow> bool" where
  "keeps c c' \<longleftrightarrow>
     co_nextID c \<le> co_nextID c' \<and> (\<forall>lease. known_lease c lease \<longrightarrow> deserted c lease \<longrightarrow> deserted c' lease)"

section \<open>Lemmas\<close>

lemma keeps_refl [simp]: "keeps c c"
  by (simp add: keeps_def)

lemma keeps_known: "keeps c c' \<Longrightarrow> known_lease c lease \<Longrightarrow> known_lease c' lease"
  by (auto simp: keeps_def known_lease_def)

lemma keeps_same:
  "co_nextID c' = co_nextID c \<Longrightarrow> co_fanouts c' = co_fanouts c \<Longrightarrow> keeps c c'"
  by (simp add: keeps_def deserted_def known_lease_def)

text \<open>Updates the invariant does not look at, and the ones it allows while a lease is up.\<close>

lemma coord_wf_blind [simp]:
  "coord_wf (c\<lparr>co_source := s\<rparr>) = coord_wf c" "coord_wf (c\<lparr>co_cleanup := k\<rparr>) = coord_wf c"
  "coord_wf (c\<lparr>co_leaseEvents := l\<rparr>) = coord_wf c" "coord_wf (c\<lparr>co_nextConsumer := n\<rparr>) = coord_wf c"
  "coord_wf (c\<lparr>co_starts := st\<rparr>) = coord_wf c"
  by (simp_all add: coord_wf_def)

lemma coord_wf_leased:
  assumes "coord_wf c" and "co_leaseID c \<noteq> 0"
  shows "coord_wf (c\<lparr>co_talker := t\<rparr>)" and "coord_wf (c\<lparr>co_promoteCancel := None\<rparr>)"
    and "coord_wf (c\<lparr>co_controlLeaseID := co_leaseID c\<rparr>)"
    and "\<not> co_stopping c \<Longrightarrow> coord_wf (c\<lparr>co_promoteCancel := p\<rparr>)"
    and "coord_wf (c\<lparr>co_previewRinging := False, co_promotePending := False\<rparr>)"
  using assms by (simp_all add: coord_wf_def)

lemma coord_wf_cancel: "coord_wf c \<Longrightarrow> coord_wf (c\<lparr>co_promoteCancel := None\<rparr>)"
  by (simp add: coord_wf_def)

lemma coord_wf_pending: "coord_wf c \<Longrightarrow> co_previewRinging c \<Longrightarrow> coord_wf (c\<lparr>co_promotePending := True\<rparr>)"
  by (simp add: coord_wf_def)

lemma coord_wf_snapshot:
  assumes "coord_wf c" and "sn_LeaseID s = sn_LeaseID (co_snapshot c)"
    and "Owner s = StreamOwnerCompanion \<longleftrightarrow> Owner (co_snapshot c) = StreamOwnerCompanion"
  shows "coord_wf (c\<lparr>co_snapshot := s\<rparr>)"
  using assms by (cases "co_leaseID c = 0"; clarsimp simp: coord_wf_def)

lemma coord_wf_lease:
  "coord_wf c \<Longrightarrow> co_leaseID c \<noteq> 0 \<Longrightarrow>
   co_leaseID c \<le> co_nextID c \<and> co_fanout c = Some (co_leaseID c) \<and> co_start c = Some (co_leaseID c)"
  by (simp add: coord_wf_def)

lemma coord_wf_fresh: "coord_wf c \<Longrightarrow> j = 0 \<or> co_nextID c < j \<Longrightarrow> co_fanouts c j = newFanout"
  unfolding coord_wf_def by blast

lemma close_fanout_simps [simp]:
  "co_nextID (close_fanout c) = co_nextID c" "co_leaseID (close_fanout c) = co_leaseID c"
  "co_controlLeaseID (close_fanout c) = co_controlLeaseID c" "co_snapshot (close_fanout c) = co_snapshot c"
  "co_source (close_fanout c) = co_source c" "co_cleanup (close_fanout c) = co_cleanup c"
  "co_starting (close_fanout c) = co_starting c" "co_stopping (close_fanout c) = co_stopping c"
  "co_observer (close_fanout c) = co_observer c" "co_previewRinging (close_fanout c) = co_previewRinging c"
  "co_promotePending (close_fanout c) = co_promotePending c" "co_shared (close_fanout c) = co_shared c"
  "co_fanout (close_fanout c) = co_fanout c" "co_start (close_fanout c) = co_start c"
  "co_talker (close_fanout c) = co_talker c" "co_promoteCancel (close_fanout c) = co_promoteCancel c"
  "co_starts (close_fanout c) = co_starts c" "co_nextConsumer (close_fanout c) = co_nextConsumer c"
  by (simp_all add: close_fanout_def split: option.splits)

lemma close_fanout_fanouts:
  "co_fanouts (close_fanout c) j =
     (if co_fanout c = Some j then fanout_close (co_fanouts c j) else co_fanouts c j)"
  by (auto simp: close_fanout_def split: option.splits)

lemma fanout_close_simps [simp]:
  "fo_consumers (fanout_close f) = fo_consumers f" "fo_closed (fanout_close f)" "fo_cache (fanout_close f) = fo_cache f"
  by (simp_all add: fanout_close_def)

lemma reserve_cases:
  assumes "reserve c ringing answered ep mode = (c', r)"
  obtains (refused) e where "r = Inl e" "c' = c"
  | (joined) rv where "r = Inr rv" "rv_join rv" "ls_id (rv_lease rv) = co_leaseID c" "co_leaseID c \<noteq> 0"
      "c' = c\<lparr>co_nextConsumer := co_nextConsumer c + 1\<rparr>"
  | (opened) rv where "r = Inr rv" "\<not> rv_join rv" "ls_id (rv_lease rv) = co_nextID c + 1" "co_leaseID c = 0"
      "c' = open_stream c ringing ep (shareable mode)"
proof -
  let ?refuse = "ringing \<and> \<not> allowRinging mode \<or>
    Owner (co_snapshot c) = StreamOwnerExternal \<and> \<not> answered \<and> \<not> ringing"
  let ?join = "co_leaseID c \<noteq> 0 \<and> shareable mode \<and> co_shared c \<and> \<not> co_stopping c \<and>
    sn_EntrypointID (co_snapshot c) = ep_id ep"
  consider "?refuse" | "\<not> ?refuse" "?join" | "\<not> ?refuse" "\<not> ?join" "co_leaseID c \<noteq> 0 \<or> \<not> co_factory c"
    | "\<not> ?refuse" "\<not> ?join" "co_leaseID c = 0" "co_factory c" by blast
  then show thesis
  proof cases
    case 1
    then have "fst (reserve c ringing answered ep mode) = c \<and> (\<exists>e. snd (reserve c ringing answered ep mode) = Inl e)"
      by (auto simp: reserve_def)
    then show ?thesis using assms that(1) by auto
  next
    case 2
    then show ?thesis using assms that(2) by (auto simp: reserve_def Let_def)
  next
    case 3
    then have "reserve c ringing answered ep mode = (c, Inl ErrStreamBusy)" by (auto simp: reserve_def)
    then show ?thesis using assms that(1) by auto
  next
    case 4
    then have "reserve c ringing answered ep mode =
      (open_stream c ringing ep (shareable mode),
       Inr \<lparr>rv_lease = \<lparr>ls_id = co_nextID c + 1, ls_consumer = co_nextConsumer c + 1\<rparr>,
            rv_preview = ringing, rv_join = False\<rparr>)"
      by (auto simp: reserve_def Let_def open_stream_def)
    then show ?thesis using assms that(3) 4(3) by auto
  qed
qed

lemma open_stream_keeps:
  "coord_wf c \<Longrightarrow> co_leaseID c = 0 \<Longrightarrow> coord_wf (open_stream c ringing ep b) \<and> keeps c (open_stream c ringing ep b)"
  by (simp add: open_stream_def Let_def coord_wf_def keeps_def known_lease_def deserted_def idle_snapshot_def)

lemma reserve_keeps:
  assumes "coord_wf c" and "reserve c ringing answered ep mode = (c', r)"
  shows "coord_wf c' \<and> keeps c c' \<and> (\<forall>rv. r = Inr rv \<longrightarrow> known_lease c' (rv_lease rv))"
  using assms(2)
proof (cases rule: reserve_cases)
  case (refused e)
  then show ?thesis using assms(1) by simp
next
  case (joined rv)
  then show ?thesis using assms(1) coord_wf_lease [OF assms(1)] by (simp add: keeps_same known_lease_def)
next
  case (opened rv)
  then show ?thesis using open_stream_keeps [OF assms(1) opened(4)] by (auto simp: known_lease_def open_stream_def Let_def)
qed

lemma fanout_update_keeps:
  assumes "coord_wf c" and "known_lease c lease"
    and "fo_closed (co_fanouts c (ls_id lease)) \<longrightarrow> fo_closed f"
    and "deserted c lease \<longrightarrow> fo_consumers f = []"
  shows "coord_wf (c\<lparr>co_fanouts := (co_fanouts c)(ls_id lease := f)\<rparr>) \<and>
         keeps c (c\<lparr>co_fanouts := (co_fanouts c)(ls_id lease := f)\<rparr>)"
proof -
  let ?c = "c\<lparr>co_fanouts := (co_fanouts c)(ls_id lease := f)\<rparr>"
  have "coord_wf ?c"
    using assms(1-3) by (cases "co_leaseID c = ls_id lease") (simp_all add: coord_wf_def known_lease_def)
  moreover have "deserted ?c l" if "deserted c l" for l
    using that assms(3,4) by (cases "ls_id l = ls_id lease") (simp_all add: deserted_def)
  ultimately show ?thesis by (simp add: keeps_def)
qed

lemma add_consumer_keeps:
  assumes "coord_wf c" and "known_lease c lease" and "add_consumer c lease ev = (c', effs, ok)"
  shows "coord_wf c' \<and> keeps c c'"
proof (cases "fo_closed (co_fanouts c (ls_id lease))")
  case True
  then have "c' = c" using assms(3) by (simp add: add_consumer_def fanout_add_def add_replay_def)
  then show ?thesis using assms(1) by simp
next
  case False
  then obtain f where "c' = c\<lparr>co_fanouts := (co_fanouts c)(ls_id lease := f)\<rparr>"
    using assms(3) by (auto simp: add_consumer_def fanout_add_def add_replay_def add_commit_def)
  then show ?thesis using fanout_update_keeps [OF assms(1,2), of f] False by (simp add: deserted_def)
qed

lemma join_stream_keeps:
  assumes "coord_wf c" and "known_lease c (rv_lease r)" and "join_stream c r ev b = Some (c', effs, res)"
  shows "coord_wf c' \<and> keeps c c'"
  using assms add_consumer_keeps [OF assms(1,2)]
  by (auto simp: join_stream_def split: if_splits option.splits prod.splits)

lemma attachSource_keeps:
  assumes "coord_wf c" and "attachSource c lease source cleanup = (c', effs, ok)"
  shows "coord_wf c' \<and> keeps c c'"
  using assms by (auto simp: attachSource_def intro: keeps_same split: if_splits)

lemma takePromotionLocked_keeps:
  assumes "coord_wf c" and "\<not> co_stopping c" and "co_leaseID c \<noteq> 0" and "takePromotionLocked c now = (c', source)"
  shows "coord_wf c' \<and> keeps c c'"
proof -
  let ?a = "Audio (co_snapshot c)"
  let ?s = "(co_snapshot c)\<lparr>Audio := ?a\<lparr>Requested := True,
    RequestedAt := (if is_zero_time (RequestedAt ?a) then now else RequestedAt ?a)\<rparr>\<rparr>"
  let ?d = "c\<lparr>co_previewRinging := False, co_promotePending := False\<rparr>"
  have c': "c' = ?d\<lparr>co_snapshot := ?s, co_promoteCancel := Some (co_leaseID c)\<rparr>"
    using assms(4) by (simp add: takePromotionLocked_def Let_def)
  have "coord_wf ?d" by (rule coord_wf_leased(5) [OF assms(1,3)])
  then have "coord_wf (?d\<lparr>co_snapshot := ?s\<rparr>)" by (rule coord_wf_snapshot) simp_all
  then have "coord_wf c'" unfolding c' using coord_wf_leased(4) [of "?d\<lparr>co_snapshot := ?s\<rparr>"] assms(2,3) by simp
  then show ?thesis by (simp add: c' keeps_same)
qed


lemma finish_start_signal:
  "coord_wf (case s of None \<Rightarrow> c | Some i \<Rightarrow> (if co_starts c i = None then c\<lparr>co_starts := (co_starts c)(i := v)\<rparr> else c)) = coord_wf c"
  "keeps d (case s of None \<Rightarrow> c | Some i \<Rightarrow> (if co_starts c i = None then c\<lparr>co_starts := (co_starts c)(i := v)\<rparr> else c)) = keeps d c"
  by (auto simp: coord_wf_def keeps_def deserted_def known_lease_def split: option.splits)

lemma coord_wf_starting: "coord_wf c \<Longrightarrow> coord_wf (c\<lparr>co_starting := False\<rparr>)"
  by (simp add: coord_wf_def)

lemma finishStart_keeps:
  assumes "coord_wf c" and "known_lease c lease" and "finishStart c lease answered now = (c', effs)"
  shows "coord_wf c' \<and> keeps c c'"
proof (cases "co_leaseID c = ls_id lease")
  case False
  then show ?thesis using assms by (simp add: finishStart_def)
next
  case True
  let ?c = "c\<lparr>co_starting := False\<rparr>"
  have w: "coord_wf ?c" by (rule coord_wf_starting [OF assms(1)])
  have k: "keeps c ?c" by (simp add: keeps_same)
  define promote where "promote = (co_previewRinging ?c \<and> (co_promotePending ?c \<or> answered) \<and> \<not> co_stopping ?c)"
  obtain d source where d: "(if promote then takePromotionLocked ?c now else (?c, None)) = (d, source)" by fastforce
  have "coord_wf d \<and> keeps ?c d"
    using d w takePromotionLocked_keeps [OF w, of now d source] True assms(2)
    by (auto simp: promote_def known_lease_def split: if_splits)
  moreover have "keeps c d" if "keeps ?c d" using that by (simp add: keeps_def known_lease_def deserted_def)
  moreover have "c' = (case co_start ?c of None \<Rightarrow> d
      | Some i \<Rightarrow> (if co_starts d i = None then d\<lparr>co_starts := (co_starts d)(i := Some None)\<rparr> else d))"
    using assms(3) True d by (simp add: finishStart_def Let_def promote_def split: prod.splits)
  ultimately show ?thesis by (simp add: finish_start_signal)
qed

lemma PromoteRinging_keeps:
  assumes "coord_wf c" and "PromoteRinging c now = (c', effs)"
  shows "coord_wf c' \<and> keeps c c'"
proof (cases "co_leaseID c = 0 \<or> \<not> co_previewRinging c \<or> co_stopping c \<or> co_starting c")
  case True
  then have "c' = c \<or> c' = c\<lparr>co_promotePending := True\<rparr> \<and> co_previewRinging c"
    using assms(2) by (auto simp: PromoteRinging_def split: if_splits)
  then show ?thesis using assms(1) coord_wf_pending [OF assms(1)] by (auto simp: keeps_same)
next
  case False
  then show ?thesis using assms takePromotionLocked_keeps [OF assms(1), of now]
    by (auto simp: PromoteRinging_def Let_def split: prod.splits)
qed

lemma releasePromotion_keeps:
  assumes "coord_wf c" and "releasePromotion c lease = (c', effs)"
  shows "coord_wf c' \<and> keeps c c'"
  using assms coord_wf_cancel [OF assms(1)] by (auto simp: releasePromotion_def keeps_same split: if_splits)

lemma keeps_closed:
  assumes "co_nextID c' = co_nextID c"
    and "\<And>j. co_fanouts c' j = co_fanouts c j \<or> co_fanouts c' j = fanout_close (co_fanouts c j)"
  shows "keeps c c'"
  unfolding keeps_def deserted_def
  using assms by (metis fanout_close_simps(1,2) order_refl)

lemma stop_begin_cases:
  assumes "stop_begin c lease cause = (c', effs, td)"
  obtains (ignored) "td = None" "c' = c" "effs = []"
  | (begun) "co_leaseID c = ls_id lease" "\<not> co_stopping c"
      "td = Some \<lparr>td_lease = lease, td_source = co_source c, td_cleanup = co_cleanup c, td_cause = cause,
                  td_lost = (co_previewRinging c \<and> (cause = causeControlStop \<or> cause = causeTracksStalled))\<rparr>"
      "c' = close_fanout (c\<lparr>co_stopping := True, co_source := None, co_cleanup := None, co_promoteCancel := None\<rparr>)"
      "effs = (case co_promoteCancel c of Some p \<Rightarrow> [CancelPromotion p] | None \<Rightarrow> [])"
proof (cases "co_leaseID c \<noteq> ls_id lease \<or> co_stopping c")
  case True
  then show ?thesis using assms ignored by (auto simp: stop_begin_def)
next
  case False
  then show ?thesis using assms begun by (simp add: stop_begin_def Let_def)
qed

lemma stop_begin_keeps:
  assumes "coord_wf c" and "co_leaseID c = ls_id lease \<longrightarrow> ls_id lease \<noteq> 0" and "stop_begin c lease cause = (c', effs, td)"
  shows "coord_wf c' \<and> keeps c c'"
  using assms(3)
proof (cases rule: stop_begin_cases)
  case ignored
  then show ?thesis using assms(1) by simp
next
  case begun
  have "keeps c c'" unfolding begun(4) by (rule keeps_closed) (auto simp: close_fanout_fanouts)
  moreover have "coord_wf c'"
    using assms(1,2) begun(1) unfolding begun(4) coord_wf_def by (auto simp: close_fanout_fanouts)
  ultimately show ?thesis by simp
qed

text \<open>The coordinator after the end of a lease.\<close>

definition cleared :: "Coordinator \<Rightarrow> Coordinator" where
  "cleared c =
     (close_fanout c)\<lparr>co_leaseID := 0, co_controlLeaseID := 0, co_starting := False, co_stopping := False,
        co_previewRinging := False, co_promotePending := False, co_promoteCancel := None,
        co_leaseEvents := None, co_shared := False, co_talker := 0, co_fanout := None, co_start := None,
        co_snapshot := idle_snapshot\<rparr>"

lemma cleared_keeps: "coord_wf c \<Longrightarrow> coord_wf (cleared c) \<and> keeps c (cleared c)"
proof -
  assume w: "coord_wf c"
  have "keeps c (cleared c)" by (rule keeps_closed) (auto simp: cleared_def close_fanout_fanouts)
  moreover have "co_leaseID c = 0 \<Longrightarrow> co_fanout c = None" using w by (simp add: coord_wf_def)
  then have "coord_wf (cleared c)" using coord_wf_fresh [OF w] coord_wf_lease [OF w]
    by (cases "co_leaseID c = 0") (simp_all add: cleared_def coord_wf_def [of "_\<lparr>co_snapshot := _\<rparr>"] idle_snapshot_def close_fanout_fanouts)
  ultimately show ?thesis by simp
qed

lemma finishStop_state:
  "fst (finishStop c td) =
     (if co_leaseID c = ls_id (td_lease td)
      then case co_start c of
             None \<Rightarrow> cleared c
           | Some j \<Rightarrow> (if co_starts (cleared c) j = None
                        then (cleared c)\<lparr>co_starts := (co_starts (cleared c))(j := Some (Some ErrStreamStopped))\<rparr>
                        else cleared c)
      else c)"
  by (simp add: finishStop_def Let_def cleared_def split: option.splits)

lemma finishStop_keeps:
  assumes "coord_wf c" and "finishStop c td = (c', effs)"
  shows "coord_wf c' \<and> keeps c c'"
proof -
  have "c' = fst (finishStop c td)" using assms(2) by simp
  then show ?thesis using assms(1) cleared_keeps [OF assms(1)] finish_start_signal
    unfolding finishStop_state by (cases "co_leaseID c = ls_id (td_lease td)") auto
qed

lemma fanout_remove_found:
  assumes "fanout_remove f i = (f', remaining, True)"
  shows "(fo_closed f \<longrightarrow> fo_closed f') \<and> fo_consumers f \<noteq> [] \<and>
         (remaining = 0 \<longrightarrow> fo_consumers f' = [] \<and> fo_closed f')"
  using assms by (auto simp: fanout_remove_def split: option.splits)

lemma leave_remove_keeps:
  assumes "coord_wf c" and "leave_remove c lease = (c', remaining, True)"
  shows "coord_wf c' \<and> keeps c c' \<and> known_lease c' lease \<and> (remaining = 0 \<longrightarrow> deserted c' lease)"
proof -
  obtain f where f: "fanout_remove (co_fanouts c (ls_id lease)) (ls_consumer lease) = (f, remaining, True)"
    and c': "c' = c\<lparr>co_fanouts := (co_fanouts c)(ls_id lease := f)\<rparr>"
    using assms(2) by (auto simp: leave_remove_def split: prod.splits)
  note r = fanout_remove_found [OF f]
  have "\<not> (ls_id lease = 0 \<or> co_nextID c < ls_id lease)"
  proof
    assume "ls_id lease = 0 \<or> co_nextID c < ls_id lease"
    then have "co_fanouts c (ls_id lease) = newFanout" by (rule coord_wf_fresh [OF assms(1)])
    then show False using r by (simp add: newFanout_def)
  qed
  then have k: "known_lease c lease" by (simp add: known_lease_def)
  have d: "deserted c lease \<longrightarrow> fo_consumers f = []" using r by (simp add: deserted_def)
  from fanout_update_keeps [OF assms(1) k _ d] r c' have "coord_wf c' \<and> keeps c c'" by simp
  moreover have "remaining = 0 \<longrightarrow> deserted c' lease" using r c' by (simp add: deserted_def)
  ultimately show ?thesis using k keeps_known by blast
qed

lemma coord_wf_idle_talker: "coord_wf c \<Longrightarrow> co_leaseID c = 0 \<Longrightarrow> coord_wf (c\<lparr>co_talker := 0\<rparr>)"
  by (clarsimp simp: coord_wf_def)

lemma leave_talker_keeps: "coord_wf c \<Longrightarrow> coord_wf (leave_talker c lease) \<and> keeps c (leave_talker c lease)"
  by (cases "co_leaseID c = 0") (auto simp: leave_talker_def keeps_same coord_wf_leased coord_wf_idle_talker)

lemma WriteBackchannelRTP_keeps:
  assumes "coord_wf c" and "ls_id lease \<noteq> 0"
  shows "coord_wf (fst (WriteBackchannelRTP c lease)) \<and> keeps c (fst (WriteBackchannelRTP c lease))"
proof -
  have "fst (WriteBackchannelRTP c lease) = c \<or>
        co_leaseID c = ls_id lease \<and> fst (WriteBackchannelRTP c lease) = c\<lparr>co_talker := ls_consumer lease\<rparr>"
    by (auto simp: WriteBackchannelRTP_def Let_def split: option.splits)
  then show ?thesis using assms coord_wf_leased(1) [OF assms(1)] by (auto simp: keeps_same)
qed

lemma snapshot_keeps:
  assumes "coord_wf c" and "sn_LeaseID s = sn_LeaseID (co_snapshot c)"
    and "Owner s = StreamOwnerCompanion \<longleftrightarrow> Owner (co_snapshot c) = StreamOwnerCompanion"
  shows "coord_wf (c\<lparr>co_snapshot := s\<rparr>) \<and> keeps c (c\<lparr>co_snapshot := s\<rparr>)"
  using coord_wf_snapshot [OF assms] by (simp add: keeps_same)

lemma observeRequestedTrackLocked_keeps:
  assumes "coord_wf c"
  shows "coord_wf (observeRequestedTrackLocked c video now) \<and> keeps c (observeRequestedTrackLocked c video now)"
  unfolding observeRequestedTrackLocked_def Let_def by (rule snapshot_keeps [OF assms]) simp_all

lemma ObserveControlTrack_keeps:
  assumes "coord_wf c"
  shows "coord_wf (ObserveControlTrack c video now) \<and> keeps c (ObserveControlTrack c video now)"
proof (cases "co_leaseID c \<noteq> 0 \<and> co_starting c")
  case True
  let ?c = "c\<lparr>co_controlLeaseID := co_leaseID c\<rparr>"
  have "coord_wf ?c" using coord_wf_leased(3) [OF assms] True by simp
  from observeRequestedTrackLocked_keeps [OF this, of video now] True
  show ?thesis by (simp add: ObserveControlTrack_def keeps_def known_lease_def deserted_def)
next
  case False
  then show ?thesis using assms observeRequestedTrackLocked_keeps [OF assms, of video now]
    by (auto simp: ObserveControlTrack_def)
qed

lemma ObserveControlStop_keeps:
  assumes "coord_wf c" and "ObserveControlStop c = (c', l)"
  shows "coord_wf c' \<and> keeps c c' \<and> (\<forall>lease. l = Some lease \<longrightarrow> ls_id lease \<noteq> 0)"
proof (cases "co_leaseID c = 0 \<and> Owner (co_snapshot c) = StreamOwnerExternal")
  case True
  have "coord_wf (c\<lparr>co_snapshot := idle_snapshot\<rparr>)" using assms(1) True by (clarsimp simp: coord_wf_def idle_snapshot_def)
  then show ?thesis using assms(2) True by (auto simp: ObserveControlStop_def keeps_same)
next
  case False
  then have "c' = c" "\<forall>lease. l = Some lease \<longrightarrow> ls_id lease \<noteq> 0"
    using assms(2) by (auto simp: ObserveControlStop_def split: if_splits)
  then show ?thesis using assms(1) by simp
qed

lemma ObserveRTPPacket_keeps:
  "coord_wf c \<Longrightarrow> coord_wf (ObserveRTPPacket c lease video p now) \<and> keeps c (ObserveRTPPacket c lease video p now)"
  unfolding ObserveRTPPacket_def Let_def using snapshot_keeps [of c] by simp

lemma ObserveRTP_keeps:
  "coord_wf c \<Longrightarrow> coord_wf (ObserveRTP c lease video md now) \<and> keeps c (ObserveRTP c lease video md now)"
  unfolding ObserveRTP_def Let_def using snapshot_keeps [of c] by simp

lemma Reconcile_keeps:
  assumes "coord_wf c" and "Reconcile c lease now = (c', b, stalled)"
  shows "coord_wf c' \<and> keeps c c'"
  using assms snapshot_keeps [OF assms(1), of "(co_snapshot c)\<lparr>Health := streamHealth (co_snapshot c) now\<rparr>"]
  by (auto simp: Reconcile_def Let_def split: if_splits)


section \<open>Interleavings\<close>

text \<open>An operation that keeps what the others rely on keeps the whole invariant.\<close>

lemma coordsys_wf_coord:
  assumes "coordsys_wf s" and "coord_wf c" and "keeps (cy_coord s) c"
  shows "coordsys_wf (s\<lparr>cy_coord := c\<rparr>)"
  using assms keeps_known [OF assms(3)] unfolding coordsys_wf_def keeps_def by fastforce

lemma coordsys_wf_shrink:
  assumes "coordsys_wf s"
  shows "coordsys_wf (s\<lparr>cy_opening := drop_nth n (cy_opening s)\<rparr>)"
    and "coordsys_wf (s\<lparr>cy_joining := drop_nth n (cy_joining s)\<rparr>)"
    and "coordsys_wf (s\<lparr>cy_starting := drop_nth n (cy_starting s)\<rparr>)"
    and "coordsys_wf (s\<lparr>cy_leaving := drop_nth n (cy_leaving s)\<rparr>)"
    and "coordsys_wf (s\<lparr>cy_stopping := drop_nth n (cy_stopping s)\<rparr>)"
  using assms unfolding coordsys_wf_def by (auto dest: subsetD [OF drop_nth_subset])

lemma coordsys_wf_grow:
  assumes "coordsys_wf s"
  shows "known_lease (cy_coord s) (rv_lease r) \<Longrightarrow> coordsys_wf (s\<lparr>cy_opening := cy_opening s @ [r]\<rparr>)"
    and "known_lease (cy_coord s) (rv_lease r) \<Longrightarrow> coordsys_wf (s\<lparr>cy_joining := cy_joining s @ [r]\<rparr>)"
    and "known_lease (cy_coord s) l \<Longrightarrow> coordsys_wf (s\<lparr>cy_starting := cy_starting s @ [(l, so)]\<rparr>)"
    and "known_lease (cy_coord s) l \<Longrightarrow> (b \<longrightarrow> deserted (cy_coord s) l) \<Longrightarrow>
         coordsys_wf (s\<lparr>cy_leaving := cy_leaving s @ [(l, cause, b)]\<rparr>)"
    and "known_lease (cy_coord s) (td_lease td) \<Longrightarrow> coordsys_wf (s\<lparr>cy_stopping := cy_stopping s @ [(td, a)]\<rparr>)"
  using assms unfolding coordsys_wf_def by auto

lemma coordsys_wf_nth:
  assumes "coordsys_wf s"
  shows "n < length (cy_opening s) \<Longrightarrow> known_lease (cy_coord s) (rv_lease (cy_opening s ! n))"
    and "n < length (cy_joining s) \<Longrightarrow> known_lease (cy_coord s) (rv_lease (cy_joining s ! n))"
    and "n < length (cy_starting s) \<Longrightarrow> known_lease (cy_coord s) (fst (cy_starting s ! n))"
    and "n < length (cy_leaving s) \<Longrightarrow> cy_leaving s ! n = (l, cause, b) \<Longrightarrow>
         known_lease (cy_coord s) l \<and> (b \<longrightarrow> deserted (cy_coord s) l)"
    and "n < length (cy_stopping s) \<Longrightarrow> known_lease (cy_coord s) (td_lease (fst (cy_stopping s ! n)))"
  using assms unfolding coordsys_wf_def by (auto dest: bspec [OF _ nth_mem] simp: case_prod_beta)

lemma sys_stop_wf:
  assumes "coordsys_wf s" and "known_lease (cy_coord s) lease" and "sys_stop s lease cause after = (s', effs, b)"
  shows "coordsys_wf s'"
proof -
  obtain c e td where st: "stop_begin (cy_coord s) lease cause = (c, e, td)" by (metis prod_cases3)
  have w: "coord_wf (cy_coord s)" using assms(1) by (simp add: coordsys_wf_def)
  have "coord_wf c \<and> keeps (cy_coord s) c"
    by (rule stop_begin_keeps [OF w _ st]) (use assms(2) in \<open>simp add: known_lease_def\<close>)
  then have 1: "coordsys_wf (s\<lparr>cy_coord := c\<rparr>)" and k: "known_lease c lease"
    using coordsys_wf_coord [OF assms(1)] keeps_known assms(2) by blast+
  show ?thesis
  proof (cases td)
    case None
    then show ?thesis using assms(3) st 1 by (simp add: sys_stop_def)
  next
    case (Some t)
    from st Some have "td_lease t = lease" by (cases rule: stop_begin_cases) auto
    then show ?thesis using assms(3) st Some coordsys_wf_grow(5) [OF 1, of t after] k by (simp add: sys_stop_def)
  qed
qed

lemma stop_quiet_wf:
  "coordsys_wf s \<Longrightarrow> known_lease (cy_coord s) lease \<Longrightarrow> stop_quiet s lease cause after = (s', effs) \<Longrightarrow> coordsys_wf s'"
  using sys_stop_wf by (fastforce simp: stop_quiet_def split: prod.splits)

lemma stop_tell_wf:
  "coordsys_wf s \<Longrightarrow> known_lease (cy_coord s) lease \<Longrightarrow> stop_tell s lease cause after = (s', effs) \<Longrightarrow> coordsys_wf s'"
  using sys_stop_wf by (fastforce simp: stop_tell_def split: prod.splits)

lemma current_known:
  "coordsys_wf s \<Longrightarrow> co_leaseID (cy_coord s) \<noteq> 0 \<Longrightarrow> ls_id lease = co_leaseID (cy_coord s) \<Longrightarrow>
   known_lease (cy_coord s) lease"
  using coord_wf_lease [of "cy_coord s"] by (simp add: coordsys_wf_def known_lease_def)

text \<open>The inputs that name a lease name one a reservation returned.\<close>

fun coord_input_ok :: "CoordSys \<Rightarrow> coord_input \<Rightarrow> bool" where
  "coord_input_ok s (CLeave lease cause) = (cause \<in> {causeConsumerReleased, causeConsumerLeft})"
| "coord_input_ok s (CRemoteBYE lease) = known_lease (cy_coord s) lease"
| "coord_input_ok s (CSourceFailed lease _) = known_lease (cy_coord s) lease"
| "coord_input_ok s (CReconcile lease _) = known_lease (cy_coord s) lease"
| "coord_input_ok s (CTalk lease) = known_lease (cy_coord s) lease"
| "coord_input_ok s _ = True"

fun coord_inputs_ok :: "CoordSys \<Rightarrow> coord_input list \<Rightarrow> bool" where
  "coord_inputs_ok s [] = True"
| "coord_inputs_ok s (i # is) = (coord_input_ok s i \<and> coord_inputs_ok (fst (coord_step s i)) is)"

lemma coord_step_wf:
  assumes "coordsys_wf s" and "coord_input_ok s i" and "coord_step s i = (s', effs)"
  shows "coordsys_wf s'"
proof -
  have w: "coord_wf (cy_coord s)" using assms(1) by (simp add: coordsys_wf_def)
  note C = coordsys_wf_coord [OF assms(1)]
  show ?thesis
  proof (cases i)
    case (CReserve ringing answered ep mode)
    obtain c r where r: "reserve (cy_coord s) ringing answered ep mode = (c, r)" by fastforce
    note k = reserve_keeps [OF w r]
    have 1: "coordsys_wf (s\<lparr>cy_coord := c\<rparr>)" using C k by blast
    show ?thesis
    proof (cases r)
      case (Inl e)
      then show ?thesis using assms(3) CReserve r 1 by simp
    next
      case (Inr rv)
      then show ?thesis
        using assms(3) CReserve r 1 k coordsys_wf_grow(1) [OF 1, of rv] coordsys_wf_grow(2) [OF 1, of rv] by auto
    qed
  next
    case (CJoin n ev b)
    then show ?thesis using assms(3)
    proof (cases "n < length (cy_joining s)")
      case True
      note k = coordsys_wf_nth(2) [OF assms(1) True]
      show ?thesis
      proof (cases "join_stream (cy_coord s) (cy_joining s ! n) ev b")
        case None
        then show ?thesis using assms CJoin True by simp
      next
        case (Some x)
        obtain c e r where x: "x = (c, e, r)" by (metis prod_cases3)
        then have "coordsys_wf (s\<lparr>cy_coord := c\<rparr>)" using C join_stream_keeps [OF w k] Some by blast
        from coordsys_wf_shrink(2) [OF this, of n] show ?thesis using assms(3) CJoin True Some x by simp
      qed
    qed (use assms(1) in simp)
  next
    case (COpenAdd n ev)
    then show ?thesis using assms(3)
    proof (cases "n < length (cy_opening s)")
      case True
      note k = coordsys_wf_nth(1) [OF assms(1) True]
      obtain c e ok where a: "add_consumer (cy_coord s) (rv_lease (cy_opening s ! n)) ev = (c, e, ok)" by (metis prod_cases3)
      then have 1: "coordsys_wf (s\<lparr>cy_coord := c\<rparr>)" using C add_consumer_keeps [OF w k a] by blast
      from 1 coordsys_wf_shrink(1) [OF 1, of n] show ?thesis using assms(3) COpenAdd True a by (cases ok) auto
    qed (use assms(1) in simp)
  next
    case (CFactoryFailed n so k)
    then show ?thesis using assms(3)
    proof (cases "n < length (cy_opening s)")
      case True
      note k = coordsys_wf_nth(1) [OF assms(1) True]
      from coordsys_wf_grow(5) [OF coordsys_wf_shrink(1) [OF assms(1)]] k show ?thesis
        using assms(3) CFactoryFailed True by (auto simp: Let_def)
    qed (use assms(1) in simp)
  next
    case (CAttach n so k)
    then show ?thesis using assms(3)
    proof (cases "n < length (cy_opening s)")
      case True
      let ?l = "rv_lease (cy_opening s ! n)"
      note k = coordsys_wf_nth(1) [OF assms(1) True]
      obtain c e ok where a: "attachSource (cy_coord s) ?l so k = (c, e, ok)" by (metis prod_cases3)
      note kc = attachSource_keeps [OF w a]
      have 1: "coordsys_wf (s\<lparr>cy_coord := c\<rparr>)" using C kc by blast
      have 2: "coordsys_wf (s\<lparr>cy_coord := c, cy_opening := drop_nth n (cy_opening s)\<rparr>)"
        using coordsys_wf_shrink(1) [OF 1, of n] by simp
      have "known_lease c ?l" using keeps_known kc k by blast
      with coordsys_wf_grow(3) [OF 2, of ?l so] 2 show ?thesis using assms(3) CAttach True a by (cases ok) (auto simp: Let_def)
    qed (use assms(1) in simp)
  next
    case (CStarted n answered now)
    then show ?thesis using assms(3)
    proof (cases "n < length (cy_starting s)")
      case True
      note k = coordsys_wf_nth(3) [OF assms(1) True]
      obtain c e where f: "finishStart (cy_coord s) (fst (cy_starting s ! n)) answered now = (c, e)" by fastforce
      have 1: "coordsys_wf (s\<lparr>cy_coord := c\<rparr>)" using C finishStart_keeps [OF w k f] by blast
      from coordsys_wf_shrink(3) [OF 1, of n] show ?thesis using assms(3) CStarted True f by simp
    qed (use assms(1) in simp)
  next
    case (CStartFailed n)
    then show ?thesis
      using assms stop_quiet_wf [OF coordsys_wf_shrink(3) [OF assms(1)]] coordsys_wf_nth(3) [OF assms(1), of n]
      by (auto split: if_splits)
  next
    case (CStartTimedOut n)
    then show ?thesis
      using assms stop_quiet_wf [OF coordsys_wf_shrink(3) [OF assms(1)]] coordsys_wf_nth(3) [OF assms(1), of n]
      by (auto split: if_splits)
  next
    case (CLeave lease cause)
    obtain c remaining found where l: "leave_remove (cy_coord s) lease = (c, remaining, found)" by (metis prod_cases3)
    show ?thesis
    proof (cases found)
      case True
      with l have "leave_remove (cy_coord s) lease = (c, remaining, True)" by simp
      note k = leave_remove_keeps [OF w this]
      have 1: "coordsys_wf (s\<lparr>cy_coord := c\<rparr>)" using C k by blast
      from coordsys_wf_grow(4) [OF 1, of lease "remaining = 0" cause] k show ?thesis
        using assms(3) CLeave l True by auto
    next
      case False
      then show ?thesis using assms CLeave l by simp
    qed
  next
    case (CLeaveTalker n)
    then show ?thesis
    proof (cases "n < length (cy_leaving s)")
      case True
      obtain l cause b where e: "cy_leaving s ! n = (l, cause, b)" by (metis prod_cases3)
      let ?s = "s\<lparr>cy_coord := leave_talker (cy_coord s) l, cy_leaving := drop_nth n (cy_leaving s)\<rparr>"
      note k = coordsys_wf_nth(4) [OF assms(1) True e]
      note t = leave_talker_keeps [OF w, of l]
      have 1: "coordsys_wf (s\<lparr>cy_coord := leave_talker (cy_coord s) l\<rparr>)" using C t by blast
      have 2: "coordsys_wf ?s" using coordsys_wf_shrink(4) [OF 1, of n] by simp
      have "known_lease (cy_coord ?s) l" using keeps_known t k by auto
      with stop_quiet_wf [OF 2] 2 show ?thesis using assms(3) CLeaveTalker True e by (auto simp: Let_def split: if_splits)
    qed (use assms CLeaveTalker in simp)
  next
    case (CRemoteBYE lease)
    then show ?thesis using assms stop_tell_wf [OF assms(1)] by auto
  next
    case (CSourceFailed lease err)
    then show ?thesis using assms stop_tell_wf [OF assms(1)] by auto
  next
    case CStopRinging
    then show ?thesis
      using assms current_known [OF assms(1), of "\<lparr>ls_id = co_leaseID (cy_coord s), ls_consumer = 0\<rparr>"]
      by (auto simp: StopRinging_begin_def split: if_splits elim: stop_quiet_wf [rotated 2])
  next
    case CEndCall
    then show ?thesis
      using assms current_known [OF assms(1), of "\<lparr>ls_id = co_leaseID (cy_coord s), ls_consumer = 0\<rparr>"]
      by (auto simp: EndCall_begin_def split: if_splits elim: stop_quiet_wf [rotated 2])
  next
    case CControlStop
    obtain c l where o: "ObserveControlStop (cy_coord s) = (c, l)" by fastforce
    have 1: "coordsys_wf (s\<lparr>cy_coord := c\<rparr>)" using C ObserveControlStop_keeps [OF w o] by blast
    show ?thesis
    proof (cases l)
      case None
      then show ?thesis using assms(3) CControlStop o 1 by simp
    next
      case (Some lease)
      have "c = cy_coord s" "ls_id lease = co_leaseID c" "co_leaseID c \<noteq> 0"
        using o Some by (auto simp: ObserveControlStop_def split: if_splits)
      then show ?thesis using assms(3) CControlStop o Some stop_quiet_wf [OF 1 current_known [OF 1]] by simp
    qed
  next
    case (CFinish n)
    then show ?thesis
    proof (cases "n < length (cy_stopping s)")
      case True
      obtain td a where e: "cy_stopping s ! n = (td, a)" by fastforce
      obtain c es where f: "finishStop (cy_coord s) td = (c, es)" by fastforce
      have 1: "coordsys_wf (s\<lparr>cy_coord := c\<rparr>)" using C finishStop_keeps [OF w f] by blast
      from coordsys_wf_shrink(5) [OF 1, of n] show ?thesis using assms(3) CFinish True e f by simp
    qed (use assms CFinish in simp)
  next
    case (CReconcile lease now)
    obtain c b st where r: "Reconcile (cy_coord s) lease now = (c, b, st)" by (metis prod_cases3)
    note k = Reconcile_keeps [OF w r]
    have 1: "coordsys_wf (s\<lparr>cy_coord := c\<rparr>)" using C k by blast
    have "known_lease c lease" using keeps_known [of "cy_coord s" c lease] k assms(2) CReconcile by simp
    then show ?thesis using assms(3) CReconcile r stop_quiet_wf [OF 1] 1 by (auto split: if_splits)
  next
    case (CPromote now)
    then show ?thesis using assms(3) C PromoteRinging_keeps [OF w] by (auto split: prod.splits)
  next
    case (CReleasePromotion lease)
    then show ?thesis using assms(3) C releasePromotion_keeps [OF w] by (auto split: prod.splits)
  next
    case (CTrack v now)
    then show ?thesis using assms(3) C ObserveControlTrack_keeps [OF w] by auto
  next
    case (CPacket l v p now)
    then show ?thesis using assms(3) C ObserveRTPPacket_keeps [OF w] by auto
  next
    case (CMetadata l v p now)
    then show ?thesis using assms(3) C ObserveRTP_keeps [OF w] by auto
  next
    case (CTalk lease)
    then show ?thesis using assms(2,3) C WriteBackchannelRTP_keeps [OF w, of lease] by (auto simp: known_lease_def)
  qed
qed


lemma new_coordsys_wf: "coordsys_wf (NewCoordSys factory observer)"
  by (simp add: coordsys_wf_def coord_wf_def NewCoordSys_def NewStreamCoordinator_def idle_snapshot_def)

lemma coord_run_wf: "coordsys_wf s \<Longrightarrow> coord_inputs_ok s is \<Longrightarrow> coordsys_wf (fst (coord_run s is))"
proof (induction "is" arbitrary: s)
  case (Cons i "is")
  obtain s' es where st: "coord_step s i = (s', es)" by fastforce
  have "coordsys_wf s'" using coord_step_wf [OF Cons.prems(1) _ st] Cons.prems(2) by simp
  then show ?case using Cons.IH [of s'] Cons.prems(2) st by (simp add: case_prod_beta)
qed simp

text \<open>The effects of a stop: the source is closed, and told to end the call exactly for the causes that do.\<close>

lemma sys_stop_effects:
  assumes "sys_stop s lease cause after = (s', effs, b)"
  shows "SourceEndCall src \<in> set effs \<Longrightarrow>
         sc_endsCall cause \<and> co_source (cy_coord s) = Some src \<and> ls_id lease = co_leaseID (cy_coord s)"
    and "co_source (cy_coord s) = Some src \<Longrightarrow> co_source (cy_coord s') = Some src \<or> SourceClose src \<in> set effs"
    and "co_talker (cy_coord s') = co_talker (cy_coord s)"
  using assms
  by (auto simp: sys_stop_def teardown_effects_def close_fanout_def stop_begin_def Let_def split: option.splits if_splits)

lemma stop_quiet_effects:
  assumes "stop_quiet s lease cause after = (s', effs)"
  shows "SourceEndCall src \<in> set effs \<Longrightarrow>
         sc_endsCall cause \<and> co_source (cy_coord s) = Some src \<and> ls_id lease = co_leaseID (cy_coord s)"
    and "co_source (cy_coord s) = Some src \<Longrightarrow> co_source (cy_coord s') = Some src \<or> SourceClose src \<in> set effs"
    and "co_talker (cy_coord s') = co_talker (cy_coord s)"
proof -
  obtain b where st: "sys_stop s lease cause after = (s', effs, b)"
    using assms by (auto simp: stop_quiet_def split: prod.splits)
  show "SourceEndCall src \<in> set effs \<Longrightarrow>
         sc_endsCall cause \<and> co_source (cy_coord s) = Some src \<and> ls_id lease = co_leaseID (cy_coord s)"
    and "co_source (cy_coord s) = Some src \<Longrightarrow> co_source (cy_coord s') = Some src \<or> SourceClose src \<in> set effs"
    and "co_talker (cy_coord s') = co_talker (cy_coord s)"
    using sys_stop_effects(1,2) [OF st, of src] sys_stop_effects(3) [OF st] by blast+
qed

lemma after_stop_tells: "SourceEndCall src \<notin> set (after_stop_effects after f)" "SourceClose src \<notin> set (after_stop_effects after f)"
  by (cases after; auto simp: after_stop_effects_def)+

lemma stop_tell_effects:
  assumes "stop_tell s lease cause after = (s', effs)"
  shows "SourceEndCall src \<in> set effs \<Longrightarrow>
         sc_endsCall cause \<and> co_source (cy_coord s) = Some src \<and> ls_id lease = co_leaseID (cy_coord s)"
    and "co_source (cy_coord s) = Some src \<Longrightarrow> co_source (cy_coord s') = Some src \<or> SourceClose src \<in> set effs"
    and "co_talker (cy_coord s') = co_talker (cy_coord s)"
proof -
  obtain e b where st: "sys_stop s lease cause after = (s', e, b)"
    and "effs = e @ (if b then [] else after_stop_effects after (co_fanouts (cy_coord s) (ls_id lease)))"
    using assms by (auto simp: stop_tell_def split: prod.splits)
  then have "set e \<subseteq> set effs" and "SourceEndCall src \<in> set effs \<Longrightarrow> SourceEndCall src \<in> set e"
    using after_stop_tells by (auto split: if_splits)
  with sys_stop_effects(1,2) [OF st, of src] sys_stop_effects(3) [OF st]
  show "SourceEndCall src \<in> set effs \<Longrightarrow>
         sc_endsCall cause \<and> co_source (cy_coord s) = Some src \<and> ls_id lease = co_leaseID (cy_coord s)"
    and "co_source (cy_coord s) = Some src \<Longrightarrow> co_source (cy_coord s') = Some src \<or> SourceClose src \<in> set effs"
    and "co_talker (cy_coord s') = co_talker (cy_coord s)" by blast+
qed

text \<open>The operations that leave the source, or the owner of the uplink, as they are.\<close>

lemma reserve_same:
  assumes "reserve c ringing answered ep mode = (c', r)"
  shows "co_source c' = co_source c" and "co_leaseID c \<noteq> 0 \<Longrightarrow> co_talker c' = co_talker c"
  using assms by (auto simp: reserve_def open_stream_def Let_def split: if_splits)

lemma add_consumer_same:
  assumes "add_consumer c lease ev = (c', effs, ok)"
  shows "co_source c' = co_source c" "co_talker c' = co_talker c" "effs \<in> range (map Tell)"
  using assms by (auto simp: add_consumer_def split: prod.splits)

lemma join_stream_same:
  assumes "join_stream c r ev late = Some (c', effs, res)"
  shows "co_source c' = co_source c" "co_talker c' = co_talker c" "effs \<in> range (map Tell)"
  using assms add_consumer_same by (auto simp: join_stream_def image_iff split: if_splits option.splits prod.splits)

lemma finishStart_same:
  assumes "finishStart c lease answered now = (c', effs)"
  shows "co_source c' = co_source c" "co_talker c' = co_talker c" "SourceEndCall src \<notin> set effs"
proof -
  have "c' = fst (finishStart c lease answered now)" "effs = snd (finishStart c lease answered now)" using assms by simp_all
  then show "co_source c' = co_source c" "co_talker c' = co_talker c" "SourceEndCall src \<notin> set effs"
    by (simp_all add: finishStart_def takePromotionLocked_def Let_def split: option.split)
qed

lemma PromoteRinging_same:
  assumes "PromoteRinging c now = (c', effs)"
  shows "co_source c' = co_source c" "co_talker c' = co_talker c" "SourceEndCall src \<notin> set effs"
  using assms by (auto simp: PromoteRinging_def takePromotionLocked_def Let_def split: if_splits)

lemma releasePromotion_same:
  assumes "releasePromotion c lease = (c', effs)"
  shows "co_source c' = co_source c" "co_talker c' = co_talker c" "SourceEndCall src \<notin> set effs"
  using assms by (auto simp: releasePromotion_def split: if_splits option.splits)

lemma finishStop_same:
  assumes "finishStop c td = (c', effs)"
  shows "co_source c' = co_source c" "SourceEndCall src \<notin> set effs"
  using assms by (auto simp: finishStop_def Let_def split: if_splits option.splits)

lemma observe_same:
  "co_source (ObserveControlTrack c v now) = co_source c" "co_talker (ObserveControlTrack c v now) = co_talker c"
  "co_source (ObserveRTPPacket c l v p now) = co_source c" "co_talker (ObserveRTPPacket c l v p now) = co_talker c"
  "co_source (ObserveRTP c l v md now) = co_source c" "co_talker (ObserveRTP c l v md now) = co_talker c"
  "co_source (fst (Reconcile c l now)) = co_source c" "co_talker (fst (Reconcile c l now)) = co_talker c"
  "co_source (fst (ObserveControlStop c)) = co_source c" "co_talker (fst (ObserveControlStop c)) = co_talker c"
  "co_source (fst (leave_remove c l)) = co_source c" "co_talker (fst (leave_remove c l)) = co_talker c"
  "co_source (leave_talker c l) = co_source c" "co_source (fst (WriteBackchannelRTP c l)) = co_source c"
  by (simp_all add: ObserveControlTrack_def observeRequestedTrackLocked_def ObserveRTPPacket_def ObserveRTP_def
        Reconcile_def ObserveControlStop_def leave_remove_def leave_talker_def WriteBackchannelRTP_def Let_def
        split: option.split prod.split)


lemma quiet_causes [simp]:
  "\<not> sc_endsCall causeConsumerLeft" "\<not> sc_endsCall causeRemoteBYE" "\<not> sc_endsCall causeControlStop"
  "\<not> sc_endsCall causeTracksStalled" "\<not> sc_endsCall causeSourceFailure" "\<not> sc_endsCall causeSourceCreation"
  "\<not> sc_endsCall causeStartupFailed" "\<not> sc_endsCall causeStartupTimedOut" "\<not> sc_endsCall causeRingingEnded"
  "\<not> sc_endsCall causeCallEnded" "sc_endsCall causeConsumerReleased"
  by (simp_all add: cause_defs)

lemma coord_step_source:
  assumes "coord_step s i = (s', effs)" and "co_source (cy_coord s) = Some src" and "\<And>n so k. i \<noteq> CAttach n so k"
  shows "co_source (cy_coord s') = Some src \<or> SourceClose src \<in> set effs"
proof (cases i)
  case (CReserve ringing answered ep mode)
  then show ?thesis using assms(1,2) reserve_same(1)
    by (auto split: prod.splits sum.splits)
next
  case (CJoin n ev b)
  then show ?thesis using assms(1,2) join_stream_same(1) by (auto split: if_splits option.splits prod.splits)
next
  case (COpenAdd n ev)
  then show ?thesis using assms(1,2) add_consumer_same(1) by (auto split: if_splits prod.splits)
next
  case (CStarted n answered now)
  then show ?thesis using assms(1,2) finishStart_same(1) by (auto split: if_splits prod.splits)
next
  case (CStartFailed n)
  then show ?thesis using assms(1,2) stop_quiet_effects(2) [of "s\<lparr>cy_starting := _\<rparr>"] by (simp split: if_splits)
next
  case (CStartTimedOut n)
  then show ?thesis using assms(1,2) stop_quiet_effects(2) [of "s\<lparr>cy_starting := _\<rparr>"] by (simp split: if_splits)
next
  case (CLeaveTalker n)
  let ?t = "\<lambda>l. s\<lparr>cy_coord := leave_talker (cy_coord s) l, cy_leaving := drop_nth n (cy_leaving s)\<rparr>"
  have "co_source (cy_coord (?t l)) = Some src" for l using assms(2) by (simp add: leave_talker_def)
  then show ?thesis using assms(1,2) CLeaveTalker stop_quiet_effects(2) [of "?t _"]
    by (auto simp: Let_def split: if_splits prod.splits)
next
  case (CRemoteBYE lease)
  then show ?thesis using assms(1,2) stop_tell_effects(2) by simp
next
  case (CSourceFailed lease err)
  then show ?thesis using assms(1,2) stop_tell_effects(2) by simp
next
  case CStopRinging
  then show ?thesis using assms(1,2) by (auto dest: stop_quiet_effects(2) split: option.splits)
next
  case CEndCall
  then show ?thesis using assms(1,2) by (auto dest: stop_quiet_effects(2) split: option.splits)
next
  case CControlStop
  obtain c l where o: "ObserveControlStop (cy_coord s) = (c, l)" by fastforce
  then have "co_source c = Some src" using observe_same(9) [of "cy_coord s"] assms(2) by simp
  then show ?thesis using assms(1) CControlStop o stop_quiet_effects(2) [of "s\<lparr>cy_coord := c\<rparr>"] by (auto split: option.splits)
next
  case (CFinish n)
  then show ?thesis using assms(1,2) finishStop_same(1) by (auto split: if_splits prod.splits)
next
  case (CReconcile lease now)
  obtain c b st where r: "Reconcile (cy_coord s) lease now = (c, b, st)" by (metis prod_cases3)
  then have "co_source c = Some src" using observe_same(7) [of "cy_coord s" lease now] assms(2) by simp
  then show ?thesis using assms(1) CReconcile r stop_quiet_effects(2) [of "s\<lparr>cy_coord := c\<rparr>"] by (auto split: if_splits)
next
  case (CPromote now)
  then show ?thesis using assms(1,2) PromoteRinging_same(1) by (auto split: prod.splits)
next
  case (CReleasePromotion lease)
  then show ?thesis using assms(1,2) releasePromotion_same(1) by (auto split: prod.splits)
qed (use assms observe_same in \<open>auto simp: Let_def case_prod_beta split: if_splits\<close>)


lemma coord_step_endsCall:
  assumes "coordsys_wf s" and "coord_step s i = (s', effs)" and "SourceEndCall src \<in> set effs"
  obtains n lease cause where "i = CLeaveTalker n" "n < length (cy_leaving s)" "cy_leaving s ! n = (lease, cause, True)"
    "sc_endsCall cause" "co_source (cy_coord s) = Some src" "co_leaseID (cy_coord s) = ls_id lease"
    "deserted (cy_coord s) lease"
proof (cases i)
  case (CLeaveTalker n)
  show ?thesis
  proof (cases "n < length (cy_leaving s)")
    case True
    obtain lease cause b where e: "cy_leaving s ! n = (lease, cause, b)" by (metis prod_cases3)
    let ?t = "s\<lparr>cy_coord := leave_talker (cy_coord s) lease, cy_leaving := drop_nth n (cy_leaving s)\<rparr>"
    have b: "b" using assms(2,3) CLeaveTalker True e by (cases b) (auto simp: Let_def)
    with assms(2) CLeaveTalker True e have q: "stop_quiet ?t lease cause TellNobody = (s', effs)" by simp
    from stop_quiet_effects(1) [OF q assms(3)]
    have "sc_endsCall cause" "co_source (cy_coord s) = Some src" "co_leaseID (cy_coord s) = ls_id lease"
      by (auto simp: leave_talker_def split: if_splits)
    then show ?thesis using that [of n lease cause] CLeaveTalker True e b coordsys_wf_nth(4) [OF assms(1) True e] by simp
  qed (use assms CLeaveTalker in simp)
next
  case (CReserve ringing answered ep mode)
  then show ?thesis using assms(2,3) by (auto split: prod.splits sum.splits)
next
  case (CJoin n ev b)
  then show ?thesis using assms(2,3) join_stream_same(3) by (fastforce split: if_splits option.splits prod.splits)
next
  case (COpenAdd n ev)
  then show ?thesis using assms(2,3) add_consumer_same(3) by (fastforce split: if_splits prod.splits)
next
  case (CFactoryFailed n so k)
  then show ?thesis using assms(2,3) by (auto simp: teardown_effects_def Let_def split: if_splits option.splits)
next
  case (CAttach n so k)
  then show ?thesis using assms(2,3) by (auto simp: attachSource_def Let_def split: if_splits option.splits)
next
  case (CStarted n answered now)
  then show ?thesis using assms(2,3) finishStart_same(3) by (auto split: if_splits prod.splits)
next
  case (CRemoteBYE lease)
  then show ?thesis using assms(2,3) by (auto dest: stop_tell_effects(1))
next
  case (CSourceFailed lease err)
  then show ?thesis using assms(2,3) by (auto dest: stop_tell_effects(1))
next
  case CStopRinging
  then show ?thesis using assms(2,3) by (auto simp: StopRinging_begin_def dest: stop_quiet_effects(1) split: if_splits)
next
  case CEndCall
  then show ?thesis using assms(2,3) by (auto simp: EndCall_begin_def dest: stop_quiet_effects(1) split: if_splits)
next
  case (CFinish n)
  then show ?thesis using assms(2,3) finishStop_same(2) after_stop_tells by (auto split: if_splits prod.splits)
next
  case (CPromote now)
  then show ?thesis using assms(2,3) PromoteRinging_same(3) by (auto split: prod.splits)
next
  case (CReleasePromotion lease)
  then show ?thesis using assms(2,3) releasePromotion_same(3) by (auto split: prod.splits)
qed (use assms(2,3) in \<open>auto dest: stop_quiet_effects(1) split: if_splits prod.splits option.splits\<close>)

lemma coord_step_talker:
  assumes "coordsys_wf s" and "coord_step s i = (s', effs)" and "co_talker (cy_coord s) \<noteq> 0" and "\<And>n. i \<noteq> CFinish n"
    and "\<And>n. i = CLeaveTalker n \<Longrightarrow> n < length (cy_leaving s) \<Longrightarrow>
           ls_consumer (fst (cy_leaving s ! n)) \<noteq> co_talker (cy_coord s)"
  shows "co_talker (cy_coord s') = co_talker (cy_coord s)"
proof (cases i)
  case (CReserve ringing answered ep mode)
  have "co_leaseID (cy_coord s) \<noteq> 0" using assms(1,3) unfolding coordsys_wf_def coord_wf_def by blast
  then show ?thesis using assms(2) CReserve reserve_same(2) by (auto split: prod.splits sum.splits)
next
  case (CJoin n ev b)
  then show ?thesis using assms(2) join_stream_same(2) by (auto split: if_splits option.splits prod.splits)
next
  case (COpenAdd n ev)
  then show ?thesis using assms(2) add_consumer_same(2) by (auto split: if_splits prod.splits)
next
  case (CAttach n so k)
  then show ?thesis using assms(2) by (auto simp: attachSource_def Let_def split: if_splits)
next
  case (CStarted n answered now)
  then show ?thesis using assms(2) finishStart_same(2) by (auto split: if_splits prod.splits)
next
  case (CLeave lease cause)
  then show ?thesis using assms(2) observe_same(12) [of "cy_coord s" lease] by (auto split: if_splits prod.splits)
next
  case (CLeaveTalker n)
  then show ?thesis using assms(2,5)
    by (auto simp: Let_def leave_talker_def dest: stop_quiet_effects(3) split: if_splits prod.splits)
next
  case CControlStop
  then show ?thesis using assms(2) observe_same(10) [of "cy_coord s"]
    by (auto dest: stop_quiet_effects(3) split: prod.splits option.splits)
next
  case (CReconcile lease now)
  then show ?thesis using assms(2) observe_same(8) [of "cy_coord s" lease now]
    by (auto dest: stop_quiet_effects(3) split: prod.splits if_splits)
next
  case (CPromote now)
  then show ?thesis using assms(2) PromoteRinging_same(2) by (auto split: prod.splits)
next
  case (CReleasePromotion lease)
  then show ?thesis using assms(2) releasePromotion_same(2) by (auto split: prod.splits)
next
  case (CTalk lease)
  then show ?thesis using assms(2,3) by (auto simp: WriteBackchannelRTP_def Let_def split: option.splits)
next
  case (CFinish n)
  then show ?thesis using assms(4) by blast
qed (use assms(2) observe_same in
    \<open>auto simp: Let_def dest: stop_quiet_effects(3) stop_tell_effects(3) split: if_splits option.splits\<close>)


section \<open>Properties\<close>

lemmas coord_eval =
  NewCoordSys_def NewStreamCoordinator_def reserve_def open_stream_def add_consumer_def fanout_add_def
  add_replay_def add_commit_def replay_to_def newFanout_def attachSource_def finishStart_def takePromotionLocked_def
  leave_remove_def leave_talker_def fanout_remove_def stop_quiet_def sys_stop_def stop_begin_def close_fanout_def
  fanout_close_def teardown_effects_def finishStop_def after_stop_effects_def fanout_failed_def StopRinging_begin_def
  ringingPreviewMode_def plainMode_def drop_nth_def Let_def

text \<open>
  C19. Whatever the order in which acquires, joins, promotions, packets, stops and teardowns interleave, the
  coordinator keeps its invariant: a lease is held exactly while the snapshot says the companion owns the
  stream, the lease was issued by the counter, the fan-out and startup signal are those of the lease, the uplink
  and the preview flags belong to a lease, a stopping stream takes no new consumer and no promotion, and a
  consumer that is on its way out as the last one has left an empty, closed fan-out behind.
\<close>

theorem coordinator_invariant:
  "coord_inputs_ok (NewCoordSys factory observer) is \<Longrightarrow>
   coordsys_wf (fst (coord_run (NewCoordSys factory observer) is))"
  by (rule coord_run_wf [OF new_coordsys_wf])

definition sample_entry :: Entrypoint where
  "sample_entry = \<lparr>ep_id = ''door'', Label = ''Door'', DevAddr = ''20'',
     Caps = \<lparr>Stream = True, Unlock = True, Ring = True\<rparr>, UnlockMode = ''momentary'', UnlockDurationMS = 3000\<rparr>"

definition sample_events :: SourceEvents where
  "sample_events = \<lparr>ev_VideoRTP = True, ev_AudioRTP = False, ev_RemoteBYE = True, ev_Failed = True\<rparr>"

definition sample_source :: Source where
  "sample_source = \<lparr>so_ref = 1, so_callEnder = True, so_ringing = True, so_backchannel = True\<rparr>"

text \<open>A preview that is opened, started, and released by its only consumer.\<close>

definition release_run :: "coord_input list" where
  "release_run =
     [CReserve True False sample_entry ringingPreviewMode, COpenAdd 0 sample_events, CAttach 0 sample_source None,
      CStarted 0 False 100, CLeave \<lparr>ls_id = 1, ls_consumer = 1\<rparr> causeConsumerReleased]"

lemma release_run_ok: "coord_inputs_ok (NewCoordSys True True) release_run"
  by (simp add: release_run_def)

lemma release_run_state:
  "cy_leaving (fst (coord_run (NewCoordSys True True) release_run)) =
     [(\<lparr>ls_id = 1, ls_consumer = 1\<rparr>, causeConsumerReleased, True)] \<and>
   co_source (cy_coord (fst (coord_run (NewCoordSys True True) release_run))) = Some sample_source \<and>
   co_leaseID (cy_coord (fst (coord_run (NewCoordSys True True) release_run))) = 1"
  by (simp add: release_run_def coord_eval sample_source_def)

theorem coordinator_invariant_witness:
  "coordsys_wf (fst (coord_run (NewCoordSys True True) release_run)) \<and>
   co_leaseID (cy_coord (fst (coord_run (NewCoordSys True True) release_run))) = 1"
  using coordinator_invariant [OF release_run_ok] release_run_state by simp




text \<open>
  C20. A source the coordinator holds is never dropped unclosed: after any step other than the attachment
  of a source it still holds it, or that step closed it.
\<close>

theorem held_source_is_closed:
  assumes "co_source (cy_coord s) = Some src" and "\<And>n so k. i \<noteq> CAttach n so k"
  shows "co_source (cy_coord (fst (coord_step s i))) = Some src \<or> SourceClose src \<in> set (snd (coord_step s i))"
  using coord_step_source [OF _ assms, of "fst (coord_step s i)" "snd (coord_step s i)"] by simp

theorem held_source_is_closed_witness:
  "(let s = fst (coord_run (NewCoordSys True True) release_run) in
    co_source (cy_coord (fst (coord_step s CEndCall))) = Some sample_source \<or>
    SourceClose sample_source \<in> set (snd (coord_step s CEndCall)))"
  unfolding Let_def by (rule held_source_is_closed) (use release_run_state in simp_all)




definition talk_run :: "coord_input list" where
  "talk_run =
     [CReserve False True sample_entry plainMode, COpenAdd 0 sample_events, CAttach 0 sample_source None,
      CStarted 0 False 100]"

lemma talk_run_wf: "coordsys_wf (fst (coord_run (NewCoordSys True True) talk_run))"
  by (rule coord_run_wf [OF new_coordsys_wf]) (simp add: talk_run_def)


text \<open>
  Who gets the stream: an acquire is refused as ringing exactly for a ringing call whose mode does not
  allow it, as external exactly for a call other than the companion's that is neither answered nor ringing; a shareable acquire joins the
  running shareable stream of its own entrypoint unless that is stopping; otherwise only an idle coordinator with a
  factory opens a stream, under a lease number that was never used before.
\<close>

theorem acquire_policy:
  "snd (reserve c ringing answered ep mode) =
     (if ringing \<and> \<not> allowRinging mode then Inl ErrRingingCall
      else if Owner (co_snapshot c) = StreamOwnerExternal \<and> \<not> answered \<and> \<not> ringing then Inl ErrExternalStream
      else if co_leaseID c = 0 \<and> co_factory c then
        Inr \<lparr>rv_lease = \<lparr>ls_id = co_nextID c + 1, ls_consumer = co_nextConsumer c + 1\<rparr>, rv_preview = ringing, rv_join = False\<rparr>
      else if co_leaseID c \<noteq> 0 \<and> shareable mode \<and> co_shared c \<and> \<not> co_stopping c \<and> sn_EntrypointID (co_snapshot c) = ep_id ep then
        Inr \<lparr>rv_lease = \<lparr>ls_id = co_leaseID c, ls_consumer = co_nextConsumer c + 1\<rparr>, rv_preview = False, rv_join = True\<rparr>
      else Inl ErrStreamBusy)"
  by (simp add: reserve_def open_stream_def Let_def)

end
