(* ===== verification/Auth_Store.thy ===== *)
theory Auth_Store
  imports Config_Model
begin

text \<open>
  Pairing and bearer tokens: \<^verbatim>\<open>src/internal/auth/store.go\<close> and \<^verbatim>\<open>owner.go\<close>.

  The store is the record \<open>AuthStore\<close>; its two maps are partial functions and the configuration store is the one of
  \<open>Config_Model\<close>, changed only by its \<open>Update\<close>. What the package takes from elsewhere is a parameter: the record
  \<open>auth_env\<close> holds the hash functions, the address parser and the password hash, and every operation gets the clock
  and the bytes it draws. An operation takes the store and returns it with a result.

  The lemmas show which token is valid at any time, how often one address may guess the claim code, that a claim needs
  a live challenge of its own address and the code of the session secret, and that a repair code works once.
\<close>

section \<open>Data\<close>

datatype auth_error =
    ErrStoreUnavailable | ErrInvalidSourceIP | ErrRateLimited | ErrChallengeNotFound | ErrChallengeExpired
  | ErrChallengeSourceMismatch | ErrInvalidClaimCode | ErrAlreadyClaimed | ErrSetupRequired | ErrClaimNotAllowed
  | ErrRepairNotAllowed | ErrInvalidRepairCode | ErrRepairCodeExpired | ErrInvalidOwner string
  | HashFailed | RandomFailure | ConfigUpdate config_error

definition challengeLifetime :: duration where "challengeLifetime = 5 * minute"
definition RepairCodeLifetime :: duration where "RepairCodeLifetime = 10 * minute"
definition rateWindow :: duration where "rateWindow = minute"
definition maxAttempts :: nat where "maxAttempts = 5"

record challenge =
  ch_sourceIP :: string
  ch_expiresAt :: time

record attempts =
  windowStart :: time
  at_count :: nat

record repairCode =
  rc_value :: string
  rc_expiresAt :: time

definition no_repair :: repairCode where "no_repair = \<lparr>rc_value = '''', rc_expiresAt = 0\<rparr>"

record 'y AuthStore =
  as_config :: "'y Store option"
  as_challenges :: "string \<rightharpoonup> challenge"
  as_attempts :: "string \<rightharpoonup> attempts"
  as_repair :: repairCode

record auth_env =
  sha256 :: "nat list \<Rightarrow> nat list"
  hmac256 :: "nat list \<Rightarrow> nat list \<Rightarrow> nat list"
  parseAddr :: "string \<Rightarrow> string option"
  bcrypt :: "string \<Rightarrow> string option"

text \<open>How the operation's configuration update is written: the YAML encoder and the system calls that fail.\<close>

record 'y writing =
  w_marshal :: "persistedConfig \<Rightarrow> 'y"
  w_fails :: "wstep \<Rightarrow> bool"

definition NewStore :: "'y Store option \<Rightarrow> 'y AuthStore" where
  "NewStore cfg = \<lparr>as_config = cfg, as_challenges = Map.empty, as_attempts = Map.empty, as_repair = no_repair\<rparr>"

section \<open>Helpers\<close>

text \<open>The bytes \<^verbatim>\<open>rand.Read\<close> returned, or its failure.\<close>

definition RandomHex :: "nat list option \<Rightarrow> (auth_error, string) result" where
  "RandomHex random = (case random of None \<Rightarrow> Err RandomFailure | Some bytes \<Rightarrow> Ok (hex_encode bytes))"

definition canonicalIP :: "auth_env \<Rightarrow> string \<Rightarrow> (auth_error, string) result" where
  "canonicalIP env ip = (case parseAddr env ip of None \<Rightarrow> Err ErrInvalidSourceIP | Some a \<Rightarrow> Ok a)"

definition bearerTokenHash :: "auth_env \<Rightarrow> string \<Rightarrow> string" where
  "bearerTokenHash env token = hex_encode (sha256 env (map byte_of token))"

definition deriveClaimCode :: "auth_env \<Rightarrow> string \<Rightarrow> string" where
  "deriveClaimCode env sessionSecret =
     (let sum = hmac256 env (map byte_of sessionSecret) (map byte_of ''bticino-go-companion/initial-claim/v1'');
          encoded = hex_encode (take 4 sum)
      in take 4 encoded @ ''-'' @ drop 4 encoded)"

definition constantTimeClaimCodeEqual :: "string \<Rightarrow> string \<Rightarrow> bool" where
  "constantTimeClaimCodeEqual left right =
     (if \<not> ValidClaimCode left \<or> \<not> ValidClaimCode right then False else left = right)"

definition constantTimeStringEqual :: "string \<Rightarrow> string \<Rightarrow> bool" where
  "constantTimeStringEqual left right =
     (let left = to_lower (trim_space left); right = to_lower (trim_space right) in
      if length left \<noteq> length right then False else left = right)"

text \<open>The bytes of a value that is not valid are compared by the source but never decide.\<close>

definition decodeHex :: "string \<Rightarrow> nat \<Rightarrow> nat list option" where
  "decodeHex v sz = (if length v \<noteq> sz * 2 then None else hex_decode v)"

definition constantTimeHexEqual :: "string \<Rightarrow> string \<Rightarrow> nat \<Rightarrow> bool" where
  "constantTimeHexEqual left right sz =
     (case (decodeHex left sz, decodeHex right sz) of
        (Some l, Some r) \<Rightarrow> l = r
      | _ \<Rightarrow> False)"

definition removeExpiredChallenges :: "(string \<rightharpoonup> challenge) \<Rightarrow> time \<Rightarrow> (string \<rightharpoonup> challenge)" where
  "removeExpiredChallenges cs now =
     (\<lambda>i. case cs i of Some c \<Rightarrow> if \<not> now < ch_expiresAt c then None else Some c | None \<Rightarrow> None)"

definition removeExpiredAttempts :: "(string \<rightharpoonup> attempts) \<Rightarrow> time \<Rightarrow> (string \<rightharpoonup> attempts)" where
  "removeExpiredAttempts as now =
     (\<lambda>ip. case as ip of
        Some a \<Rightarrow> if rateWindow \<le> time_sub now (windowStart a) then None else Some a
      | None \<Rightarrow> None)"

definition allowAttempt ::
  "(string \<rightharpoonup> attempts) \<Rightarrow> string \<Rightarrow> time \<Rightarrow> (string \<rightharpoonup> attempts) \<times> bool" where
  "allowAttempt as sourceIP now =
     (let attempt = (case as sourceIP of Some a \<Rightarrow> a | None \<Rightarrow> \<lparr>windowStart = 0, at_count = 0\<rparr>);
          attempt = (if rateWindow \<le> time_sub now (windowStart attempt)
                     then \<lparr>windowStart = now, at_count = 0\<rparr> else attempt)
      in if maxAttempts \<le> at_count attempt then (as(sourceIP \<mapsto> attempt), False)
         else (as(sourceIP \<mapsto> attempt\<lparr>at_count := at_count attempt + 1\<rparr>), True))"

text \<open>\<^verbatim>\<open>s.config.Update\<close>, with the error of the edit or of the configuration package.\<close>

definition update_config ::
  "'y writing \<Rightarrow> (Config \<Rightarrow> (auth_error, Config) result) \<Rightarrow> 'y Store \<Rightarrow> 'y Store \<times> auth_error option" where
  "update_config w edit cfg =
     (case Update (w_marshal w) (w_fails w) edit cfg of
        (cfg', None) \<Rightarrow> (cfg', None)
      | (cfg', Some (Inl err)) \<Rightarrow> (cfg', Some err)
      | (cfg', Some (Inr err)) \<Rightarrow> (cfg', Some (ConfigUpdate err)))"

definition Store_PairingState :: "'y AuthStore \<Rightarrow> PairingState" where
  "Store_PairingState s = (case as_config s of None \<Rightarrow> PairingStateError | Some cfg \<Rightarrow> Pairing (cfg_auth (st_cfg cfg)))"

definition ValidateBearer :: "auth_env \<Rightarrow> 'y AuthStore \<Rightarrow> string \<Rightarrow> bool" where
  "ValidateBearer env s token =
     (case as_config s of
        None \<Rightarrow> False
      | Some cfg \<Rightarrow> constantTimeHexEqual (bearerTokenHash env token) (BearerTokenHash (cfg_auth (st_cfg cfg))) 32)"

section \<open>The claim\<close>

text \<open>The switch on the pairing state that opens \<^verbatim>\<open>CreateChallenge\<close> and \<^verbatim>\<open>Claim\<close>.\<close>

definition claim_refused :: "'y AuthStore \<Rightarrow> auth_error option" where
  "claim_refused s =
     (if as_config s = None then Some ErrStoreUnavailable
      else case Store_PairingState s of
             PairingStateClaimed \<Rightarrow> Some ErrAlreadyClaimed
           | PairingStateSetupRequired \<Rightarrow> Some ErrSetupRequired
           | PairingStateClaimable \<Rightarrow> None
           | _ \<Rightarrow> Some ErrClaimNotAllowed)"

definition CreateChallenge ::
  "auth_env \<Rightarrow> 'y AuthStore \<Rightarrow> string \<Rightarrow> nat list option \<Rightarrow> time \<Rightarrow> 'y AuthStore \<times> (auth_error, string \<times> time) result" where
  "CreateChallenge env s ip random now =
     (case canonicalIP env ip of
        Inl err \<Rightarrow> (s, Err err)
      | Inr sourceIP \<Rightarrow>
          (case claim_refused s of
             Some err \<Rightarrow> (s, Err err)
           | None \<Rightarrow>
               (case RandomHex random of
                  Inl err \<Rightarrow> (s, Err err)
                | Inr i \<Rightarrow>
                    let expiresAt = now + challengeLifetime in
                    (s\<lparr>as_challenges := (removeExpiredChallenges (as_challenges s) now)
                          (i \<mapsto> \<lparr>ch_sourceIP = sourceIP, ch_expiresAt = expiresAt\<rparr>),
                       as_attempts := removeExpiredAttempts (as_attempts s) now\<rparr>,
                     Ok (i, expiresAt)))))"

definition claim_edit :: "auth_env \<Rightarrow> string \<Rightarrow> nat list option \<Rightarrow> Config \<Rightarrow> (auth_error, Config) result" where
  "claim_edit env claimCode random cfg =
     (if Pairing (cfg_auth cfg) \<noteq> PairingStateClaimable then Err ErrClaimNotAllowed
      else if \<not> constantTimeClaimCodeEqual claimCode (deriveClaimCode env (SessionSecret (cfg_webui cfg)))
        then Err ErrInvalidClaimCode
      else case RandomHex random of
             Inl err \<Rightarrow> Err err
           | Inr token \<Rightarrow>
               Ok (cfg\<lparr>cfg_auth := (cfg_auth cfg)\<lparr>BearerTokenHash := bearerTokenHash env token,
                                                   Pairing := PairingStateClaimed\<rparr>\<rparr>))"

text \<open>The part of \<^verbatim>\<open>Claim\<close> under the lock of the store.\<close>

definition Claim_locked ::
  "auth_env \<Rightarrow> 'y writing \<Rightarrow> 'y AuthStore \<Rightarrow> 'y Store \<Rightarrow> string \<Rightarrow> string \<Rightarrow> string \<Rightarrow> nat list option \<Rightarrow> time \<Rightarrow>
   'y AuthStore \<times> (auth_error, string) result" where
  "Claim_locked env w s cfg sourceIP challengeID claimCode random now =
     (case allowAttempt (removeExpiredAttempts (as_attempts s) now) sourceIP now of
        (as, allowed) \<Rightarrow>
          let s = s\<lparr>as_attempts := as\<rparr> in
          if \<not> allowed then (s, Err ErrRateLimited)
          else case as_challenges s challengeID of
            None \<Rightarrow> (s, Err ErrChallengeNotFound)
          | Some ch \<Rightarrow>
              if \<not> now < ch_expiresAt ch
              then (s\<lparr>as_challenges := (as_challenges s)(challengeID := None)\<rparr>, Err ErrChallengeExpired)
              else if ch_sourceIP ch \<noteq> sourceIP then (s, Err ErrChallengeSourceMismatch)
              else case update_config w (claim_edit env claimCode random) cfg of
                (cfg', Some err) \<Rightarrow> (s\<lparr>as_config := Some cfg'\<rparr>, Err err)
              | (cfg', None) \<Rightarrow>
                  (s\<lparr>as_config := Some cfg', as_challenges := (as_challenges s)(challengeID := None)\<rparr>, RandomHex random))"

definition Claim ::
  "auth_env \<Rightarrow> 'y writing \<Rightarrow> 'y AuthStore \<Rightarrow> string \<Rightarrow> string \<Rightarrow> string \<Rightarrow> nat list option \<Rightarrow> time \<Rightarrow>
   'y AuthStore \<times> (auth_error, string) result" where
  "Claim env w s ip challengeID claimCode random now =
     (case canonicalIP env ip of
        Inl err \<Rightarrow> (s, Err err)
      | Inr sourceIP \<Rightarrow>
          (case (claim_refused s, as_config s) of
             (Some err, _) \<Rightarrow> (s, Err err)
           | (None, None) \<Rightarrow> (s, Err ErrStoreUnavailable)
           | (None, Some cfg) \<Rightarrow> Claim_locked env w s cfg sourceIP challengeID claimCode random now))"

definition InitialClaimCode :: "auth_env \<Rightarrow> 'y AuthStore \<Rightarrow> (auth_error, string) result" where
  "InitialClaimCode env s =
     (case as_config s of
        None \<Rightarrow> Err ErrStoreUnavailable
      | Some cfg \<Rightarrow>
          if Pairing (cfg_auth (st_cfg cfg)) = PairingStateSetupRequired then Err ErrSetupRequired
          else if Pairing (cfg_auth (st_cfg cfg)) \<noteq> PairingStateClaimable then Err ErrClaimNotAllowed
          else Ok (deriveClaimCode env (SessionSecret (cfg_webui (st_cfg cfg)))))"

definition open_claim_edit :: "Config \<Rightarrow> (auth_error, Config) result" where
  "open_claim_edit cfg =
     (if Pairing (cfg_auth cfg) \<noteq> PairingStateSetupRequired then Err ErrClaimNotAllowed
      else Ok (cfg\<lparr>cfg_auth := (cfg_auth cfg)\<lparr>Pairing := PairingStateClaimable\<rparr>\<rparr>))"

definition StartInitialClaim :: "auth_env \<Rightarrow> 'y writing \<Rightarrow> 'y AuthStore \<Rightarrow> 'y AuthStore \<times> (auth_error, string) result" where
  "StartInitialClaim env w s =
     (case as_config s of
        None \<Rightarrow> (s, Err ErrStoreUnavailable)
      | Some cfg \<Rightarrow>
          if Store_PairingState s = PairingStateClaimed then (s, Err ErrAlreadyClaimed)
          else if Store_PairingState s \<noteq> PairingStateSetupRequired then (s, Err ErrClaimNotAllowed)
          else case update_config w open_claim_edit cfg of
            (cfg', Some err) \<Rightarrow> (s\<lparr>as_config := Some cfg'\<rparr>, Err err)
          | (cfg', None) \<Rightarrow> let s = s\<lparr>as_config := Some cfg'\<rparr> in (s, InitialClaimCode env s))"

section \<open>Status, rotation and repair\<close>

record PairingStatus =
  ps_State :: PairingState
  ps_InstanceID :: string
  ClaimCode :: string
  RecoveryCode :: string
  RecoveryCodeExpiry :: time

definition Status :: "auth_env \<Rightarrow> 'y AuthStore \<Rightarrow> time \<Rightarrow> 'y AuthStore \<times> PairingStatus" where
  "Status env s now =
     (case as_config s of
        None \<Rightarrow> (s, \<lparr>ps_State = PairingStateError, ps_InstanceID = '''', ClaimCode = '''', RecoveryCode = '''',
                      RecoveryCodeExpiry = 0\<rparr>)
      | Some cfg \<Rightarrow>
          let auth = cfg_auth (st_cfg cfg); repair = as_repair s;
              shown = (rc_value repair \<noteq> '''' \<and> now < rc_expiresAt repair);
              expired = (rc_value repair \<noteq> '''' \<and> \<not> now < rc_expiresAt repair)
          in (if expired then s\<lparr>as_repair := no_repair\<rparr> else s,
              \<lparr>ps_State = Pairing auth, ps_InstanceID = InstanceID auth,
               ClaimCode = (if Pairing auth = PairingStateClaimable
                            then deriveClaimCode env (SessionSecret (cfg_webui (st_cfg cfg))) else ''''),
               RecoveryCode = (if shown then rc_value repair else ''''),
               RecoveryCodeExpiry = (if shown then rc_expiresAt repair else 0)\<rparr>))"

definition rotate_edit :: "auth_env \<Rightarrow> string \<Rightarrow> Config \<Rightarrow> (auth_error, Config) result" where
  "rotate_edit env token cfg =
     (if Pairing (cfg_auth cfg) \<noteq> PairingStateClaimed \<and> Pairing (cfg_auth cfg) \<noteq> PairingStateClaimable
      then Err ErrClaimNotAllowed
      else Ok (cfg\<lparr>cfg_auth := (cfg_auth cfg)\<lparr>BearerTokenHash := bearerTokenHash env token,
                                               Pairing := PairingStateClaimed\<rparr>\<rparr>))"

definition RotateBearer ::
  "auth_env \<Rightarrow> 'y writing \<Rightarrow> 'y AuthStore \<Rightarrow> nat list option \<Rightarrow> 'y AuthStore \<times> (auth_error, string) result" where
  "RotateBearer env w s random =
     (case as_config s of
        None \<Rightarrow> (s, Err ErrStoreUnavailable)
      | Some cfg \<Rightarrow>
          (case RandomHex random of
             Inl err \<Rightarrow> (s, Err err)
           | Inr token \<Rightarrow>
               (case update_config w (rotate_edit env token) cfg of
                  (cfg', Some err) \<Rightarrow> (s\<lparr>as_config := Some cfg'\<rparr>, Err err)
                | (cfg', None) \<Rightarrow> (s\<lparr>as_config := Some cfg'\<rparr>, Ok token))))"

definition revoke_edit :: "Config \<Rightarrow> (auth_error, Config) result" where
  "revoke_edit cfg =
     (if Pairing (cfg_auth cfg) \<noteq> PairingStateClaimed then Err ErrClaimNotAllowed
      else Ok (cfg\<lparr>cfg_auth := (cfg_auth cfg)\<lparr>BearerTokenHash := '''', Pairing := PairingStateClaimable\<rparr>\<rparr>))"

definition RevokeBearer :: "'y writing \<Rightarrow> 'y AuthStore \<Rightarrow> 'y AuthStore \<times> (auth_error, unit) result" where
  "RevokeBearer w s =
     (case as_config s of
        None \<Rightarrow> (s, Err ErrStoreUnavailable)
      | Some cfg \<Rightarrow>
          (case update_config w revoke_edit cfg of
             (cfg', Some err) \<Rightarrow> (s\<lparr>as_config := Some cfg'\<rparr>, Err err)
           | (cfg', None) \<Rightarrow> (s\<lparr>as_config := Some cfg'\<rparr>, Ok ())))"

definition IssueRepairCode ::
  "'y AuthStore \<Rightarrow> nat list option \<Rightarrow> nat list option \<Rightarrow> time \<Rightarrow> 'y AuthStore \<times> (auth_error, string \<times> time) result" where
  "IssueRepairCode s r1 r2 now =
     (if Store_PairingState s \<noteq> PairingStateClaimed then (s, Err ErrRepairNotAllowed)
      else case GenerateClaimCode r1 r2 of
             Inl _ \<Rightarrow> (s, Err RandomFailure)
           | Inr code \<Rightarrow>
               let expiresAt = now + RepairCodeLifetime in
               (s\<lparr>as_repair := \<lparr>rc_value = code, rc_expiresAt = expiresAt\<rparr>\<rparr>, Ok (code, expiresAt)))"

definition recover_edit :: "auth_env \<Rightarrow> string \<Rightarrow> Config \<Rightarrow> (auth_error, Config) result" where
  "recover_edit env token cfg =
     (if Pairing (cfg_auth cfg) \<noteq> PairingStateClaimed then Err ErrRepairNotAllowed
      else Ok (cfg\<lparr>cfg_auth := (cfg_auth cfg)\<lparr>BearerTokenHash := bearerTokenHash env token\<rparr>\<rparr>))"

definition RecoverBearer ::
  "auth_env \<Rightarrow> 'y writing \<Rightarrow> 'y AuthStore \<Rightarrow> string \<Rightarrow> nat list option \<Rightarrow> time \<Rightarrow>
   'y AuthStore \<times> (auth_error, string) result" where
  "RecoverBearer env w s code random now =
     (case as_config s of
        None \<Rightarrow> (s, Err ErrStoreUnavailable)
      | Some cfg \<Rightarrow>
          if Store_PairingState s \<noteq> PairingStateClaimed then (s, Err ErrRepairNotAllowed)
          else if rc_value (as_repair s) = '''' \<or> \<not> constantTimeStringEqual code (rc_value (as_repair s))
            then (s, Err ErrInvalidRepairCode)
          else if \<not> now < rc_expiresAt (as_repair s) then (s\<lparr>as_repair := no_repair\<rparr>, Err ErrRepairCodeExpired)
          else case RandomHex random of
            Inl err \<Rightarrow> (s, Err err)
          | Inr token \<Rightarrow>
              (case update_config w (recover_edit env token) cfg of
                 (cfg', Some err) \<Rightarrow> (s\<lparr>as_config := Some cfg'\<rparr>, Err err)
               | (cfg', None) \<Rightarrow> (s\<lparr>as_config := Some cfg', as_repair := no_repair\<rparr>, Ok token)))"

section \<open>The owner\<close>

definition ValidateOwner :: "string \<Rightarrow> string \<Rightarrow> auth_error option" where
  "ValidateOwner username password =
     (let username = trim_space username in
      if username = '''' then Some (ErrInvalidOwner ''username is required'')
      else if length password < 8 then Some (ErrInvalidOwner ''password must contain at least 8 characters'')
      else if length password > 72 then Some (ErrInvalidOwner ''password must not exceed 72 bytes'')
      else if username = ''companion'' then Some (ErrInvalidOwner ''username must replace the default'')
      else if password = ''companion'' then Some (ErrInvalidOwner ''password must replace the default'')
      else None)"

definition owner_edit :: "string \<Rightarrow> string \<Rightarrow> string \<Rightarrow> Config \<Rightarrow> (auth_error, Config) result" where
  "owner_edit username hash secret cfg =
     (if Pairing (cfg_auth cfg) \<noteq> PairingStateSetupRequired then Err ErrClaimNotAllowed
      else Ok (cfg\<lparr>cfg_webui := \<lparr>AdminUsername = username, AdminPasswordHash = hash, SessionSecret = secret\<rparr>,
                   cfg_auth := (cfg_auth cfg)\<lparr>Pairing := PairingStateClaimable\<rparr>\<rparr>))"

definition SetupOwner ::
  "auth_env \<Rightarrow> 'y writing \<Rightarrow> 'y AuthStore \<Rightarrow> string \<Rightarrow> string \<Rightarrow> nat list option \<Rightarrow>
   'y AuthStore \<times> (auth_error, string) result" where
  "SetupOwner env w s username password random =
     (case as_config s of
        None \<Rightarrow> (s, Err ErrStoreUnavailable)
      | Some cfg \<Rightarrow>
          let username = trim_space username in
          case ValidateOwner username password of
            Some err \<Rightarrow> (s, Err err)
          | None \<Rightarrow>
              (case bcrypt env password of
                 None \<Rightarrow> (s, Err HashFailed)
               | Some hash \<Rightarrow>
                   (case RandomHex random of
                      Inl err \<Rightarrow> (s, Err err)
                    | Inr secret \<Rightarrow>
                        (case update_config w (owner_edit username hash secret) cfg of
                           (cfg', Some err) \<Rightarrow> (s\<lparr>as_config := Some cfg'\<rparr>, Err err)
                         | (cfg', None) \<Rightarrow>
                             let s = s\<lparr>as_config := Some cfg'\<rparr> in (s, InitialClaimCode env s)))))"


section \<open>Runs\<close>

text \<open>
  The operations as the inputs of the store, with what they returned reduced to a token (\<open>Claim\<close>, \<open>RotateBearer\<close>,
  \<open>RecoverBearer\<close>), success or an error.
\<close>

datatype 'y auth_input =
    ACreate string "nat list option" time
  | AClaim "'y writing" string string string "nat list option" time
  | AStart "'y writing"
  | ASetup "'y writing" string string "nat list option"
  | AStatus time
  | ARotate "'y writing" "nat list option"
  | ARevoke "'y writing"
  | AIssue "nat list option" "nat list option" time
  | ARecover "'y writing" string "nat list option" time

datatype auth_outcome = Issued string | Done | Failed auth_error

definition issued_or_failed :: "(auth_error, string) result \<Rightarrow> auth_outcome" where
  "issued_or_failed r = (case r of Inl err \<Rightarrow> Failed err | Inr token \<Rightarrow> Issued token)"

definition done_or_failed :: "(auth_error, 'a) result \<Rightarrow> auth_outcome" where
  "done_or_failed r = (case r of Inl err \<Rightarrow> Failed err | Inr _ \<Rightarrow> Done)"

fun auth_step :: "auth_env \<Rightarrow> 'y AuthStore \<Rightarrow> 'y auth_input \<Rightarrow> 'y AuthStore \<times> auth_outcome" where
  "auth_step env s (ACreate ip r now) = map_prod id done_or_failed (CreateChallenge env s ip r now)"
| "auth_step env s (AClaim w ip i code r now) = map_prod id issued_or_failed (Claim env w s ip i code r now)"
| "auth_step env s (AStart w) = map_prod id done_or_failed (StartInitialClaim env w s)"
| "auth_step env s (ASetup w user pw r) = map_prod id done_or_failed (SetupOwner env w s user pw r)"
| "auth_step env s (AStatus now) = map_prod id (\<lambda>_. Done) (Status env s now)"
| "auth_step env s (ARotate w r) = map_prod id issued_or_failed (RotateBearer env w s r)"
| "auth_step env s (ARevoke w) = map_prod id done_or_failed (RevokeBearer w s)"
| "auth_step env s (AIssue r1 r2 now) = map_prod id done_or_failed (IssueRepairCode s r1 r2 now)"
| "auth_step env s (ARecover w code r now) = map_prod id issued_or_failed (RecoverBearer env w s code r now)"

fun auth_run :: "auth_env \<Rightarrow> 'y AuthStore \<Rightarrow> 'y auth_input list \<Rightarrow> 'y AuthStore \<times> ('y auth_input \<times> auth_outcome) list" where
  "auth_run env s [] = (s, [])"
| "auth_run env s (i # is) =
     (case auth_step env s i of (s', r) \<Rightarrow> (case auth_run env s' is of (s'', rs) \<Rightarrow> (s'', (i, r) # rs)))"

text \<open>The specification of the tokens: the one issued last, unless it was revoked since.\<close>

fun token_after :: "string option \<Rightarrow> 'y auth_input \<times> auth_outcome \<Rightarrow> string option" where
  "token_after t (_, Issued token) = Some token"
| "token_after t (ARevoke _, Done) = None"
| "token_after t _ = t"

definition current_token :: "('y auth_input \<times> auth_outcome) list \<Rightarrow> string option" where
  "current_token = foldl token_after None"

section \<open>Tokens\<close>

definition auth_of :: "'y AuthStore \<Rightarrow> Auth option" where
  "auth_of s = map_option (\<lambda>cfg. cfg_auth (st_cfg cfg)) (as_config s)"

text \<open>What the configuration holds when \<open>t\<close> is the current token.\<close>

definition token_rel :: "auth_env \<Rightarrow> string option \<Rightarrow> 'y AuthStore \<Rightarrow> bool" where
  "token_rel env t s \<longleftrightarrow>
     (case auth_of s of
        None \<Rightarrow> t = None
      | Some auth \<Rightarrow>
          (case t of
             None \<Rightarrow> Pairing auth \<noteq> PairingStateClaimed \<and> BearerTokenHash auth = ''''
           | Some token \<Rightarrow> Pairing auth = PairingStateClaimed \<and> BearerTokenHash auth = bearerTokenHash env token))"

lemma update_config_error: "update_config w edit cfg = (cfg', Some err) \<Longrightarrow> st_cfg cfg' = st_cfg cfg"
  by (auto simp: update_config_def dest: Update_SomeD split: prod.splits option.splits sum.splits)

lemma update_config_ok:
  assumes "update_config w edit cfg = (cfg', None)"
    and "\<And>c c'. edit c = Inr c' \<Longrightarrow> Entrypoints c' = Entrypoints c"
  obtains nxt where "edit (st_cfg cfg) = Inr nxt" "st_cfg cfg' = nxt"
proof -
  from assms(1) have "Update (w_marshal w) (w_fails w) edit cfg = (cfg', None)"
    by (auto simp: update_config_def split: prod.splits option.splits sum.splits)
  then obtain nxt where "edit (st_cfg cfg) = Inr nxt"
    and "st_cfg cfg' = (if Entrypoints (st_cfg cfg) = Entrypoints nxt then nxt
                        else nxt\<lparr>Entrypoints := assignDefaultDoorbell (Entrypoints nxt)\<rparr>)"
    by (rule Update_NoneD)
  with assms(2) [of "st_cfg cfg" nxt] that show ?thesis by simp
qed

lemma edits_keep_entrypoints:
  "claim_edit env code r c = Inr c' \<Longrightarrow> Entrypoints c' = Entrypoints c"
  "open_claim_edit c = Inr c' \<Longrightarrow> Entrypoints c' = Entrypoints c"
  "rotate_edit env token c = Inr c' \<Longrightarrow> Entrypoints c' = Entrypoints c"
  "revoke_edit c = Inr c' \<Longrightarrow> Entrypoints c' = Entrypoints c"
  "recover_edit env token c = Inr c' \<Longrightarrow> Entrypoints c' = Entrypoints c"
  "owner_edit user hash secret c = Inr c' \<Longrightarrow> Entrypoints c' = Entrypoints c"
  by (auto simp: claim_edit_def open_claim_edit_def rotate_edit_def revoke_edit_def recover_edit_def owner_edit_def
           split: if_splits sum.splits)

text \<open>Every update of the store, as its effect on pairing state and token hash.\<close>

lemma claim_updated:
  assumes "update_config w (claim_edit env code r) cfg = (cfg', None)"
  obtains token where "RandomHex r = Inr token" "Pairing (cfg_auth (st_cfg cfg)) = PairingStateClaimable"
    "constantTimeClaimCodeEqual code (deriveClaimCode env (SessionSecret (cfg_webui (st_cfg cfg))))"
    "Pairing (cfg_auth (st_cfg cfg')) = PairingStateClaimed"
    "BearerTokenHash (cfg_auth (st_cfg cfg')) = bearerTokenHash env token"
proof -
  obtain nxt where e: "claim_edit env code r (st_cfg cfg) = Inr nxt" and n: "st_cfg cfg' = nxt"
    using assms by (rule update_config_ok [OF _ edits_keep_entrypoints(1)])
  from e obtain token where "RandomHex r = Inr token" by (auto simp: claim_edit_def split: if_splits sum.splits)
  with e have "nxt = (st_cfg cfg)\<lparr>cfg_auth := (cfg_auth (st_cfg cfg))\<lparr>BearerTokenHash := bearerTokenHash env token,
                                                                   Pairing := PairingStateClaimed\<rparr>\<rparr>"
    "Pairing (cfg_auth (st_cfg cfg)) = PairingStateClaimable"
    "constantTimeClaimCodeEqual code (deriveClaimCode env (SessionSecret (cfg_webui (st_cfg cfg))))"
    by (auto simp: claim_edit_def split: if_splits)
  with \<open>RandomHex r = Inr token\<close> n show ?thesis by (intro that [of token]) simp_all
qed

lemma open_claim_updated:
  assumes "update_config w open_claim_edit cfg = (cfg', None)"
  shows "Pairing (cfg_auth (st_cfg cfg)) = PairingStateSetupRequired"
    and "Pairing (cfg_auth (st_cfg cfg')) = PairingStateClaimable"
    and "BearerTokenHash (cfg_auth (st_cfg cfg')) = BearerTokenHash (cfg_auth (st_cfg cfg))"
  using assms
  by (rule update_config_ok [OF _ edits_keep_entrypoints(2)]; auto simp: open_claim_edit_def split: if_splits)+

lemma rotate_updated:
  assumes "update_config w (rotate_edit env token) cfg = (cfg', None)"
  shows "Pairing (cfg_auth (st_cfg cfg')) = PairingStateClaimed"
    and "BearerTokenHash (cfg_auth (st_cfg cfg')) = bearerTokenHash env token"
  using assms
  by (rule update_config_ok [OF _ edits_keep_entrypoints(3)]; auto simp: rotate_edit_def split: if_splits)+

lemma revoke_updated:
  assumes "update_config w revoke_edit cfg = (cfg', None)"
  shows "Pairing (cfg_auth (st_cfg cfg')) = PairingStateClaimable"
    and "BearerTokenHash (cfg_auth (st_cfg cfg')) = ''''"
  using assms
  by (rule update_config_ok [OF _ edits_keep_entrypoints(4)]; auto simp: revoke_edit_def split: if_splits)+

lemma recover_updated:
  assumes "update_config w (recover_edit env token) cfg = (cfg', None)"
  shows "Pairing (cfg_auth (st_cfg cfg')) = PairingStateClaimed"
    and "BearerTokenHash (cfg_auth (st_cfg cfg')) = bearerTokenHash env token"
  using assms
  by (rule update_config_ok [OF _ edits_keep_entrypoints(5)]; auto simp: recover_edit_def split: if_splits)+

lemma owner_updated:
  assumes "update_config w (owner_edit user hash secret) cfg = (cfg', None)"
  shows "Pairing (cfg_auth (st_cfg cfg)) = PairingStateSetupRequired"
    and "Pairing (cfg_auth (st_cfg cfg')) = PairingStateClaimable"
    and "BearerTokenHash (cfg_auth (st_cfg cfg')) = BearerTokenHash (cfg_auth (st_cfg cfg))"
  using assms
  by (rule update_config_ok [OF _ edits_keep_entrypoints(6)]; auto simp: owner_edit_def split: if_splits)+


lemma auth_of_simps [simp]:
  "auth_of (s\<lparr>as_config := c\<rparr>) = map_option (\<lambda>cfg. cfg_auth (st_cfg cfg)) c"
  "auth_of (s\<lparr>as_attempts := a\<rparr>) = auth_of s" "auth_of (s\<lparr>as_challenges := ch\<rparr>) = auth_of s"
  "auth_of (s\<lparr>as_repair := r\<rparr>) = auth_of s"
  by (simp_all add: auth_of_def)

lemma token_rel_same: "auth_of s' = auth_of s \<Longrightarrow> token_rel env t s' = token_rel env t s"
  by (simp add: token_rel_def)

lemma token_rel_Some:
  "auth_of s = Some auth \<Longrightarrow> Pairing auth = PairingStateClaimed \<Longrightarrow> BearerTokenHash auth = bearerTokenHash env token \<Longrightarrow>
   token_rel env (Some token) s"
  by (simp add: token_rel_def)

text \<open>A failed update keeps the configuration, so what is known of the token.\<close>

lemma auth_of_failed:
  "update_config w edit cfg = (cfg', Some err) \<Longrightarrow> as_config s = Some cfg \<Longrightarrow>
   Some (cfg_auth (st_cfg cfg')) = auth_of s"
  by (simp add: auth_of_def update_config_error)

lemma CreateChallenge_auth: "auth_of (fst (CreateChallenge env s ip r now)) = auth_of s"
  by (simp add: CreateChallenge_def Let_def split: sum.split option.split)

lemma Status_auth: "auth_of (fst (Status env s now)) = auth_of s"
  by (simp add: Status_def Let_def split: option.split)

lemma IssueRepairCode_auth: "auth_of (fst (IssueRepairCode s r1 r2 now)) = auth_of s"
  by (simp add: IssueRepairCode_def Let_def split: sum.split)

lemma Claim_cases:
  assumes "Claim env w s ip i code r now = (s', res)"
  obtains (failed) err where "res = Inl err" "auth_of s' = auth_of s"
  | (claimed) token auth sourceIP ch cfg where "res = Inr token" "RandomHex r = Inr token"
      "auth_of s' = Some auth" "Pairing auth = PairingStateClaimed" "BearerTokenHash auth = bearerTokenHash env token"
      "parseAddr env ip = Some sourceIP" "as_challenges s i = Some ch" "ch_sourceIP ch = sourceIP" "now < ch_expiresAt ch"
      "as_config s = Some cfg" "Pairing (cfg_auth (st_cfg cfg)) = PairingStateClaimable"
      "constantTimeClaimCodeEqual code (deriveClaimCode env (SessionSecret (cfg_webui (st_cfg cfg))))"
      "as_challenges s' i = None"
proof (cases res)
  case (Inl err)
  have "auth_of s' = auth_of s"
    using assms Inl
    by (auto simp: Claim_def Claim_locked_def Let_def auth_of_failed split: sum.splits option.splits prod.splits if_splits
             elim!: claim_updated)
  then show ?thesis using Inl failed by blast
next
  case (Inr token)
  obtain sourceIP cfg where a: "parseAddr env ip = Some sourceIP" "as_config s = Some cfg"
    and l: "Claim_locked env w s cfg sourceIP i code r now = (s', Inr token)"
    using assms Inr by (auto simp: Claim_def canonicalIP_def split: sum.splits option.splits)
  obtain as where al: "allowAttempt (removeExpiredAttempts (as_attempts s) now) sourceIP now = (as, True)"
    using l by (auto simp: Claim_locked_def Let_def split: prod.splits if_splits)
  obtain ch where c: "as_challenges s i = Some ch" "ch_sourceIP ch = sourceIP" "now < ch_expiresAt ch"
    using l al by (auto simp: Claim_locked_def Let_def split: option.splits if_splits)
  obtain cfg' where u: "update_config w (claim_edit env code r) cfg = (cfg', None)"
    and s': "s' = s\<lparr>as_attempts := as, as_config := Some cfg', as_challenges := (as_challenges s)(i := None)\<rparr>"
    and t: "RandomHex r = Inr token"
    using l al c by (auto simp: Claim_locked_def Let_def split: prod.splits option.splits)
  from u show ?thesis
    by (rule claim_updated)
      (use a c s' t Inr claimed [of token "cfg_auth (st_cfg cfg')" sourceIP ch cfg] in \<open>simp add: auth_of_def\<close>)
qed


lemma StartInitialClaim_token:
  assumes "token_rel env t s" shows "token_rel env t (fst (StartInitialClaim env w s))"
proof (cases "as_config s")
  case (Some cfg)
  obtain cfg' e where u: "update_config w open_claim_edit cfg = (cfg', e)" by fastforce
  have "token_rel env t (s\<lparr>as_config := Some cfg'\<rparr>)"
  proof (cases e)
    case None
    then show ?thesis
      using assms Some open_claim_updated [of w cfg cfg'] u
      by (cases t) (auto simp: token_rel_def auth_of_def)
  next
    case (Some err)
    then show ?thesis using assms u \<open>as_config s = Some cfg\<close> by (simp add: token_rel_def auth_of_failed)
  qed
  then show ?thesis using assms Some u by (cases e) (auto simp: StartInitialClaim_def Let_def)
qed (use assms in \<open>simp add: StartInitialClaim_def\<close>)

lemma SetupOwner_token:
  assumes "token_rel env t s" shows "token_rel env t (fst (SetupOwner env w s user pw r))"
proof (cases "as_config s")
  case (Some cfg)
  have "token_rel env t (s\<lparr>as_config := Some cfg'\<rparr>)"
    if u: "update_config w (owner_edit (trim_space user) hash secret) cfg = (cfg', e)" for hash secret cfg' e
  proof (cases e)
    case None
    then show ?thesis
      using assms Some owner_updated [of w "trim_space user" hash secret cfg cfg'] u
      by (cases t) (auto simp: token_rel_def auth_of_def)
  next
    case (Some err)
    then show ?thesis using assms u \<open>as_config s = Some cfg\<close> by (simp add: token_rel_def auth_of_failed)
  qed
  then show ?thesis using assms Some
    by (auto simp: SetupOwner_def Let_def split: option.splits sum.splits prod.splits)
qed (use assms in \<open>simp add: SetupOwner_def\<close>)

lemma RotateBearer_token:
  assumes "token_rel env t s" and "RotateBearer env w s r = (s', res)"
  shows "token_rel env (case res of Inl _ \<Rightarrow> t | Inr token \<Rightarrow> Some token) s'"
  using assms rotate_updated [of w env _ "the (as_config s)"]
  by (auto simp: RotateBearer_def token_rel_def auth_of_failed [symmetric]
           split: option.splits sum.splits prod.splits)

lemma RecoverBearer_token:
  assumes "token_rel env t s" and "RecoverBearer env w s code r now = (s', res)"
  shows "token_rel env (case res of Inl _ \<Rightarrow> t | Inr token \<Rightarrow> Some token) s'"
  using assms recover_updated [of w env _ "the (as_config s)"]
  by (auto simp: RecoverBearer_def token_rel_def auth_of_failed [symmetric]
           split: option.splits sum.splits prod.splits if_splits)

lemma RevokeBearer_token:
  assumes "token_rel env t s" and "RevokeBearer w s = (s', res)"
  shows "token_rel env (case res of Inl _ \<Rightarrow> t | Inr _ \<Rightarrow> None) s'"
  using assms revoke_updated [of w "the (as_config s)"]
  by (auto simp: RevokeBearer_def token_rel_def auth_of_failed [symmetric]
           split: option.splits sum.splits prod.splits)


lemma auth_step_token:
  assumes "token_rel env t s" and "auth_step env s i = (s', r)"
  shows "token_rel env (token_after t (i, r)) s'"
proof (cases i)
  case (ACreate ip rnd now)
  then show ?thesis using assms token_rel_same [OF CreateChallenge_auth [of env s ip rnd now], of env t]
    by (cases "CreateChallenge env s ip rnd now") (auto simp: done_or_failed_def split: sum.splits)
next
  case (AClaim w ip ch code rnd now)
  obtain s'' res where c: "Claim env w s ip ch code rnd now = (s'', res)" by fastforce
  then have "token_rel env (case res of Inl _ \<Rightarrow> t | Inr token \<Rightarrow> Some token) s''"
    using assms(1) token_rel_same [of s'' s env t] by (cases rule: Claim_cases) (auto intro: token_rel_Some)
  then show ?thesis using assms(2) AClaim c by (auto simp: issued_or_failed_def split: sum.splits)
next
  case (AStart w)
  then show ?thesis using assms StartInitialClaim_token [OF assms(1), of w]
    by (cases "StartInitialClaim env w s") (auto simp: done_or_failed_def split: sum.splits)
next
  case (ASetup w user pw rnd)
  then show ?thesis using assms SetupOwner_token [OF assms(1), of w user pw rnd]
    by (cases "SetupOwner env w s user pw rnd") (auto simp: done_or_failed_def split: sum.splits)
next
  case (AStatus now)
  then show ?thesis using assms token_rel_same [OF Status_auth [of env s now], of env t]
    by (cases "Status env s now") auto
next
  case (ARotate w rnd)
  then show ?thesis using assms RotateBearer_token [OF assms(1), of w rnd]
    by (cases "RotateBearer env w s rnd") (auto simp: issued_or_failed_def split: sum.splits)
next
  case (ARevoke w)
  then show ?thesis using assms RevokeBearer_token [OF assms(1), of w]
    by (cases "RevokeBearer w s") (auto simp: done_or_failed_def split: sum.splits)
next
  case (AIssue r1 r2 now)
  then show ?thesis using assms token_rel_same [OF IssueRepairCode_auth [of s r1 r2 now], of env t]
    by (cases "IssueRepairCode s r1 r2 now") (auto simp: done_or_failed_def split: sum.splits)
next
  case (ARecover w code rnd now)
  then show ?thesis using assms RecoverBearer_token [OF assms(1), of w code rnd now]
    by (cases "RecoverBearer env w s code rnd now") (auto simp: issued_or_failed_def split: sum.splits)
qed

lemma auth_run_token:
  "token_rel env t s \<Longrightarrow> token_rel env (foldl token_after t (snd (auth_run env s is))) (fst (auth_run env s is))"
proof (induction "is" arbitrary: t s)
  case (Cons i "is")
  obtain s' r where "auth_step env s i = (s', r)" by fastforce
  with Cons.IH [OF auth_step_token [OF Cons.prems this]] show ?case by (simp add: case_prod_beta)
qed simp

text \<open>What \<^verbatim>\<open>sha256.Sum256\<close> promises: 32 bytes.\<close>

definition sums_ok :: "auth_env \<Rightarrow> bool" where
  "sums_ok env \<longleftrightarrow> (\<forall>bs. length (sha256 env bs) = 32 \<and> (\<forall>b \<in> set (sha256 env bs). b < 256))"

lemma decode_token_hash:
  "sums_ok env \<Longrightarrow> decodeHex (bearerTokenHash env token) 32 = Some (sha256 env (map byte_of token))"
  by (simp add: decodeHex_def bearerTokenHash_def sums_ok_def hex_decode_encode list_all_iff)

lemma ValidateBearer_token:
  assumes "token_rel env t s" and "sums_ok env"
  shows "ValidateBearer env s token \<longleftrightarrow>
         (\<exists>u. t = Some u \<and> sha256 env (map byte_of token) = sha256 env (map byte_of u))"
  using assms decode_token_hash [OF assms(2)]
  by (cases t) (auto simp: token_rel_def auth_of_def ValidateBearer_def constantTimeHexEqual_def decodeHex_def [of "[]"]
                     split: option.splits)


section \<open>Guesses\<close>

text \<open>A claim that had the code compared: it was told the code is wrong, or it got a token.\<close>

fun guess :: "auth_env \<Rightarrow> string \<Rightarrow> 'y auth_input \<times> auth_outcome \<Rightarrow> bool" where
  "guess env a (AClaim w ip ch code rnd now, Issued _) = (parseAddr env ip = Some a)"
| "guess env a (AClaim w ip ch code rnd now, Failed ErrInvalidClaimCode) = (parseAddr env ip = Some a)"
| "guess env a _ = False"

fun happens_within :: "time \<Rightarrow> time \<Rightarrow> 'y auth_input \<Rightarrow> bool" where
  "happens_within t u (ACreate _ _ now) = (t \<le> now \<and> now < u)"
| "happens_within t u (AClaim _ _ _ _ _ now) = (t \<le> now \<and> now < u)"
| "happens_within t u _ = True"

text \<open>The attempts an address has made since \<open>t\<close> are at most these, given its entry.\<close>

definition spent :: "time \<Rightarrow> attempts option \<Rightarrow> nat" where
  "spent t entry =
     (case entry of
        None \<Rightarrow> maxAttempts
      | Some a \<Rightarrow> if windowStart a < t then at_count a else maxAttempts + at_count a)"

definition capped :: "attempts option \<Rightarrow> bool" where
  "capped entry = (case entry of None \<Rightarrow> True | Some a \<Rightarrow> at_count a \<le> maxAttempts)"

lemma spent_bound: "capped entry \<Longrightarrow> spent t entry \<le> 2 * maxAttempts"
  by (auto simp: spent_def capped_def split: option.splits)

lemma window_over: "rateWindow \<le> time_sub now u \<longleftrightarrow> rateWindow \<le> now - u"
  by (rule time_sub_ge_iff) (simp_all add: rateWindow_def minute_def)

lemma removeExpiredAttempts_spent:
  assumes "capped (as a)" and "n \<le> spent t (as a)" and "now < t + rateWindow"
  shows "capped (removeExpiredAttempts as now a) \<and> n \<le> spent t (removeExpiredAttempts as now a)"
  using assms by (auto simp: removeExpiredAttempts_def spent_def capped_def window_over split: option.splits if_splits)

lemma allowAttempt_spent:
  assumes "capped (as a)" and "n \<le> spent t (as a)" and "t \<le> now" "now < t + rateWindow" "rateWindow \<le> t"
    and "allowAttempt as b now = (as', ok)"
  shows "capped (as' a) \<and> (if ok \<and> b = a then Suc n else n) \<le> spent t (as' a)"
proof (cases "b = a")
  case True
  show ?thesis
  proof (cases "as a")
    case None
    then show ?thesis using assms True
      by (auto simp: allowAttempt_def window_over Let_def spent_def capped_def maxAttempts_def split: if_splits)
  next
    case (Some at)
    then show ?thesis using assms True
      by (auto simp: allowAttempt_def window_over Let_def spent_def capped_def maxAttempts_def split: if_splits)
  qed
next
  case False
  then show ?thesis using assms by (auto simp: allowAttempt_def Let_def split: if_splits)
qed

lemma Claim_attempts:
  assumes "Claim env w s ip ch code rnd now = (s', res)"
    and "capped (as_attempts s a)" and "n \<le> spent t (as_attempts s a)"
    and "t \<le> now" "now < t + rateWindow" "rateWindow \<le> t"
  shows "capped (as_attempts s' a) \<and>
         (if guess env a (AClaim w ip ch code rnd now, issued_or_failed res) then Suc n else n) \<le> spent t (as_attempts s' a)"
proof (cases "as_attempts s' = as_attempts s \<and> \<not> guess env a (AClaim w ip ch code rnd now, issued_or_failed res)")
  case True
  then show ?thesis using assms(2,3) by simp
next
  case False
  then obtain b cfg where b: "parseAddr env ip = Some b"
    and l: "Claim_locked env w s cfg b ch code rnd now = (s', res)"
    using assms(1)
    by (auto simp: Claim_def canonicalIP_def claim_refused_def issued_or_failed_def
             split: option.splits sum.splits if_splits PairingState.splits)
  obtain as ok where al: "allowAttempt (removeExpiredAttempts (as_attempts s) now) b now = (as, ok)" by fastforce
  have at: "as_attempts s' = as" and g: "\<not> ok \<Longrightarrow> res = Inl ErrRateLimited"
    using l al by (auto simp: Claim_locked_def Let_def split: if_splits option.splits prod.splits)
  from removeExpiredAttempts_spent [of "as_attempts s" a, OF assms(2,3,5)]
  have r: "capped (removeExpiredAttempts (as_attempts s) now a)" "n \<le> spent t (removeExpiredAttempts (as_attempts s) now a)"
    by blast+
  note al' = allowAttempt_spent [of "removeExpiredAttempts (as_attempts s) now" a, OF r assms(4-6) al]
  show ?thesis
  proof (cases "ok \<and> b = a")
    case True
    then show ?thesis using al' at by (auto split: if_splits)
  next
    case False
    then have "\<not> guess env a (AClaim w ip ch code rnd now, issued_or_failed res)"
      using g b by (cases "b = a") (auto simp: issued_or_failed_def elim: guess.elims)
    then show ?thesis using al' at False by auto
  qed
qed


lemma attempts_untouched:
  "as_attempts (fst (StartInitialClaim env w s)) = as_attempts s"
  "as_attempts (fst (SetupOwner env w s user pw r)) = as_attempts s"
  "as_attempts (fst (Status env s now)) = as_attempts s"
  "as_attempts (fst (RotateBearer env w s r)) = as_attempts s"
  "as_attempts (fst (RevokeBearer w s)) = as_attempts s"
  "as_attempts (fst (IssueRepairCode s r1 r2 now)) = as_attempts s"
  "as_attempts (fst (RecoverBearer env w s code r now)) = as_attempts s"
  by (simp_all add: StartInitialClaim_def SetupOwner_def Status_def RotateBearer_def RevokeBearer_def IssueRepairCode_def
        RecoverBearer_def Let_def split: option.split sum.split prod.split)

lemma CreateChallenge_attempts:
  "as_attempts (fst (CreateChallenge env s ip r now)) \<in> {as_attempts s, removeExpiredAttempts (as_attempts s) now}"
  by (simp add: CreateChallenge_def Let_def split: option.split sum.split)

lemma removeExpiredAttempts_capped: "capped (as a) \<Longrightarrow> capped (removeExpiredAttempts as now a)"
  by (simp add: removeExpiredAttempts_def capped_def split: option.splits)

lemma allowAttempt_capped: "capped (as a) \<Longrightarrow> capped (fst (allowAttempt as b now) a)"
  by (auto simp: allowAttempt_def capped_def Let_def maxAttempts_def split: option.splits)

lemma Claim_locked_attempts:
  "as_attempts (fst (Claim_locked env w s cfg b ch code rnd now)) =
   fst (allowAttempt (removeExpiredAttempts (as_attempts s) now) b now)"
proof -
  obtain as ok where a: "allowAttempt (removeExpiredAttempts (as_attempts s) now) b now = (as, ok)" by fastforce
  obtain cfg' e where u: "update_config w (claim_edit env code rnd) cfg = (cfg', e)" by fastforce
  show ?thesis by (simp add: Claim_locked_def Let_def a u split: option.split)
qed

lemma Claim_capped:
  assumes "capped (as_attempts s a)"
  shows "capped (as_attempts (fst (Claim env w s ip ch code rnd now)) a)"
  using assms
  by (auto simp: Claim_def Claim_locked_attempts intro!: allowAttempt_capped removeExpiredAttempts_capped
           split: option.split sum.split)

lemma CreateChallenge_capped:
  "capped (as_attempts s a) \<Longrightarrow> capped (as_attempts (fst (CreateChallenge env s ip r now)) a)"
  by (simp add: CreateChallenge_def Let_def removeExpiredAttempts_capped split: option.split sum.split)

lemma auth_step_capped: "capped (as_attempts s a) \<Longrightarrow> capped (as_attempts (fst (auth_step env s i)) a)"
  by (cases i) (simp_all add: attempts_untouched Claim_capped CreateChallenge_capped)

lemma auth_run_capped: "capped (as_attempts s a) \<Longrightarrow> capped (as_attempts (fst (auth_run env s is)) a)"
proof (induction "is" arbitrary: s)
  case (Cons i "is")
  then show ?case using auth_step_capped [of s a env i] by (simp add: case_prod_beta)
qed simp

lemma auth_step_guess:
  assumes "auth_step env s i = (s', r)" and "capped (as_attempts s a)" and "n \<le> spent t (as_attempts s a)"
    and "happens_within t (t + rateWindow) i" and "rateWindow \<le> t"
  shows "capped (as_attempts s' a) \<and> (if guess env a (i, r) then Suc n else n) \<le> spent t (as_attempts s' a)"
proof (cases i)
  case (AClaim w ip ch code rnd now)
  obtain res where "Claim env w s ip ch code rnd now = (s', res)" and "r = issued_or_failed res"
    using assms(1) AClaim by (cases "Claim env w s ip ch code rnd now") auto
  then show ?thesis using Claim_attempts [OF _ assms(2,3), of env w ip ch code rnd now s' res] assms(4,5) AClaim by simp
next
  case (ACreate ip rnd now)
  have "s' = fst (CreateChallenge env s ip rnd now)" using assms(1) ACreate by (cases "CreateChallenge env s ip rnd now") auto
  then consider "as_attempts s' = as_attempts s" | "as_attempts s' = removeExpiredAttempts (as_attempts s) now"
    using CreateChallenge_attempts [of env s ip rnd now] by auto
  then show ?thesis
    using assms(2-4) removeExpiredAttempts_spent [of "as_attempts s" a, OF assms(2,3), of now] ACreate
    by cases auto
qed (use assms(1-3) in \<open>auto simp: prod_eq_iff attempts_untouched\<close>)


lemma auth_run_guesses:
  assumes "capped (as_attempts s a)" and "n \<le> spent t (as_attempts s a)"
    and "list_all (happens_within t (t + rateWindow)) is" and "rateWindow \<le> t"
  shows "n + length (filter (guess env a) (snd (auth_run env s is))) \<le> 2 * maxAttempts"
  using assms(1-3)
proof (induction "is" arbitrary: s n)
  case Nil
  then show ?case using spent_bound [of "as_attempts s a" t] by simp
next
  case (Cons i "is")
  obtain s' r where st: "auth_step env s i = (s', r)" by fastforce
  have "capped (as_attempts s' a) \<and> (if guess env a (i, r) then Suc n else n) \<le> spent t (as_attempts s' a)"
    using auth_step_guess [OF st Cons.prems(1,2) _ assms(4)] Cons.prems(3) by simp
  with Cons.IH [of s' "if guess env a (i, r) then Suc n else n"] Cons.prems(3) show ?case
    by (auto simp: st case_prod_beta split: if_splits)
qed

section \<open>Properties\<close>

text \<open>
  C10. The store refines the specification of one current token: after any sequence of operations on a companion that
  was not claimed, a bearer token is accepted exactly when it has the hash of the token issued last by a claim, a
  rotation or a recovery, and that token was not revoked since. Failed operations, failed writes and expired codes
  change nothing about it.
\<close>

theorem only_the_current_token_is_valid:
  assumes "sums_ok env"
    and "Pairing (cfg_auth (st_cfg cfg)) \<noteq> PairingStateClaimed" and "BearerTokenHash (cfg_auth (st_cfg cfg)) = ''''"
    and "auth_run env (NewStore (Some cfg)) is = (s, outcomes)"
  shows "ValidateBearer env s token \<longleftrightarrow>
         (\<exists>u. current_token outcomes = Some u \<and> sha256 env (map byte_of token) = sha256 env (map byte_of u))"
proof -
  have "token_rel env None (NewStore (Some cfg))" using assms(2,3) by (simp add: token_rel_def NewStore_def auth_of_def)
  from auth_run_token [OF this, of "is"] have "token_rel env (current_token outcomes) s"
    using assms(4) by (simp add: current_token_def)
  then show ?thesis by (rule ValidateBearer_token) (rule assms(1))
qed

text \<open>
  C11. One address gets at most ten guesses of the claim code in any minute, whatever it and others do in between and
  whatever happened before: every claim whose code was compared counts. The clock of the device is past its first minute.
\<close>

theorem claim_guesses_bounded:
  assumes "list_all (happens_within t (t + rateWindow)) is" and "rateWindow \<le> t"
  shows "length (filter (guess env a) (snd (auth_run env (fst (auth_run env (NewStore cfg) before)) is))) \<le> 10"
proof -
  let ?s = "fst (auth_run env (NewStore cfg) before)"
  have "capped (as_attempts ?s a)" by (rule auth_run_capped) (simp add: NewStore_def capped_def)
  from auth_run_guesses [OF this, of 0 t "is" env] show ?thesis using assms by (simp add: maxAttempts_def)
qed


text \<open>
  C13. A repair code works once: a recovery that returns a token was given the issued code, up to case and surrounding space, before it
  expired, and every other recovery until a new code is issued is refused, whatever code it brings.
\<close>

theorem repair_code_works_once:
  assumes "RecoverBearer env w s code rnd now = (s', Inr token)"
  shows "rc_value (as_repair s) \<noteq> '''' \<and> now < rc_expiresAt (as_repair s) \<and>
         to_lower (trim_space code) = to_lower (trim_space (rc_value (as_repair s))) \<and>
         Store_PairingState s = PairingStateClaimed \<and>
         RecoverBearer env w' s' code' rnd' now' = (s', Inl ErrInvalidRepairCode)"
proof -
  obtain cfg where c: "as_config s = Some cfg" and p: "Store_PairingState s = PairingStateClaimed"
    and r: "rc_value (as_repair s) \<noteq> ''''" "constantTimeStringEqual code (rc_value (as_repair s))" "now < rc_expiresAt (as_repair s)"
    and t: "RandomHex rnd = Inr token"
    using assms by (auto simp: RecoverBearer_def split: option.splits if_splits sum.splits prod.splits)
  obtain cfg' where u: "update_config w (recover_edit env token) cfg = (cfg', None)"
    and s': "s' = s\<lparr>as_config := Some cfg', as_repair := no_repair\<rparr>"
    using assms c p r t by (auto simp: RecoverBearer_def split: prod.splits option.splits)
  have "Store_PairingState s' = PairingStateClaimed" using recover_updated(1) [OF u] s' by (simp add: Store_PairingState_def)
  then have "RecoverBearer env w' s' code' rnd' now' = (s', Inl ErrInvalidRepairCode)"
    using s' by (simp add: RecoverBearer_def no_repair_def)
  then show ?thesis using r p by (auto simp: constantTimeStringEqual_def Let_def split: if_splits)
qed


subsection \<open>Concrete runs\<close>

text \<open>Stand-ins for the parameters: sums of 32 bytes, addresses that are their own canonical form.\<close>

definition sample_env :: auth_env where
  "sample_env = \<lparr>sha256 = (\<lambda>bs. replicate 32 (length bs mod 256)), hmac256 = (\<lambda>k m. replicate 32 (length k mod 256)),
                 parseAddr = Some, bcrypt = Some\<rparr>"

definition sample_writing :: "persistedConfig writing" where
  "sample_writing = \<lparr>w_marshal = (\<lambda>p. p), w_fails = (\<lambda>_. False)\<rparr>"

definition sample_pairing :: "PairingState \<Rightarrow> string \<Rightarrow> persistedConfig Store" where
  "sample_pairing p hash =
     \<lparr>st_cfg = sample_config\<lparr>cfg_auth := (cfg_auth sample_config)\<lparr>Pairing := p, BearerTokenHash := hash\<rparr>\<rparr>,
      st_disk = \<lparr>target = None, temporary = None\<rparr>\<rparr>"

definition sample_hash :: string where "sample_hash = hex_encode (replicate 32 2)"

lemma sample_sums: "sums_ok sample_env"
  by (simp add: sums_ok_def sample_env_def)

lemma sample_token_hash: "bearerTokenHash sample_env (hex_encode [7]) = sample_hash"
  by (simp add: bearerTokenHash_def sample_env_def sample_hash_def numeral_2_eq_2)

lemma sample_claimed_valid: "Validate (st_cfg (sample_pairing PairingStateClaimed sample_hash)) = None"
proof -
  have "hex_decode sample_hash = Some (replicate 32 2)" "length sample_hash = 64"
    unfolding sample_hash_def by (rule hex_decode_encode) (simp_all add: list_all_iff)
  then have "validBearerTokenHash sample_hash" "sample_hash \<noteq> ''''" by (auto simp: validBearerTokenHash_def)
  then show ?thesis
    by (simp add: sample_pairing_def Validate_def sample_config_def trim_samples validPairingState_def validInstanceID_def
        hex_val_0 numeral_eq_Suc)
qed

lemma sample_update:
  assumes "edit (st_cfg cfg) = Inr (st_cfg (sample_pairing PairingStateClaimed sample_hash))"
    and "Entrypoints (st_cfg cfg) = Entrypoints sample_config"
  shows "update_config sample_writing edit cfg =
           (cfg\<lparr>st_cfg := st_cfg (sample_pairing PairingStateClaimed sample_hash),
                st_disk := \<lparr>target = Some (Whole (to_persisted (st_cfg (sample_pairing PairingStateClaimed sample_hash)))),
                            temporary = None\<rparr>\<rparr>, None)"
proof -
  have "Entrypoints (st_cfg (sample_pairing PairingStateClaimed sample_hash)) = Entrypoints sample_config"
    by (simp add: sample_pairing_def)
  then show ?thesis using assms sample_claimed_valid
    by (simp add: update_config_def Update_def Let_def sample_writing_def save_no_failure)
qed


theorem only_the_current_token_is_valid_witness:
  "(let run = auth_run sample_env (NewStore (Some (sample_pairing PairingStateClaimable '''')))
                [ARotate sample_writing (Some [7])] in
    ValidateBearer sample_env (fst run) (hex_encode [7]) \<and> current_token (snd run) = Some (hex_encode [7]))"
proof -
  let ?cfg = "sample_pairing PairingStateClaimable ''''"
  let ?run = "auth_run sample_env (NewStore (Some ?cfg)) [ARotate sample_writing (Some [7])]"
  have "update_config sample_writing (rotate_edit sample_env (hex_encode [7])) ?cfg = (c, None) \<Longrightarrow>
        current_token (snd ?run) = Some (hex_encode [7])" for c
    by (simp add: NewStore_def RotateBearer_def RandomHex_def issued_or_failed_def current_token_def)
  moreover have "rotate_edit sample_env (hex_encode [7]) (st_cfg ?cfg) =
                   Inr (st_cfg (sample_pairing PairingStateClaimed sample_hash))"
    by (simp add: rotate_edit_def sample_pairing_def sample_token_hash del: hex_encode_Cons)
  ultimately have t: "current_token (snd ?run) = Some (hex_encode [7])"
    using sample_update [of "rotate_edit sample_env (hex_encode [7])" ?cfg] by (simp add: sample_pairing_def)
  have p: "Pairing (cfg_auth (st_cfg ?cfg)) \<noteq> PairingStateClaimed" "BearerTokenHash (cfg_auth (st_cfg ?cfg)) = ''''"
    by (simp_all add: sample_pairing_def)
  show ?thesis
    using only_the_current_token_is_valid [OF sample_sums p surjective_pairing [of ?run], of "hex_encode [7]"] t
    unfolding Let_def by blast
qed

theorem claim_guesses_bounded_witness:
  "length (filter (guess sample_env ''10.0.0.2'')
      (snd (auth_run sample_env (fst (auth_run sample_env (NewStore (Some (sample_pairing PairingStateClaimable ''''))) []))
        (replicate 20 (AClaim sample_writing ''10.0.0.2'' ''c'' ''0000-0000'' None (2 * minute)))))) \<le> 10"
  by (rule claim_guesses_bounded [where t = "2 * minute"]) (simp_all add: list_all_iff rateWindow_def minute_def)



theorem repair_code_works_once_witness:
  "(let s = (NewStore (Some (sample_pairing PairingStateClaimed sample_hash)))
              \<lparr>as_repair := \<lparr>rc_value = ''ab12-cd34'', rc_expiresAt = 100\<rparr>\<rparr>;
        s' = fst (RecoverBearer sample_env sample_writing s ''ab12-cd34'' (Some [7]) 50) in
    RecoverBearer sample_env sample_writing s' ''ab12-cd34'' (Some [8]) 51 = (s', Inl ErrInvalidRepairCode))"
proof -
  let ?cfg = "sample_pairing PairingStateClaimed sample_hash"
  let ?s = "(NewStore (Some ?cfg))\<lparr>as_repair := \<lparr>rc_value = ''ab12-cd34'', rc_expiresAt = 100\<rparr>\<rparr>"
  let ?r = "RecoverBearer sample_env sample_writing ?s ''ab12-cd34'' (Some [7]) 50"
  have "recover_edit sample_env (hex_encode [7]) (st_cfg ?cfg) = Inr (st_cfg ?cfg)"
    by (simp add: recover_edit_def sample_pairing_def sample_token_hash del: hex_encode_Cons)
  from sample_update [of "recover_edit sample_env (hex_encode [7])" ?cfg, OF this] obtain c' where
    u: "update_config sample_writing (recover_edit sample_env (hex_encode [7])) ?cfg = (c', None)"
    by (auto simp: sample_pairing_def)
  have "Store_PairingState ?s = PairingStateClaimed" by (simp add: Store_PairingState_def NewStore_def sample_pairing_def)
  then have "?r = (fst ?r, Inr (hex_encode [7]))"
    using u by (simp add: RecoverBearer_def NewStore_def constantTimeStringEqual_def RandomHex_def del: hex_encode_Cons)
  from repair_code_works_once [OF this] show ?thesis unfolding Let_def by blast
qed

end
