(* ===== verification/Sys_Update.thy ===== *)
theory Sys_Update
  imports Go_Prelude "HOL-Library.Char_ord" "HOL-Library.List_Lexorder" "HOL-Library.Product_Lexorder" "HOL-Library.Multiset"
begin

text \<open>
  Updates: \<^verbatim>\<open>src/internal/system/release.go\<close> and \<^verbatim>\<open>src/internal/system/update.go\<close>.

  The versions are compared as the source does, on the strings the regular expression captures; Go's comparison of strings is the
  library's lexicographic order on characters. What comes from outside is an argument: the decoded JSON, the parts of a
  parsed address, the answers of the release server, the hash function, the result of \<^verbatim>\<open>tar\<close> and the system call that fails.
  \<open>stageArchive\<close> is a sequence of file system steps, so that a failure can come at each of them.

  The lemmas show that the comparison is the precedence of semantic versions, that the list of pre-releases is sorted by it, and
  that a staged binary comes out of an archive with the digest of the release.
\<close>

section \<open>Versions\<close>

definition is_ident_char :: "char \<Rightarrow> bool" where
  "is_ident_char c \<longleftrightarrow>
     is_digit c \<or> (65 \<le> byte_of c \<and> byte_of c \<le> 90) \<or> (97 \<le> byte_of c \<and> byte_of c \<le> 122) \<or> c = CHR ''-''"

text \<open>The group \<^verbatim>\<open>(0|[1-9][0-9]*)\<close> at the start of a string, and the rest.\<close>

definition match_number :: "string \<Rightarrow> (string \<times> string) option" where
  "match_number s =
     (let d = takeWhile is_digit s in
      if d = [] \<or> (hd d = CHR ''0'' \<and> length d \<noteq> 1) then None else Some (d, dropWhile is_digit s))"

text \<open>A number and the dot behind it.\<close>

definition match_number_dot :: "string \<Rightarrow> (string \<times> string) option" where
  "match_number_dot s =
     (case match_number s of
        Some (d, c # rest) \<Rightarrow> if c = CHR ''.'' then Some (d, rest) else None
      | _ \<Rightarrow> None)"

text \<open>\<^verbatim>\<open>(?:\+[0-9A-Za-z.-]+)?$\<close>\<close>

definition match_build :: "string \<Rightarrow> bool" where
  "match_build s =
     (case s of
        [] \<Rightarrow> True
      | c # rest \<Rightarrow> c = CHR ''+'' \<and> rest \<noteq> [] \<and> list_all (\<lambda>c. is_ident_char c \<or> c = CHR ''.'') rest)"

text \<open>\<^verbatim>\<open>(?:-([0-9A-Za-z-]+(?:\.[0-9A-Za-z-]+)*))?(?:\+[0-9A-Za-z.-]+)?$\<close>\<close>

definition match_tail :: "string \<Rightarrow> string option" where
  "match_tail s =
     (case s of
        c # rest \<Rightarrow>
          if c = CHR ''-'' then
            let pre = takeWhile (\<lambda>c. is_ident_char c \<or> c = CHR ''.'') rest in
            if list_all (\<lambda>w. w \<noteq> []) (split_char CHR ''.'' pre) \<and>
               match_build (dropWhile (\<lambda>c. is_ident_char c \<or> c = CHR ''.'') rest)
            then Some pre else None
          else if match_build s then Some [] else None
      | [] \<Rightarrow> Some [])"

text \<open>\<^verbatim>\<open>semverPattern.FindStringSubmatch\<close>: the four groups.\<close>

definition semver_submatch :: "string \<Rightarrow> (string \<times> string \<times> string \<times> string) option" where
  "semver_submatch s =
     Option.bind (match_number_dot (case s of c # cs \<Rightarrow> if c = CHR ''v'' then cs else s | [] \<Rightarrow> []))
       (\<lambda>(major, s). Option.bind (match_number_dot s)
         (\<lambda>(minor, s). Option.bind (match_number s)
           (\<lambda>(patch, s). map_option (\<lambda>pre. (major, minor, patch, pre)) (match_tail s))))"

definition isNumeric :: "string \<Rightarrow> bool" where
  "isNumeric v \<longleftrightarrow> list_all is_digit v \<and> v \<noteq> []"

text \<open>The loop of \<^verbatim>\<open>comparePrerelease\<close>.\<close>

fun compare_idents :: "string list \<Rightarrow> string list \<Rightarrow> int" where
  "compare_idents (l # ls) (r # rs) =
     (if l = r then compare_idents ls rs
      else if isNumeric l \<noteq> isNumeric r then (if isNumeric l then -1 else 1)
      else if isNumeric l \<and> length l \<noteq> length r then (if length l > length r then 1 else -1)
      else if l > r then 1 else -1)"
| "compare_idents ls rs = (if length ls > length rs then 1 else -1)"

definition comparePrerelease :: "string \<Rightarrow> string \<Rightarrow> int" where
  "comparePrerelease candidate current =
     (if candidate = current then 0
      else if candidate = '''' then 1
      else if current = '''' then -1
      else compare_idents (split_char CHR ''.'' candidate) (split_char CHR ''.'' current))"

text \<open>The loop over the three numbers; \<open>None\<close> when they are all the same.\<close>

fun compare_numbers :: "string list \<Rightarrow> string list \<Rightarrow> bool option" where
  "compare_numbers (a # as) (b # bs) =
     (if length a \<noteq> length b then Some (length a > length b)
      else if a \<noteq> b then Some (a > b)
      else compare_numbers as bs)"
| "compare_numbers _ _ = None"

definition newerVersion :: "string \<Rightarrow> string \<Rightarrow> bool" where
  "newerVersion candidate current =
     (case (semver_submatch candidate, semver_submatch current) of
        (Some (a1, a2, a3, a4), Some (b1, b2, b3, b4)) \<Rightarrow>
          (case compare_numbers [a1, a2, a3] [b1, b2, b3] of
             Some r \<Rightarrow> r
           | None \<Rightarrow> comparePrerelease a4 b4 > 0)
      | _ \<Rightarrow> False)"

section \<open>Releases\<close>

record ReleaseAsset =
  as_Name :: string
  Digest :: string
  DownloadURL :: string

record ReleaseManifest =
  TagName :: string
  Prerelease_flag :: bool
  Draft :: bool
  PublishedAt :: time
  Assets :: "ReleaseAsset list"

datatype update_error =
    ErrInvalidReleaseManifest | ErrReleaseAssetNotFound | ErrInvalidArtifactDigest | ErrArtifactDigestMismatch
  | ErrUpdateUnavailable | ErrReleaseNotFound | ErrReleaseAlreadyInstalled | ErrRuntimeUnavailable
  | RequestFailed | BadStatus nat | ReadFailed | StepError string | RestartFailed

text \<open>\<^verbatim>\<open>url.Parse\<close>: scheme and host.\<close>

type_synonym url_parser = "string \<Rightarrow> (string \<times> string) option"

definition https_url :: "url_parser \<Rightarrow> string \<Rightarrow> bool" where
  "https_url parse u = (case parse u of None \<Rightarrow> False | Some (scheme, host) \<Rightarrow> scheme = ''https'' \<and> host \<noteq> '''')"

definition parseSHA256Digest :: "string \<Rightarrow> (update_error, nat list) result" where
  "parseSHA256Digest digest =
     (let d = to_lower digest in
      if \<not> has_prefix d ''sha256:'' then Err ErrInvalidArtifactDigest
      else let v = trim_prefix d ''sha256:'' in
        if length v \<noteq> 64 then Err ErrInvalidArtifactDigest
        else case hex_decode v of
          None \<Rightarrow> Err ErrInvalidArtifactDigest
        | Some bs \<Rightarrow> if length bs \<noteq> 32 then Err ErrInvalidArtifactDigest else Ok bs)"

fun validateAssets :: "url_parser \<Rightarrow> ReleaseAsset list \<Rightarrow> update_error option" where
  "validateAssets parse [] = None"
| "validateAssets parse (a # as) =
     (if as_Name a = '''' \<or> Digest a = '''' \<or> DownloadURL a = '''' then Some ErrInvalidReleaseManifest
      else case parseSHA256Digest (Digest a) of
        Inl err \<Rightarrow> Some err
      | Inr _ \<Rightarrow> if \<not> https_url parse (DownloadURL a) then Some ErrInvalidReleaseManifest else validateAssets parse as)"

definition validateReleaseManifest :: "url_parser \<Rightarrow> ReleaseManifest \<Rightarrow> update_error option" where
  "validateReleaseManifest parse m =
     (if TagName m = '''' then Some ErrInvalidReleaseManifest else validateAssets parse (Assets m))"

text \<open>What the JSON decoder made of the body, and whether nothing followed.\<close>

definition ParseGitHubReleaseManifest ::
  "url_parser \<Rightarrow> ReleaseManifest option \<Rightarrow> bool \<Rightarrow> (update_error, ReleaseManifest) result" where
  "ParseGitHubReleaseManifest parse decoded eof =
     (case decoded of
        None \<Rightarrow> Err ErrInvalidReleaseManifest
      | Some m \<Rightarrow>
          if \<not> eof then Err ErrInvalidReleaseManifest
          else case validateReleaseManifest parse m of Some err \<Rightarrow> Err err | None \<Rightarrow> Ok m)"

definition ParseGitHubReleaseList ::
  "url_parser \<Rightarrow> ReleaseManifest list option \<Rightarrow> bool \<Rightarrow> (update_error, ReleaseManifest list) result" where
  "ParseGitHubReleaseList parse decoded eof =
     (case decoded of
        None \<Rightarrow> Err ErrInvalidReleaseManifest
      | Some ms \<Rightarrow>
          if \<not> eof then Err ErrInvalidReleaseManifest
          else Ok (filter (\<lambda>m. \<not> (Draft m \<or> validateReleaseManifest parse m \<noteq> None)) ms))"

definition Asset :: "ReleaseManifest \<Rightarrow> string \<Rightarrow> (update_error, ReleaseAsset) result" where
  "Asset m n = (case find (\<lambda>a. as_Name a = n) (Assets m) of Some a \<Rightarrow> Ok a | None \<Rightarrow> Err ErrReleaseAssetNotFound)"

text \<open>The artifact as its reader gives it: \<open>None\<close> when reading fails.\<close>

definition VerifySHA256 :: "(nat list \<Rightarrow> nat list) \<Rightarrow> nat list option \<Rightarrow> string \<Rightarrow> update_error option" where
  "VerifySHA256 sum256 body digest =
     (case parseSHA256Digest digest of
        Inl err \<Rightarrow> Some err
      | Inr expected \<Rightarrow>
          (case body of
             None \<Rightarrow> Some ReadFailed
           | Some bytes \<Rightarrow> if sum256 bytes \<noteq> expected then Some ErrArtifactDigestMismatch else None))"

subsection \<open>The release server\<close>

text \<open>The answer to a request: none, or a status and a body.\<close>

definition client_get :: "(nat \<times> 'b) option \<Rightarrow> (update_error, 'b) result" where
  "client_get response =
     (case response of
        None \<Rightarrow> Err RequestFailed
      | Some (status, body) \<Rightarrow> if status < 200 \<or> status \<ge> 300 then Err (BadStatus status) else Ok body)"

definition client_Latest ::
  "url_parser \<Rightarrow> (nat \<times> ReleaseManifest option \<times> bool) option \<Rightarrow> (update_error, ReleaseManifest) result" where
  "client_Latest parse response =
     (case client_get response of
        Inl err \<Rightarrow> Err err
      | Inr (decoded, eof) \<Rightarrow> ParseGitHubReleaseManifest parse decoded eof)"

definition client_List ::
  "url_parser \<Rightarrow> (nat \<times> ReleaseManifest list option \<times> bool) option \<Rightarrow> (update_error, ReleaseManifest list) result" where
  "client_List parse response =
     (case client_get response of
        Inl err \<Rightarrow> Err err
      | Inr (decoded, eof) \<Rightarrow> ParseGitHubReleaseList parse decoded eof)"

definition client_Download :: "url_parser \<Rightarrow> ReleaseAsset \<Rightarrow> (nat \<times> 'b) option \<Rightarrow> (update_error, 'b) result" where
  "client_Download parse asset response =
     (if \<not> https_url parse (DownloadURL asset) then Err ErrInvalidReleaseManifest else client_get response)"


section \<open>Staging\<close>

text \<open>
  The file system as far as \<^verbatim>\<open>stageArchive\<close> sees it: the temporary archive, the binary in the staging directory once
  it was extracted (the directory itself once it was made), and \<^verbatim>\<open>companion.new\<close>.
\<close>

record stage_fs =
  fs_archive :: "nat list option"
  fs_staging :: "nat list option option"
  fs_companion_new :: "nat list option"

datatype stage_step =
    MkdirAll | CreateTemp | CopyArchive | SyncArchive | CloseArchive | CheckDigest | MkdirTemp | Extract
  | OpenBinary | ChmodBinary | SyncBinary | CloseBinary | RenameBinary

definition stage_steps :: "stage_step list" where
  "stage_steps = [MkdirAll, CreateTemp, CopyArchive, SyncArchive, CloseArchive, CheckDigest, MkdirTemp, Extract,
                  OpenBinary, ChmodBinary, SyncBinary, CloseBinary, RenameBinary]"

text \<open>
  A step that succeeds. The body that the download delivers is \<open>body\<close>; \<open>untar\<close> is what \<^verbatim>\<open>/bin/tar\<close> extracts from an archive.
\<close>

fun do_stage_step ::
  "(nat list \<Rightarrow> nat list option) \<Rightarrow> nat list \<Rightarrow> stage_fs \<Rightarrow> stage_step \<Rightarrow> stage_fs" where
  "do_stage_step untar body fs CreateTemp = fs\<lparr>fs_archive := Some []\<rparr>"
| "do_stage_step untar body fs CopyArchive = fs\<lparr>fs_archive := Some body\<rparr>"
| "do_stage_step untar body fs MkdirTemp = fs\<lparr>fs_staging := Some None\<rparr>"
| "do_stage_step untar body fs Extract = fs\<lparr>fs_staging := Some (Option.bind (fs_archive fs) untar)\<rparr>"
| "do_stage_step untar body fs RenameBinary =
     fs\<lparr>fs_companion_new := Option.bind (fs_staging fs) id, fs_staging := Some None\<rparr>"
| "do_stage_step untar body fs _ = fs"

text \<open>Whether a step fails: a system call the environment makes fail, a digest that differs, a bundle without the binary.\<close>

definition stage_step_fails ::
  "(stage_step \<Rightarrow> bool) \<Rightarrow> (nat list \<Rightarrow> nat list) \<Rightarrow> nat list \<Rightarrow> nat list \<Rightarrow> stage_fs \<Rightarrow> stage_step \<Rightarrow> update_error option" where
  "stage_step_fails fails sum256 expected body fs st =
     (if st = CheckDigest then (if sum256 body \<noteq> expected then Some ErrArtifactDigestMismatch else None)
      else if fails st then Some (StepError ''step'')
      else if st = OpenBinary \<and> fs_staging fs = Some None then Some (StepError ''open extracted companion'')
      else None)"

fun run_stage_steps ::
  "(stage_step \<Rightarrow> bool) \<Rightarrow> (nat list \<Rightarrow> nat list) \<Rightarrow> (nat list \<Rightarrow> nat list option) \<Rightarrow> nat list \<Rightarrow> nat list \<Rightarrow>
   stage_fs \<Rightarrow> stage_step list \<Rightarrow> stage_fs \<times> update_error option" where
  "run_stage_steps fails sum256 untar expected body fs [] = (fs, None)"
| "run_stage_steps fails sum256 untar expected body fs (st # sts) =
     (case stage_step_fails fails sum256 expected body fs st of
        Some err \<Rightarrow> (fs, Some err)
      | None \<Rightarrow> run_stage_steps fails sum256 untar expected body (do_stage_step untar body fs st) sts)"

text \<open>The deferred removals of the archive and of the staging directory.\<close>

definition stage_cleanup :: "stage_fs \<Rightarrow> stage_fs" where
  "stage_cleanup fs = fs\<lparr>fs_archive := None, fs_staging := None\<rparr>"

definition stageArchive ::
  "(stage_step \<Rightarrow> bool) \<Rightarrow> (nat list \<Rightarrow> nat list) \<Rightarrow> (nat list \<Rightarrow> nat list option) \<Rightarrow> nat list \<Rightarrow> string \<Rightarrow> string \<Rightarrow>
   stage_fs \<Rightarrow> stage_fs \<times> update_error option" where
  "stageArchive fails sum256 untar body digest dataDir fs =
     (if trim_space dataDir = '''' then (fs, Some ErrUpdateUnavailable)
      else case parseSHA256Digest digest of
        Inl err \<Rightarrow> (fs, Some err)
      | Inr expected \<Rightarrow>
          (case run_stage_steps fails sum256 untar expected body fs stage_steps of
             (fs', err) \<Rightarrow> (stage_cleanup fs', err)))"

section \<open>The updater\<close>

record BuildInfo =
  Version :: string
  ReleaseRepo :: string

record UpdatePolicy =
  up_Enabled :: bool
  up_Exposed :: bool
  up_Channel :: string
  up_DataDir :: string

definition no_policy :: UpdatePolicy where
  "no_policy = \<lparr>up_Enabled = False, up_Exposed = False, up_Channel = '''', up_DataDir = ''''\<rparr>"

definition policy_channel :: "UpdatePolicy \<Rightarrow> string" where
  "policy_channel p = (if up_Channel p = ''beta'' then ''beta'' else ''stable'')"

record UpdateStatus =
  us_Enabled :: bool
  us_Exposed :: bool
  us_Channel :: string
  CurrentVersion :: string
  LatestVersion :: string
  UpdateAvailable :: bool
  StagedVersion :: string
  RestartRequired :: bool
  us_Stage :: string
  us_Error :: "update_error option"

record Prerelease =
  pr_Version :: string
  pr_PublishedAt :: time
  Installed :: bool
  Older :: bool

record Updater =
  u_source :: bool
  u_build :: BuildInfo
  u_policy :: "UpdatePolicy option"
  u_restart :: bool
  u_latest :: string
  u_staged :: string
  u_err :: "update_error option"

definition NewUpdater :: "bool \<Rightarrow> BuildInfo \<Rightarrow> UpdatePolicy option \<Rightarrow> bool \<Rightarrow> Updater" where
  "NewUpdater source build policy restart =
     \<lparr>u_source = source, u_build = build, u_policy = policy, u_restart = restart, u_latest = '''', u_staged = '''', u_err = None\<rparr>"

definition currentPolicy :: "Updater \<Rightarrow> UpdatePolicy" where
  "currentPolicy u = (case u_policy u of None \<Rightarrow> no_policy | Some p \<Rightarrow> p)"

definition available :: "Updater \<Rightarrow> update_error option" where
  "available u =
     (if \<not> u_source u \<or> trim_space (ReleaseRepo (u_build u)) = '''' \<or> \<not> up_Enabled (currentPolicy u)
      then Some ErrUpdateUnavailable else None)"

definition Updater_Status :: "Updater \<Rightarrow> UpdateStatus" where
  "Updater_Status u =
     (let policy = currentPolicy u;
          status = \<lparr>us_Enabled = up_Enabled policy, us_Exposed = up_Exposed policy, us_Channel = policy_channel policy,
                    CurrentVersion = Version (u_build u), LatestVersion = '''', UpdateAvailable = False,
                    StagedVersion = '''', RestartRequired = False, us_Stage = '''', us_Error = None\<rparr>
      in if trim_space (ReleaseRepo (u_build u)) = '''' then status\<lparr>us_Exposed := False, us_Stage := ''unavailable''\<rparr>
         else
           let latest = (if u_latest u = '''' then Version (u_build u) else u_latest u);
               newer = newerVersion latest (Version (u_build u));
               restart = (u_staged u \<noteq> '''')
           in status\<lparr>LatestVersion := latest, StagedVersion := u_staged u, us_Error := u_err u, UpdateAvailable := newer,
                     RestartRequired := restart,
                     us_Stage := (if u_err u \<noteq> None then ''failed'' else if restart then ''staged''
                                  else if newer then ''available'' else ''idle'')\<rparr>)"

definition Check :: "Updater \<Rightarrow> (update_error, ReleaseManifest) result \<Rightarrow> Updater \<times> (update_error, UpdateStatus) result" where
  "Check u latest =
     (case available u of
        Some err \<Rightarrow> (u, Err err)
      | None \<Rightarrow>
          (case latest of
             Inl err \<Rightarrow> (u\<lparr>u_err := Some err\<rparr>, Err err)
           | Inr m \<Rightarrow> let u = u\<lparr>u_latest := TagName m, u_err := None\<rparr> in (u, Ok (Updater_Status u))))"

text \<open>What an attempt to stage gets from outside: the download, the hash, \<^verbatim>\<open>tar\<close> and the failing system calls.\<close>

record stage_env =
  se_download :: "ReleaseAsset \<Rightarrow> (update_error, nat list) result"
  se_fails :: "stage_step \<Rightarrow> bool"
  se_sum256 :: "nat list \<Rightarrow> nat list"
  se_untar :: "nat list \<Rightarrow> nat list option"

definition stageFailed :: "Updater \<Rightarrow> update_error \<Rightarrow> Updater \<times> update_error option" where
  "stageFailed u err = (u\<lparr>u_err := Some err\<rparr>, Some err)"

definition stageManifest ::
  "stage_env \<Rightarrow> Updater \<Rightarrow> ReleaseManifest \<Rightarrow> stage_fs \<Rightarrow> stage_fs \<times> Updater \<times> update_error option" where
  "stageManifest env u m fs =
     (case Asset m ''companion.tar.gz'' of
        Inl err \<Rightarrow> (fs, stageFailed u err)
      | Inr asset \<Rightarrow>
          (case se_download env asset of
             Inl err \<Rightarrow> (fs, stageFailed u err)
           | Inr body \<Rightarrow>
               (case stageArchive (se_fails env) (se_sum256 env) (se_untar env) body (Digest asset)
                       (up_DataDir (currentPolicy u)) fs of
                  (fs', Some err) \<Rightarrow> (fs', stageFailed u err)
                | (fs', None) \<Rightarrow> (fs', u\<lparr>u_staged := TagName m, u_err := None\<rparr>, None))))"

definition Stage ::
  "stage_env \<Rightarrow> Updater \<Rightarrow> (update_error, ReleaseManifest) result \<Rightarrow> stage_fs \<Rightarrow>
   stage_fs \<times> Updater \<times> (update_error, UpdateStatus) result" where
  "Stage env u latest fs =
     (case available u of
        Some err \<Rightarrow> (fs, u, Err err)
      | None \<Rightarrow>
          (case latest of
             Inl err \<Rightarrow> (fs, u\<lparr>u_err := Some err\<rparr>, Err err)
           | Inr m \<Rightarrow>
               if \<not> newerVersion (TagName m) (Version (u_build u)) then
                 let u = u\<lparr>u_latest := TagName m, u_err := None\<rparr> in (fs, u, Ok (Updater_Status u))
               else
                 (case stageManifest env u m fs of
                    (fs', u', Some err) \<Rightarrow> (fs', u', Err err)
                  | (fs', u', None) \<Rightarrow> let u' = u'\<lparr>u_latest := TagName m\<rparr> in (fs', u', Ok (Updater_Status u')))))"

text \<open>The last component says whether a restart was scheduled.\<close>

definition Install ::
  "stage_env \<Rightarrow> Updater \<Rightarrow> (update_error, ReleaseManifest) result \<Rightarrow> stage_fs \<Rightarrow>
   stage_fs \<times> Updater \<times> (update_error, UpdateStatus) result \<times> bool" where
  "Install env u latest fs =
     (if \<not> u_restart u then (fs, u, Err ErrUpdateUnavailable, False)
      else case Stage env u latest fs of
        (fs', u', Inl err) \<Rightarrow> (fs', u', Err err, False)
      | (fs', u', Inr status) \<Rightarrow> (fs', u', Ok status, RestartRequired status))"

text \<open>\<^verbatim>\<open>sort.SliceStable\<close>\<close>

fun insert_stable :: "('a \<Rightarrow> 'a \<Rightarrow> bool) \<Rightarrow> 'a \<Rightarrow> 'a list \<Rightarrow> 'a list" where
  "insert_stable lt x [] = [x]"
| "insert_stable lt x (y # ys) = (if lt y x then y # insert_stable lt x ys else x # y # ys)"

definition slice_stable :: "('a \<Rightarrow> 'a \<Rightarrow> bool) \<Rightarrow> 'a list \<Rightarrow> 'a list" where
  "slice_stable lt xs = foldr (insert_stable lt) xs []"

definition prereleaseManifests ::
  "(update_error, ReleaseManifest list) result \<Rightarrow> (update_error, ReleaseManifest list) result" where
  "prereleaseManifests listing =
     (case listing of
        Inl err \<Rightarrow> Err err
      | Inr ms \<Rightarrow>
          Ok (slice_stable (\<lambda>a b. newerVersion (TagName a) (TagName b))
               (filter (\<lambda>m. Prerelease_flag m \<and> semver_submatch (TagName m) \<noteq> None) ms)))"

definition Prereleases ::
  "Updater \<Rightarrow> (update_error, ReleaseManifest list) result \<Rightarrow> (update_error, Prerelease list) result" where
  "Prereleases u listing =
     (case available u of
        Some err \<Rightarrow> Err err
      | None \<Rightarrow>
          (case prereleaseManifests listing of
             Inl err \<Rightarrow> Err err
           | Inr ms \<Rightarrow>
               Ok (map (\<lambda>m. \<lparr>pr_Version = TagName m, pr_PublishedAt = PublishedAt m,
                              Installed = (TagName m = Version (u_build u)),
                              Older = newerVersion (Version (u_build u)) (TagName m)\<rparr>) ms)))"

definition InstallVersion ::
  "stage_env \<Rightarrow> Updater \<Rightarrow> (update_error, ReleaseManifest list) result \<Rightarrow> string \<Rightarrow> stage_fs \<Rightarrow>
   stage_fs \<times> Updater \<times> (update_error, UpdateStatus) result \<times> bool" where
  "InstallVersion env u listing version fs =
     (if \<not> u_restart u then (fs, u, Err ErrUpdateUnavailable, False)
      else case available u of
        Some err \<Rightarrow> (fs, u, Err err, False)
      | None \<Rightarrow>
          if version = Version (u_build u) then (fs, u, Err ErrReleaseAlreadyInstalled, False)
          else case prereleaseManifests listing of
            Inl err \<Rightarrow> (fs, fst (stageFailed u err), Err err, False)
          | Inr ms \<Rightarrow>
              (case find (\<lambda>m. TagName m = version) ms of
                 None \<Rightarrow> (fs, u, Err ErrReleaseNotFound, False)
               | Some m \<Rightarrow>
                   (case stageManifest env u m fs of
                      (fs', u', Some err) \<Rightarrow> (fs', u', Err err, False)
                    | (fs', u', None) \<Rightarrow> (fs', u', Ok (Updater_Status u'), True))))"

text \<open>The restart that \<^verbatim>\<open>restartLater\<close> dispatches: its failure is what the status shows.\<close>

definition restart_finished :: "Updater \<Rightarrow> bool \<Rightarrow> Updater" where
  "restart_finished u ok = (if ok then u else u\<lparr>u_err := Some RestartFailed\<rparr>)"


section \<open>The order of versions\<close>

text \<open>
  What the comparison looks at, as elements of linear orders of the library: a number by its length and then its digits, an identifier
  of a pre-release as number or word, and the missing pre-release above all others.
\<close>

definition number_key :: "string \<Rightarrow> nat \<times> string" where
  "number_key s = (length s, s)"

definition ident_key :: "string \<Rightarrow> bool \<times> nat \<times> string" where
  "ident_key s = (\<not> isNumeric s, if isNumeric s then length s else 0, s)"

definition pre_key :: "string \<Rightarrow> bool \<times> (bool \<times> nat \<times> string) list" where
  "pre_key s = (s = [], map ident_key (split_char CHR ''.'' s))"

definition version_key ::
  "string \<times> string \<times> string \<times> string \<Rightarrow>
   (nat \<times> string) \<times> (nat \<times> string) \<times> (nat \<times> string) \<times> bool \<times> (bool \<times> nat \<times> string) list" where
  "version_key v = (case v of (a, b, c, pre) \<Rightarrow> (number_key a, number_key b, number_key c, pre_key pre))"

lemma ident_key_inj [simp]: "ident_key s = ident_key t \<longleftrightarrow> s = t"
  by (auto simp: ident_key_def)

lemma number_key_inj [simp]: "number_key s = number_key t \<longleftrightarrow> s = t"
  by (auto simp: number_key_def)

lemma map_ident_key_inj [simp]: "map ident_key ss = map ident_key ts \<longleftrightarrow> ss = ts"
  by (metis ident_key_inj inj_def list.inj_map_strong)

lemma split_char_inj [simp]: "split_char c s = split_char c t \<longleftrightarrow> s = t"
  by (metis join_split_char)

lemma compare_idents_key:
  "ls \<noteq> rs \<Longrightarrow> compare_idents ls rs = (if map ident_key rs < map ident_key ls then 1 else -1)"
proof (induction ls rs rule: list_induct2')
  case (4 l ls r rs)
  then show ?case by (auto simp: ident_key_def)
qed simp_all

lemma comparePrerelease_key: "comparePrerelease a b > 0 \<longleftrightarrow> pre_key b < pre_key a"
  by (auto simp: comparePrerelease_def pre_key_def compare_idents_key)

lemma newerVersion_key:
  "newerVersion c d \<longleftrightarrow>
     (\<exists>v w. semver_submatch c = Some v \<and> semver_submatch d = Some w \<and> version_key w < version_key v)"
  by (auto simp: newerVersion_def version_key_def number_key_def comparePrerelease_key
           split: option.splits prod.splits if_splits)


subsection \<open>The precedence of semantic versions\<close>

text \<open>
  The reference: numbers by their values, a pre-release below the release, its identifiers from left to right, numbers by
  value and below words, words by their characters, and more identifiers above fewer.
\<close>

definition number_value :: "string \<Rightarrow> nat" where
  "number_value s = the (digits_val 0 s)"

definition ident_value :: "string \<Rightarrow> bool \<times> nat \<times> string" where
  "ident_value s = (if isNumeric s then (False, number_value s, []) else (True, 0, s))"

definition precedence ::
  "string \<times> string \<times> string \<times> string \<Rightarrow> nat \<times> nat \<times> nat \<times> bool \<times> (bool \<times> nat \<times> string) list" where
  "precedence v =
     (case v of (a, b, c, pre) \<Rightarrow>
        (number_value a, number_value b, number_value c, pre = [], map ident_value (split_char CHR ''.'' pre)))"

text \<open>Numbers are written without leading zeros; of the identifiers of a pre-release the pattern does not demand it.\<close>

definition canonical_number :: "string \<Rightarrow> bool" where
  "canonical_number s \<longleftrightarrow> isNumeric s \<and> (hd s = CHR ''0'' \<longrightarrow> length s = 1)"

definition canonical_pre :: "string \<Rightarrow> bool" where
  "canonical_pre pre \<longleftrightarrow> list_all (\<lambda>w. isNumeric w \<longrightarrow> canonical_number w) (split_char CHR ''.'' pre)"

fun digits_sum :: "string \<Rightarrow> nat" where
  "digits_sum [] = 0"
| "digits_sum (c # cs) = (byte_of c - 48) * 10 ^ length cs + digits_sum cs"

lemma digits_val_sum: "list_all is_digit s \<Longrightarrow> digits_val acc s = Some (acc * 10 ^ length s + digits_sum s)"
  by (induction s arbitrary: acc) (auto simp: algebra_simps)

lemma number_value_sum: "list_all is_digit s \<Longrightarrow> number_value s = digits_sum s"
  by (simp add: number_value_def digits_val_sum)

lemma digits_sum_bound: "list_all is_digit s \<Longrightarrow> digits_sum s < 10 ^ length s"
proof (induction s)
  case (Cons c cs)
  then have "byte_of c - 48 \<le> 9" by (auto simp: is_digit_def)
  then have "(byte_of c - 48) * 10 ^ length cs \<le> 9 * 10 ^ length cs" by (rule mult_le_mono1)
  from add_le_less_mono [OF this, of "digits_sum cs" "10 ^ length cs"] Cons show ?case by simp
qed simp

lemma digits_sum_less:
  "list_all is_digit s \<Longrightarrow> list_all is_digit t \<Longrightarrow> length s = length t \<Longrightarrow> s < t \<Longrightarrow> digits_sum s < digits_sum t"
proof (induction s arbitrary: t)
  case (Cons c cs)
  then obtain d ds where t: "t = d # ds" by (cases t) auto
  show ?case
  proof (cases "c = d")
    case True
    then show ?thesis using Cons t by simp
  next
    case False
    then have "byte_of c < byte_of d" using Cons.prems t by (auto simp: less_char_def byte_of_def)
    then have "(byte_of c - 48) + 1 \<le> byte_of d - 48" using Cons.prems by (auto simp: is_digit_def)
    then have "((byte_of c - 48) + 1) * 10 ^ length cs \<le> (byte_of d - 48) * 10 ^ length cs" by (rule mult_le_mono1)
    then show ?thesis using digits_sum_bound [of cs] Cons.prems t by simp
  qed
qed simp

lemma canonical_head:
  assumes "canonical_number s" and "2 \<le> length s"
  shows "10 ^ (length s - 1) \<le> digits_sum s"
proof -
  obtain c cs where s: "s = c # cs" using assms by (cases s) auto
  then have "c \<noteq> CHR ''0''" "is_digit c" using assms by (auto simp: canonical_number_def isNumeric_def)
  moreover have "byte_of c = byte_of CHR ''0'' \<Longrightarrow> c = CHR ''0''" by (simp only: byte_of_def of_char_eq_iff)
  then have "byte_of c = 48 \<Longrightarrow> c = CHR ''0''" by (simp add: byte_of_def)
  ultimately have "1 \<le> byte_of c - 48" by (cases "byte_of c = 48") (auto simp: is_digit_def)
  then have "1 * 10 ^ length cs \<le> (byte_of c - 48) * 10 ^ length cs" by (rule mult_le_mono1)
  from add_le_mono [OF this, of 0 "digits_sum cs"] show ?thesis using s by simp
qed

lemma number_key_less:
  assumes "canonical_number s" and "canonical_number t" and "number_key s < number_key t"
  shows "number_value s < number_value t"
proof -
  have d: "list_all is_digit s" "list_all is_digit t" "s \<noteq> []" using assms(1,2) by (simp_all add: canonical_number_def isNumeric_def)
  consider "length s < length t" | "length s = length t" "s < t"
    using assms(3) by (auto simp: number_key_def le_less)
  then show ?thesis
  proof cases
    case 1
    then have "2 \<le> length t" using d(3) by (cases s) auto
    then have "10 ^ (length t - 1) \<le> digits_sum t" by (rule canonical_head [OF assms(2)])
    moreover have "(10 :: nat) ^ length s \<le> 10 ^ (length t - 1)" using 1 by (intro power_increasing) auto
    ultimately have "digits_sum s < digits_sum t" using digits_sum_bound [OF d(1)] by linarith
    then show ?thesis using d by (simp add: number_value_sum)
  next
    case 2
    then show ?thesis using digits_sum_less d by (simp add: number_value_sum)
  qed
qed

text \<open>An embedding of linear orders that is strictly monotone reflects the order and is injective.\<close>

lemma strict_iff:
  fixes f :: "'a \<Rightarrow> 'b :: linorder" and g :: "'a \<Rightarrow> 'c :: linorder"
  assumes "\<And>x y. P x \<Longrightarrow> P y \<Longrightarrow> f x < f y \<Longrightarrow> g x < g y" and "inj f" and "P x" "P y"
  shows "(f x < f y \<longleftrightarrow> g x < g y) \<and> (g x = g y \<longleftrightarrow> x = y)"
proof -
  have "f x = f y \<longleftrightarrow> x = y" using assms(2) by (auto dest: injD)
  then show ?thesis using assms(1) [OF assms(3,4)] assms(1) [OF assms(4,3)]
    by (cases "f x" "f y" rule: linorder_cases) auto
qed


lemma number_value_order:
  assumes "canonical_number s" and "canonical_number t"
  shows "(number_key s < number_key t \<longleftrightarrow> number_value s < number_value t) \<and> (number_value s = number_value t \<longleftrightarrow> s = t)"
  by (rule strict_iff [where P = canonical_number, OF number_key_less _ assms]) (auto simp: number_key_def inj_def)

lemma ident_value_order:
  assumes "isNumeric s \<longrightarrow> canonical_number s" and "isNumeric t \<longrightarrow> canonical_number t"
  shows "(ident_key s < ident_key t \<longleftrightarrow> ident_value s < ident_value t) \<and> (ident_value s = ident_value t \<longleftrightarrow> s = t)"
proof (cases "isNumeric s \<and> isNumeric t")
  case True
  then show ?thesis using number_value_order [of s t] assms by (simp add: ident_key_def ident_value_def number_key_def)
next
  case False
  then show ?thesis by (auto simp: ident_key_def ident_value_def)
qed

lemma ident_values_order:
  assumes "list_all (\<lambda>w. isNumeric w \<longrightarrow> canonical_number w) ss" and "list_all (\<lambda>w. isNumeric w \<longrightarrow> canonical_number w) ts"
  shows "map ident_key ss < map ident_key ts \<longleftrightarrow> map ident_value ss < map ident_value ts"
  using assms
proof (induction ss arbitrary: ts)
  case Nil
  then show ?case by (cases ts) auto
next
  case (Cons s ss)
  then show ?case using ident_value_order [of s] by (cases ts) auto
qed

lemma match_number_canonical: "match_number s = Some (d, rest) \<Longrightarrow> canonical_number d"
  by (auto simp: match_number_def canonical_number_def isNumeric_def Let_def list_all_iff dest: set_takeWhileD split: if_splits)

lemma match_number_dot_canonical: "match_number_dot s = Some (d, rest) \<Longrightarrow> canonical_number d"
  by (auto simp: match_number_dot_def dest: match_number_canonical split: option.splits list.splits if_splits)

lemma semver_canonical:
  assumes "semver_submatch s = Some (a, b, c, pre)"
  shows "canonical_number a \<and> canonical_number b \<and> canonical_number c"
  using assms
  by (auto simp: semver_submatch_def bind_eq_Some_conv dest!: match_number_canonical match_number_dot_canonical)

section \<open>Staging\<close>

lemma run_stage_steps_new:
  "RenameBinary \<notin> set sts \<Longrightarrow>
   fs_companion_new (fst (run_stage_steps fails sum256 untar expected body fs sts)) = fs_companion_new fs"
proof (induction sts arbitrary: fs)
  case (Cons st sts)
  have "fs_companion_new (do_stage_step untar body fs st) = fs_companion_new fs" using Cons.prems by (cases st) auto
  with Cons show ?case by (auto split: option.split)
qed simp


text \<open>The steps up to the rename and the rename itself.\<close>

lemma stage_steps_split: "stage_steps = butlast stage_steps @ [RenameBinary]" "RenameBinary \<notin> set (butlast stage_steps)"
  by (simp_all add: stage_steps_def)

lemma run_stage_steps_append:
  "run_stage_steps fails sum256 untar expected body fs (xs @ ys) =
     (case run_stage_steps fails sum256 untar expected body fs xs of
        (fs', Some err) \<Rightarrow> (fs', Some err)
      | (fs', None) \<Rightarrow> run_stage_steps fails sum256 untar expected body fs' ys)"
  by (induction xs arbitrary: fs) (auto split: option.splits)

lemma run_stage_steps_error_keeps:
  assumes "run_stage_steps fails sum256 untar expected body fs stage_steps = (fs', Some err)"
  shows "fs_companion_new fs' = fs_companion_new fs"
proof -
  obtain fs1 e where r: "run_stage_steps fails sum256 untar expected body fs (butlast stage_steps) = (fs1, e)" by fastforce
  have k: "fs_companion_new fs1 = fs_companion_new fs"
    using run_stage_steps_new [OF stage_steps_split(2), of fails sum256 untar expected body fs] r by simp
  have "run_stage_steps fails sum256 untar expected body fs (butlast stage_steps @ [RenameBinary]) = (fs', Some err)"
    using assms stage_steps_split(1) by simp
  then show ?thesis using r k by (simp add: run_stage_steps_append split: option.splits)
qed

lemma run_stage_steps_ok:
  assumes "run_stage_steps fails sum256 untar expected body fs stage_steps = (fs', None)"
  shows "sum256 body = expected \<and> fs_companion_new fs' = untar body \<and> untar body \<noteq> None"
  using assms by (auto simp: stage_steps_def stage_step_fails_def split: if_splits)

lemma insert_stable_mset: "mset (insert_stable lt x ys) = add_mset x (mset ys)"
  by (induction ys) auto

lemma slice_stable_mset: "mset (slice_stable lt xs) = mset xs"
  unfolding slice_stable_def by (induction xs) (simp_all add: insert_stable_mset)

lemma insert_stable_set [simp]: "set (insert_stable lt x ys) = insert x (set ys)"
  by (metis insert_stable_mset set_mset_add_mset_insert set_mset_mset)

lemma slice_stable_set [simp]: "set (slice_stable lt xs) = set xs"
  by (metis slice_stable_mset set_mset_mset)

text \<open>For a comparison by keys of a linear order the result descends, and elements with the same key keep their order.\<close>

lemma insert_stable_sorted:
  assumes "\<And>y. y \<in> insert x (set ys) \<Longrightarrow> lt y x = (key y > (key x :: 'k :: linorder))" and "sorted_wrt (\<lambda>a b. key a \<ge> key b) ys"
  shows "sorted_wrt (\<lambda>a b. key a \<ge> key b) (insert_stable lt x ys)"
  using assms by (induction ys) force+

lemma slice_stable_sorted:
  assumes "\<And>y z. y \<in> set xs \<Longrightarrow> z \<in> set xs \<Longrightarrow> lt y z = (key y > (key z :: 'k :: linorder))"
  shows "sorted_wrt (\<lambda>a b. key a \<ge> key b) (slice_stable lt xs)"
  using assms unfolding slice_stable_def
proof (induction xs)
  case (Cons x xs)
  have "set (foldr (insert_stable lt) xs []) = set xs" using slice_stable_set [of lt xs] by (simp add: slice_stable_def)
  then show ?case using Cons by (auto intro!: insert_stable_sorted)
qed simp

lemma insert_stable_filter:
  assumes "\<And>y. y \<in> set ys \<Longrightarrow> P y \<Longrightarrow> P x \<Longrightarrow> \<not> lt y x"
  shows "filter P (insert_stable lt x ys) = (if P x then x # filter P ys else filter P ys)"
  using assms by (induction ys) (auto simp: filter_empty_conv)

lemma slice_stable_filter:
  assumes "\<And>y z. y \<in> set xs \<Longrightarrow> z \<in> set xs \<Longrightarrow> P y \<Longrightarrow> P z \<Longrightarrow> \<not> lt y z"
  shows "filter P (slice_stable lt xs) = filter P xs"
  using assms unfolding slice_stable_def
proof (induction xs)
  case (Cons x xs)
  have "set (foldr (insert_stable lt) xs []) = set xs" using slice_stable_set [of lt xs] by (simp add: slice_stable_def)
  then show ?case using Cons insert_stable_filter [of "foldr (insert_stable lt) xs []" P x lt] by auto
qed simp


section \<open>Properties\<close>

text \<open>
  C15. The comparison of versions is the precedence of semantic versioning: for two tags of the accepted form whose numeric
  pre-release identifiers have no leading zeros, comparing lengths and strings orders them like the values of their
  numbers, with a release above its pre-releases and numeric identifiers below words.
\<close>

theorem newer_version_is_precedence:
  assumes "semver_submatch candidate = Some (a1, a2, a3, apre)" and "semver_submatch current = Some (b1, b2, b3, bpre)"
    and "canonical_pre apre" and "canonical_pre bpre"
  shows "newerVersion candidate current \<longleftrightarrow> precedence (b1, b2, b3, bpre) < precedence (a1, a2, a3, apre)"
proof -
  note n = number_value_order [of b1 a1] number_value_order [of b2 a2] number_value_order [of b3 a3]
  have p: "map ident_key (split_char CHR ''.'' bpre) < map ident_key (split_char CHR ''.'' apre) \<longleftrightarrow>
           map ident_value (split_char CHR ''.'' bpre) < map ident_value (split_char CHR ''.'' apre)"
    by (rule ident_values_order) (use assms(3,4) in \<open>simp_all add: canonical_pre_def\<close>)
  show ?thesis
    using n semver_canonical [OF assms(1)] semver_canonical [OF assms(2)] assms(1,2)
    by (simp add: newerVersion_key version_key_def precedence_def pre_key_def le_less p)
qed

theorem newer_version_is_precedence_witness:
  "newerVersion ''v1.10.0-rc.10+5'' ''1.10.0-rc.9'' \<longleftrightarrow>
   precedence (''1'', ''10'', ''0'', ''rc.9'') < precedence (''1'', ''10'', ''0'', ''rc.10'')"
  by (rule newer_version_is_precedence; code_simp)

text \<open>
  The list of pre-releases holds the published pre-releases with a version of the accepted form and nothing else,
  no release stands before a newer one, and releases of the same version keep the order of the server.
\<close>

theorem prereleases_newest_first:
  "\<exists>ps. prereleaseManifests (Inr ms) = Inr ps \<and>
     mset ps = mset (filter (\<lambda>m. Prerelease_flag m \<and> semver_submatch (TagName m) \<noteq> None) ms) \<and>
     sorted_wrt (\<lambda>a b. \<not> newerVersion (TagName b) (TagName a)) ps \<and>
     (\<forall>v. filter (\<lambda>m. semver_submatch (TagName m) = Some v) ps =
          filter (\<lambda>m. Prerelease_flag m \<and> semver_submatch (TagName m) = Some v) ms)"
proof -
  let ?lt = "\<lambda>a b. newerVersion (TagName a) (TagName b)"
  let ?fs = "filter (\<lambda>m. Prerelease_flag m \<and> semver_submatch (TagName m) \<noteq> None) ms"
  let ?key = "\<lambda>m. version_key (the (semver_submatch (TagName m)))"
  have lt: "?lt y z = (?key z < ?key y)" if "y \<in> set ?fs" "z \<in> set ?fs" for y z
    using that by (auto simp: newerVersion_key)
  have "sorted_wrt (\<lambda>a b. ?key a \<ge> ?key b) (slice_stable ?lt ?fs)"
    by (rule slice_stable_sorted) (rule lt)
  then have "sorted_wrt (\<lambda>a b. \<not> ?lt b a) (slice_stable ?lt ?fs)"
    by (rule sorted_wrt_mono_rel [rotated]) (auto simp: lt newerVersion_key)
  moreover have "filter (\<lambda>m. semver_submatch (TagName m) = Some v) (slice_stable ?lt ?fs) =
                 filter (\<lambda>m. semver_submatch (TagName m) = Some v) ?fs" for v
    by (rule slice_stable_filter) (auto simp: newerVersion_key)
  moreover have "filter (\<lambda>m. semver_submatch (TagName m) = Some v) ?fs =
                 filter (\<lambda>m. Prerelease_flag m \<and> semver_submatch (TagName m) = Some v) ms" for v
    by (cases v) (auto intro!: filter_cong)
  ultimately show ?thesis by (simp add: prereleaseManifests_def slice_stable_mset)
qed

text \<open>
  C16. Staging is verified and all or nothing: whichever step fails, the binary that waits for the restart is the one from before;
  it changes only to the binary of a downloaded archive whose hash is the digest of the release. Neither the archive
  nor the staging directory is left behind.
\<close>

theorem stage_archive_verified:
  assumes "stageArchive fails sum256 untar body digest dataDir fs = (fs', err)"
    and "fs_archive fs = None" and "fs_staging fs = None"
  shows "fs_archive fs' = None \<and> fs_staging fs' = None \<and>
         (err \<noteq> None \<longrightarrow> fs_companion_new fs' = fs_companion_new fs) \<and>
         (err = None \<longrightarrow> parseSHA256Digest digest = Inr (sum256 body) \<and>
            (\<exists>binary. untar body = Some binary \<and> fs_companion_new fs' = Some binary))"
proof (cases "trim_space dataDir = ''''")
  case False
  show ?thesis
  proof (cases "parseSHA256Digest digest")
    case (Inr expected)
    obtain fs1 where r: "run_stage_steps fails sum256 untar expected body fs stage_steps = (fs1, err)"
      and f: "fs' = stage_cleanup fs1"
      using assms(1) False Inr by (auto simp: stageArchive_def split: prod.splits)
    show ?thesis
      using r run_stage_steps_error_keeps [of fails sum256 untar expected body fs fs1]
        run_stage_steps_ok [of fails sum256 untar expected body fs fs1] f Inr
      by (cases err) (auto simp: stage_cleanup_def)
  qed (use assms False in \<open>auto simp: stageArchive_def\<close>)
qed (use assms in \<open>auto simp: stageArchive_def\<close>)



definition sample_digest :: string where "sample_digest = ''sha256:'' @ concat (replicate 32 ''00'')"

definition sample_stage_env :: stage_env where
  "sample_stage_env =
     \<lparr>se_download = (\<lambda>_. Inr [1]), se_fails = (\<lambda>_. False), se_sum256 = (\<lambda>_. replicate 32 0), se_untar = (\<lambda>_. Some [9])\<rparr>"

definition empty_fs :: stage_fs where "empty_fs = \<lparr>fs_archive = None, fs_staging = None, fs_companion_new = None\<rparr>"

definition sample_release :: ReleaseManifest where
  "sample_release =
     \<lparr>TagName = ''v1.1.0'', Prerelease_flag = False, Draft = False, PublishedAt = 0,
      Assets = [\<lparr>as_Name = ''companion.tar.gz'', Digest = sample_digest, DownloadURL = ''https://example.org/c''\<rparr>]\<rparr>"

definition sample_updater :: Updater where
  "sample_updater =
     NewUpdater True \<lparr>Version = ''v1.0.0'', ReleaseRepo = ''r''\<rparr>
       (Some \<lparr>up_Enabled = True, up_Exposed = True, up_Channel = ''stable'', up_DataDir = ''/d''\<rparr>) True"

lemma sample_digest_ok: "parseSHA256Digest sample_digest = Inr (replicate 32 0)"
  by code_simp

lemma sample_trims: "trim_space ''/d'' = ''/d''" "trim_space ''r'' = ''r''"
  by (rule trim_space_plain; simp add: plain_def byte_of_def)+

theorem stage_archive_verified_witness:
  "(let r = stageArchive (\<lambda>st. st = SyncBinary) (\<lambda>_. replicate 32 0) (\<lambda>_. Some [9]) [1] sample_digest ''/d''
              (empty_fs\<lparr>fs_companion_new := Some [7]\<rparr>) in
    snd r \<noteq> None \<and> fs_companion_new (fst r) = Some [7] \<and> fs_staging (fst r) = None)"
proof -
  let ?r = "stageArchive (\<lambda>st. st = SyncBinary) (\<lambda>_. replicate 32 0) (\<lambda>_. Some [9]) [1] sample_digest ''/d''
              (empty_fs\<lparr>fs_companion_new := Some [7]\<rparr>)"
  have "snd ?r \<noteq> None"
    by (simp add: stageArchive_def sample_trims sample_digest_ok stage_steps_def stage_step_fails_def empty_fs_def)
  then show ?thesis
    using stage_archive_verified [OF surjective_pairing [of ?r]] by (simp add: Let_def empty_fs_def)
qed


end
