(* ===== verification/App_Ring.thy ===== *)
theory App_Ring
  imports Sig_Manager Media_Coordinator OWN_Mapper "HOL-Library.Multiset"
begin

text \<open>
  How the application ties the components together around a ring: \<^verbatim>\<open>src/internal/app/ringwatch.go\<close>,
  \<^verbatim>\<open>ringholder.go\<close>, \<^verbatim>\<open>buscall.go\<close>, \<^verbatim>\<open>pipelines.go\<close> and the closures of \<^verbatim>\<open>run.go\<close> that route events.

  The channel \<^verbatim>\<open>streamUp\<close> is a number and a table says which channels are closed; closing a closed channel panics, which is the
  value \<open>None\<close>. The ring holder's acquires run on goroutines of their own, so \<open>holder_step\<close> lets them finish at any time.
  Every operation takes the clock as an argument.

  The lemmas show that every stream the holder acquired is left exactly once, that a waiting video request hears
  of the intercom's stream, when the watch can panic, and how the order of two observations of the stream leaves a preview behind.
\<close>

section \<open>The ring watch\<close>

definition ringTimelineWindow :: duration where "ringTimelineWindow = 10 * second"
definition ringFrameRepeat :: duration where "ringFrameRepeat = 100 * millisecond"
definition ringStartRepeat :: duration where "ringStartRepeat = second"

record ringTimeline =
  activations :: "duration list"
  rt_parameters :: duration
  intercomStream :: duration
  rt_request :: duration
  requestReason :: string
  videoStarted :: duration
  videoErr :: bool
  firstRTP :: duration
  reported :: bool

definition no_timeline :: ringTimeline where
  "no_timeline = \<lparr>activations = [], rt_parameters = 0, intercomStream = 0, rt_request = 0, requestReason = '''',
                   videoStarted = 0, videoErr = False, firstRTP = 0, reported = False\<rparr>"

record ringVideoWatch =
  rw_generation :: nat
  ringAt :: time
  streamUp :: nat
  timeline :: ringTimeline
  rw_closed :: "nat \<Rightarrow> bool"

definition newRingVideoWatch :: ringVideoWatch where
  "newRingVideoWatch = \<lparr>rw_generation = 0, ringAt = 0, streamUp = 0, timeline = no_timeline, rw_closed = (\<lambda>_. False)\<rparr>"

definition reportLocked :: "ringVideoWatch \<Rightarrow> ringVideoWatch" where
  "reportLocked w =
     (if is_zero_time (ringAt w) \<or> reported (timeline w) then w
      else w\<lparr>timeline := (timeline w)\<lparr>reported := True\<rparr>\<rparr>)"

text \<open>A channel that replaces another is a new one.\<close>

definition startRing :: "ringVideoWatch \<Rightarrow> time \<Rightarrow> ringVideoWatch" where
  "startRing w now =
     (let w = reportLocked w;
          w = (if intercomStream (timeline w) \<noteq> 0
               then w\<lparr>streamUp := streamUp w + 1, rw_closed := (rw_closed w)(streamUp w + 1 := False)\<rparr> else w)
      in w\<lparr>rw_generation := rw_generation w + 1, ringAt := now, timeline := no_timeline\<rparr>)"

text \<open>The function \<^verbatim>\<open>startRing\<close> hands to the timer.\<close>

definition window_elapsed :: "ringVideoWatch \<Rightarrow> nat \<Rightarrow> ringVideoWatch" where
  "window_elapsed w generation = (if rw_generation w = generation then reportLocked w else w)"

definition watch_observeFrame :: "ringVideoWatch \<Rightarrow> time \<Rightarrow> string \<Rightarrow> ringVideoWatch option" where
  "watch_observeFrame w now frame =
     (if IsRingStart frame then
        Some (if is_zero_time (ringAt w) \<or> time_sub now (ringAt w) \<ge> ringStartRepeat then startRing w now else w)
      else if is_zero_time (ringAt w) then Some w
      else
        let offset = time_sub now (ringAt w); t = timeline w in
        if IsAVActivation frame then
          Some (if activations t = [] \<or> offset - last (activations t) > ringFrameRepeat
                then w\<lparr>timeline := t\<lparr>activations := activations t @ [offset]\<rparr>\<rparr> else w)
        else if IsAVParameters frame then
          Some (if rt_parameters t = 0 then w\<lparr>timeline := t\<lparr>rt_parameters := offset\<rparr>\<rparr> else w)
        else if IsIntercomStreamStart frame then
          (if intercomStream t = 0 then
             (if rw_closed w (streamUp w) then None
              else Some (w\<lparr>timeline := t\<lparr>intercomStream := offset\<rparr>, rw_closed := (rw_closed w)(streamUp w := True)\<rparr>))
           else Some w)
        else Some w)"

text \<open>
  The reasons \<^verbatim>\<open>waitIntercomStream\<close> may return: \<open>w0\<close> is the watch when it took the channel, \<open>w\<close> the watch at its
  second select, which picks any of the cases that are ready and waits while none is.
\<close>

definition waitIntercomStream :: "ringVideoWatch \<Rightarrow> ringVideoWatch \<Rightarrow> bool \<Rightarrow> bool \<Rightarrow> string list" where
  "waitIntercomStream w0 w elapsed cancelled =
     (let ch = streamUp w0 in
      if rw_closed w0 ch then [''intercom_stream'']
      else (if rw_closed w ch then [''intercom_stream''] else []) @
           (if elapsed then [''fallback''] else []) @
           (if cancelled then [''cancelled''] else []))"

definition watch_record :: "ringVideoWatch \<Rightarrow> time \<Rightarrow> (ringTimeline \<Rightarrow> duration \<Rightarrow> ringTimeline) \<Rightarrow> ringVideoWatch" where
  "watch_record w now update =
     (if is_zero_time (ringAt w) \<or> reported (timeline w) then w
      else
        let w = w\<lparr>timeline := update (timeline w) (time_sub now (ringAt w))\<rparr>; t = timeline w in
        if firstRTP t \<noteq> 0 \<and> (videoStarted t \<noteq> 0 \<or> videoErr t) then reportLocked w else w)"

text \<open>The three updates the wrappers of the source and of the clip record.\<close>

definition note_request :: "string \<Rightarrow> ringTimeline \<Rightarrow> duration \<Rightarrow> ringTimeline" where
  "note_request reason t offset = (if rt_request t = 0 then t\<lparr>rt_request := offset, requestReason := reason\<rparr> else t)"

definition note_started :: "bool \<Rightarrow> ringTimeline \<Rightarrow> duration \<Rightarrow> ringTimeline" where
  "note_started failed t offset = (if failed then t\<lparr>videoErr := True\<rparr> else t\<lparr>videoStarted := offset\<rparr>)"

definition note_packet :: "ringTimeline \<Rightarrow> duration \<Rightarrow> ringTimeline" where
  "note_packet t offset = (if firstRTP t = 0 then t\<lparr>firstRTP := offset\<rparr> else t)"

definition offsetMS :: "duration \<Rightarrow> int" where
  "offsetMS offset = (if offset = 0 then -1 else sgn offset * (\<bar>offset\<bar> div 1000000))"

text \<open>\<^verbatim>\<open>StartVideo\<close> of the wrapped source up to the call of the source: the reason, and whether the request goes out.\<close>

definition ring_StartVideo :: "ringVideoWatch \<Rightarrow> time \<Rightarrow> string \<Rightarrow> bool \<Rightarrow> ringVideoWatch \<times> bool \<times> bool" where
  "ring_StartVideo w now reason cancelled =
     (if cancelled then (w, False, False)
      else (watch_record w now (note_request reason), True,
            \<not> is_zero_time (ringAt w) \<and> \<not> reported (timeline w) \<and> rt_request (timeline w) = 0))"

datatype watch_input =
    WFrame time string
  | WWindow nat
  | WRequest time string
  | WStarted time bool
  | WPacket time

fun watch_step :: "ringVideoWatch \<Rightarrow> watch_input \<Rightarrow> ringVideoWatch option" where
  "watch_step w (WFrame now frame) = watch_observeFrame w now frame"
| "watch_step w (WWindow g) = Some (window_elapsed w g)"
| "watch_step w (WRequest now reason) = Some (fst (ring_StartVideo w now reason False))"
| "watch_step w (WStarted now failed) = Some (watch_record w now (note_started failed))"
| "watch_step w (WPacket now) = Some (watch_record w now note_packet)"

fun watch_run :: "ringVideoWatch \<Rightarrow> watch_input list \<Rightarrow> ringVideoWatch option" where
  "watch_run w [] = Some w"
| "watch_run w (i # is) = (case watch_step w i of None \<Rightarrow> None | Some w' \<Rightarrow> watch_run w' is)"

section \<open>The call on the bus\<close>

record busCall =
  bc_callType :: string
  bc_called :: string
  bc_open :: bool

definition bus_observeFrame :: "busCall \<Rightarrow> string \<Rightarrow> busCall" where
  "bus_observeFrame b frame =
     (case ParseCallStart frame of
        Some (callType, called) \<Rightarrow> \<lparr>bc_callType = callType, bc_called = called, bc_open = True\<rparr>
      | None \<Rightarrow>
          if IsCallAnswer frame then b\<lparr>bc_open := (bc_called b \<noteq> '''')\<rparr>
          else if IsCallEnd frame then b\<lparr>bc_open := False\<rparr>
          else b)"

definition bus_take :: "busCall \<Rightarrow> busCall \<times> (string \<times> string) option" where
  "bus_take b = (if \<not> bc_open b then (b, None) else (b\<lparr>bc_open := False\<rparr>, Some (bc_callType b, bc_called b)))"

text \<open>\<open>sent\<close> is what the control connection answers to the call end.\<close>

definition endBusCall :: "busCall \<Rightarrow> (string \<Rightarrow> string \<Rightarrow> bool) \<Rightarrow> busCall \<times> bool" where
  "endBusCall b sent =
     (case bus_take b of
        (b, None) \<Rightarrow> (b, False)
      | (b, Some (callType, called)) \<Rightarrow> (b, sent callType called))"


section \<open>The pipelines of a stream\<close>

record streamPipelines =
  pl_armed :: bool
  pl_started :: bool
  pl_closed :: bool
  pl_err :: "string option"

definition newStreamPipelines :: streamPipelines where
  "newStreamPipelines = \<lparr>pl_armed = False, pl_started = False, pl_closed = False, pl_err = None\<rparr>"

definition pipelines_arm :: "streamPipelines \<Rightarrow> streamPipelines" where
  "pipelines_arm p = p\<lparr>pl_armed := True\<rparr>"

text \<open>\<open>outcome\<close> is what the run of the processes returns; the last component says whether they were run.\<close>

definition pipelines_start :: "streamPipelines \<Rightarrow> string option \<Rightarrow> streamPipelines \<times> string option \<times> bool" where
  "pipelines_start p outcome =
     (if pl_closed p then (p, Some ''stream pipelines closed'', False)
      else if \<not> pl_armed p then (p, None, False)
      else if \<not> pl_started p then (p\<lparr>pl_started := True, pl_err := outcome\<rparr>, outcome, True)
      else (p, pl_err p, False))"

definition pipelines_close :: "streamPipelines \<Rightarrow> streamPipelines" where
  "pipelines_close p = p\<lparr>pl_closed := True\<rparr>"

section \<open>The ring holder\<close>

text \<open>
  The holder and its goroutines: the acquires that have not made their clip yet (\<open>rs_spawned\<close>), and those that wait
  for \<^verbatim>\<open>AcquireRingingPreview\<close> with their clip (\<open>rs_opening\<close>), each with the generation it was started for.
\<close>

record ringHolder =
  rh_generation :: nat
  rh_lease :: "StreamLease option"
  rh_clip :: "nat option"

record HolderSys =
  rs_holder :: ringHolder
  rs_spawned :: "(nat \<times> string) list"
  rs_opening :: "(nat \<times> nat) list"

definition newHolderSys :: HolderSys where
  "newHolderSys = \<lparr>rs_holder = \<lparr>rh_generation = 0, rh_lease = None, rh_clip = None\<rparr>, rs_spawned = [], rs_opening = []\<rparr>"

datatype holder_effect = ClipStarted nat | ClipClosed nat | Acquired StreamLease | Left StreamLease

text \<open>The part of \<^verbatim>\<open>hold\<close> and \<^verbatim>\<open>release\<close> under the lock, and the calls after it.\<close>

definition bump :: "ringHolder \<Rightarrow> ringHolder \<times> holder_effect list" where
  "bump h =
     (h\<lparr>rh_generation := rh_generation h + 1, rh_lease := None, rh_clip := None\<rparr>,
      (case rh_clip h of Some c \<Rightarrow> [ClipClosed c] | None \<Rightarrow> []) @
      (case rh_lease h of Some l \<Rightarrow> [Left l] | None \<Rightarrow> []))"

definition holder_entrypoint :: "Entrypoint list \<Rightarrow> EntrypointID \<Rightarrow> Entrypoint option" where
  "holder_entrypoint es i = find (\<lambda>e. ep_id e = i \<and> Stream (Caps e)) es"

definition holder_hold :: "HolderSys \<Rightarrow> Entrypoint list \<Rightarrow> EntrypointID \<Rightarrow> HolderSys \<times> holder_effect list" where
  "holder_hold s es i =
     (case bump (rs_holder s) of
        (h, effs) \<Rightarrow>
          (case holder_entrypoint es i of
             None \<Rightarrow> (s\<lparr>rs_holder := h\<rparr>, effs)
           | Some e \<Rightarrow> (s\<lparr>rs_holder := h, rs_spawned := rs_spawned s @ [(rh_generation h, ep_id e)]\<rparr>, effs)))"

definition holder_release :: "HolderSys \<Rightarrow> HolderSys \<times> holder_effect list" where
  "holder_release s = (case bump (rs_holder s) of (h, effs) \<Rightarrow> (s\<lparr>rs_holder := h\<rparr>, effs))"

text \<open>\<^verbatim>\<open>acquire\<close> once \<^verbatim>\<open>AcquireRingingPreview\<close> has returned a lease.\<close>

definition acquire_commit :: "ringHolder \<Rightarrow> nat \<Rightarrow> nat \<Rightarrow> StreamLease \<Rightarrow> ringHolder \<times> holder_effect list" where
  "acquire_commit h generation clip lease =
     (if rh_generation h = generation then (h\<lparr>rh_lease := Some lease, rh_clip := Some clip\<rparr>, [Acquired lease])
      else (h, [Acquired lease, ClipClosed clip, Left lease]))"

datatype holder_input =
    HEvent event "Entrypoint list"
  | HClip nat nat
  | HFailed nat
  | HOpened nat StreamLease

text \<open>\<open>route\<close> and the goroutines.\<close>

fun holder_step :: "HolderSys \<Rightarrow> holder_input \<Rightarrow> HolderSys \<times> holder_effect list" where
  "holder_step s (HEvent (IncomingCallStarted d e) es) = holder_hold s es e"
| "holder_step s (HEvent (CallAnswered d) es) = holder_release s"
| "holder_step s (HEvent (IncomingCallEnded d r) es) = holder_release s"
| "holder_step s (HEvent (CallDeclined d) es) = holder_release s"
| "holder_step s (HEvent (CallHungUp d) es) = holder_release s"
| "holder_step s (HEvent _ es) = (s, [])"
| "holder_step s (HClip n clip) =
     (if n < length (rs_spawned s) then
        (s\<lparr>rs_spawned := drop_nth n (rs_spawned s), rs_opening := rs_opening s @ [(fst (rs_spawned s ! n), clip)]\<rparr>,
         [ClipStarted clip])
      else (s, []))"
| "holder_step s (HFailed n) =
     (if n < length (rs_opening s) then
        (s\<lparr>rs_opening := drop_nth n (rs_opening s)\<rparr>, [ClipClosed (snd (rs_opening s ! n))])
      else (s, []))"
| "holder_step s (HOpened n lease) =
     (if n < length (rs_opening s) then
        (case acquire_commit (rs_holder s) (fst (rs_opening s ! n)) (snd (rs_opening s ! n)) lease of
           (h, effs) \<Rightarrow> (s\<lparr>rs_holder := h, rs_opening := drop_nth n (rs_opening s)\<rparr>, effs))
      else (s, []))"

fun holder_run :: "HolderSys \<Rightarrow> holder_input list \<Rightarrow> HolderSys \<times> holder_effect list" where
  "holder_run s [] = (s, [])"
| "holder_run s (i # is) =
     (case holder_step s i of (s', es) \<Rightarrow> (case holder_run s' is of (s'', fs) \<Rightarrow> (s'', es @ fs)))"

section \<open>Routing of events\<close>

definition inbound_resolver :: "Entrypoint list \<Rightarrow> State \<Rightarrow> EntrypointID \<times> string" where
  "inbound_resolver configured p =
     (case DoorbellEntrypoint configured of
        Some doorbell \<Rightarrow> (ep_id doorbell, DevAddr doorbell)
      | None \<Rightarrow>
          (case Option.bind (physical_ring p)
                  (\<lambda>ring. map_option (\<lambda>e. (ring, DevAddr e)) (find (\<lambda>e. ep_id e = ring) configured)) of
             Some r \<Rightarrow> r
           | None \<Rightarrow>
               (case configured of
                  [e] \<Rightarrow> (ep_id e, DevAddr e)
                | _ \<Rightarrow> ('''', ''''))))"

definition intercomBusy :: "State \<Rightarrow> bool" where
  "intercomBusy p \<longleftrightarrow>
     call_state p \<noteq> CallStateIdle \<or> physical_ring p \<noteq> None \<or> incoming_call p \<noteq> None \<or> active_call p \<noteq> None \<or>
     preview_stream p \<noteq> None"

text \<open>What \<^verbatim>\<open>routeRingingPreview\<close> calls around the next handler.\<close>

datatype route_action = PromoteFirst | ApplyEvent event | StopAfter

definition routeRingingPreview :: "event \<Rightarrow> route_action list" where
  "routeRingingPreview e =
     (case e of CallAnswered _ \<Rightarrow> [PromoteFirst] | _ \<Rightarrow> []) @ [ApplyEvent e] @
     (case e of IncomingCallEnded _ _ \<Rightarrow> [StopAfter] | CallDeclined _ \<Rightarrow> [StopAfter] | CallHungUp _ \<Rightarrow> [StopAfter] | _ \<Rightarrow> [])"

text \<open>
  \<^verbatim>\<open>newEventApplier\<close>: the projector it leaves, and the effects behind it. Every error of the projector wraps
  \<^verbatim>\<open>ErrInvalidTransition\<close>, so the early return is never taken and the clients are told of the unchanged state too.
\<close>

datatype applier_effect = HomeKitSync State | BroadcastState State | BroadcastEvent event

definition event_applier :: "State \<Rightarrow> event \<Rightarrow> State \<times> applier_effect list" where
  "event_applier p e =
     (let p' = fst (Projector_Apply p e) in (p', [HomeKitSync p', BroadcastState p', BroadcastEvent e]))"

definition media_stream_id :: "nat \<Rightarrow> string" where
  "media_stream_id lease = ''media-'' @ fmt_nat lease"

text \<open>\<^verbatim>\<open>newStreamStateObserver\<close>: the event a snapshot of the stream makes, given the projector when it is observed.\<close>

definition stream_observation :: "State \<Rightarrow> StreamSnapshot \<Rightarrow> event option" where
  "stream_observation p snapshot =
     (case Owner snapshot of
        StreamOwnerCompanion \<Rightarrow> Some (PreviewStarted (media_stream_id (sn_LeaseID snapshot)) (sn_EntrypointID snapshot))
      | StreamOwnerIdle \<Rightarrow>
          (case preview_stream p of
             Some s \<Rightarrow> if has_prefix (ps_stream s) ''media-'' then Some (PreviewStopped (ps_stream s)) else None
           | None \<Rightarrow> None)
      | StreamOwnerExternal \<Rightarrow> None)"

definition observe_stream :: "State \<Rightarrow> StreamSnapshot \<Rightarrow> State" where
  "observe_stream p snapshot = (case stream_observation p snapshot of None \<Rightarrow> p | Some e \<Rightarrow> fst (event_applier p e))"

datatype voicemail_reading = VoicemailRead bool | VoicemailNotThere | VoicemailReadFailed

text \<open>\<^verbatim>\<open>newVoicemailRefresher\<close>: the state, and what it returns; \<open>None\<close> is the error.\<close>

definition voicemail_refresh :: "State \<Rightarrow> voicemail_reading \<Rightarrow> State \<times> bool option" where
  "voicemail_refresh p reading =
     (case reading of
        VoicemailReadFailed \<Rightarrow> (p, None)
      | VoicemailNotThere \<Rightarrow>
          (if voicemail p \<noteq> None then fst (event_applier p VoicemailUnavailable) else p, Some False)
      | VoicemailRead enabled \<Rightarrow>
          if voicemail p = Some enabled then (p, Some True)
          else (fst (event_applier p (if enabled then VoicemailEnabled else VoicemailDisabled)), Some True))"


section \<open>The watch never loses a waiter\<close>

fun frame_times :: "watch_input list \<Rightarrow> time list" where
  "frame_times [] = []"
| "frame_times (WFrame now _ # is) = now # frame_times is"
| "frame_times (_ # is) = frame_times is"

text \<open>The channel in use is closed exactly when the intercom's stream was seen, and later channels do not exist yet.\<close>

definition watch_wf :: "ringVideoWatch \<Rightarrow> bool" where
  "watch_wf w \<longleftrightarrow>
     (rw_closed w (streamUp w) \<longleftrightarrow> intercomStream (timeline w) \<noteq> 0) \<and> (\<forall>ch > streamUp w. \<not> rw_closed w ch)"

text \<open>How a step may change what a waiter relies on.\<close>

definition watch_keeps :: "ringVideoWatch \<Rightarrow> ringVideoWatch \<Rightarrow> bool" where
  "watch_keeps w w' \<longleftrightarrow>
     streamUp w \<le> streamUp w' \<and> (\<forall>ch \<le> streamUp w. rw_closed w ch \<longrightarrow> rw_closed w' ch) \<and>
     (streamUp w' \<noteq> streamUp w \<longrightarrow> rw_closed w' (streamUp w))"

lemma watch_keeps_refl [simp]: "watch_keeps w w"
  by (simp add: watch_keeps_def)

lemma watch_keeps_trans: "watch_keeps w w' \<Longrightarrow> watch_keeps w' w'' \<Longrightarrow> watch_keeps w w''"
  unfolding watch_keeps_def by (metis le_trans order_refl)

lemma reportLocked_same:
  "rw_closed (reportLocked w) = rw_closed w" "streamUp (reportLocked w) = streamUp w" "ringAt (reportLocked w) = ringAt w"
  "intercomStream (timeline (reportLocked w)) = intercomStream (timeline w)"
  by (simp_all add: reportLocked_def)

lemma startRing_wf: "watch_wf w \<Longrightarrow> watch_wf (startRing w now) \<and> watch_keeps w (startRing w now)"
  by (auto simp: startRing_def watch_wf_def watch_keeps_def Let_def reportLocked_same no_timeline_def)

lemma watch_record_same:
  assumes "\<And>t d. intercomStream (update t d) = intercomStream t"
  shows "rw_closed (watch_record w now update) = rw_closed w" "streamUp (watch_record w now update) = streamUp w"
    "ringAt (watch_record w now update) = ringAt w"
    "intercomStream (timeline (watch_record w now update)) = intercomStream (timeline w)"
  using assms by (simp_all add: watch_record_def Let_def reportLocked_same)

lemma notes_same:
  "intercomStream (note_request r t d) = intercomStream t" "intercomStream (note_started f t d) = intercomStream t"
  "intercomStream (note_packet t d) = intercomStream t"
  by (simp_all add: note_request_def note_started_def note_packet_def)

lemma watch_same:
  "rw_closed w' = rw_closed w \<Longrightarrow> streamUp w' = streamUp w \<Longrightarrow>
   intercomStream (timeline w') = intercomStream (timeline w) \<Longrightarrow> watch_wf w \<Longrightarrow> watch_wf w' \<and> watch_keeps w w'"
  by (simp add: watch_wf_def watch_keeps_def)

lemma observeFrame_ok:
  assumes "watch_wf w" and "ringAt w < now" and "0 \<le> ringAt w"
  shows "\<exists>w'. watch_observeFrame w now frame = Some w' \<and> watch_wf w' \<and> watch_keeps w w' \<and> ringAt w' \<in> {ringAt w, now} \<and>
           (IsIntercomStreamStart frame \<and> \<not> IsRingStart frame \<and> \<not> IsAVActivation frame \<and> \<not> IsAVParameters frame \<and>
            ringAt w \<noteq> 0 \<longrightarrow> rw_closed w' (streamUp w))"
proof -
  have d: "time_sub now (ringAt w) \<noteq> 0" using assms(2) time_sub_gt_iff [of 0 now "ringAt w"] by simp
  show ?thesis
  proof (cases "IsRingStart frame")
    case True
    then show ?thesis using assms(1) startRing_wf [OF assms(1), of now]
      by (auto simp: watch_observeFrame_def startRing_def Let_def reportLocked_same)
  next
    case False
    show ?thesis
    proof (cases "IsIntercomStreamStart frame \<and> \<not> IsAVActivation frame \<and> \<not> IsAVParameters frame \<and> ringAt w \<noteq> 0")
      case True
      then show ?thesis using assms(1) False d
        by (auto simp: watch_observeFrame_def watch_wf_def watch_keeps_def is_zero_time_def Let_def)
    next
      case nostream: False
      have "\<exists>w'. watch_observeFrame w now frame = Some w' \<and> rw_closed w' = rw_closed w \<and> streamUp w' = streamUp w \<and>
              ringAt w' = ringAt w \<and> intercomStream (timeline w') = intercomStream (timeline w)"
        using False nostream by (auto simp: watch_observeFrame_def is_zero_time_def Let_def)
      then show ?thesis using watch_same [OF _ _ _ assms(1)] nostream by blast
    qed
  qed
qed

lemma watch_step_ok:
  assumes "watch_wf w" and "0 \<le> ringAt w" and "\<And>now frame. i = WFrame now frame \<Longrightarrow> ringAt w < now"
  shows "\<exists>w'. watch_step w i = Some w' \<and> watch_wf w' \<and> watch_keeps w w' \<and>
           ringAt w' \<in> insert (ringAt w) (set (frame_times [i]))"
proof (cases i)
  case (WFrame now frame)
  with observeFrame_ok [OF assms(1) assms(3) assms(2)] show ?thesis by fastforce
next
  case (WWindow g)
  then show ?thesis using watch_same [OF _ _ _ assms(1), of "reportLocked w"] assms(1)
    by (auto simp: window_elapsed_def reportLocked_same)
next
  case (WRequest now r)
  then show ?thesis using watch_same [OF _ _ _ assms(1), of "watch_record w now (note_request r)"]
    by (simp add: ring_StartVideo_def watch_record_same notes_same)
next
  case (WStarted now f)
  then show ?thesis using watch_same [OF _ _ _ assms(1), of "watch_record w now (note_started f)"]
    by (simp add: watch_record_same notes_same)
next
  case (WPacket now)
  then show ?thesis using watch_same [OF _ _ _ assms(1), of "watch_record w now note_packet"]
    by (simp add: watch_record_same notes_same)
qed

lemma frame_times_append: "frame_times (is @ js) = frame_times is @ frame_times js"
  by (induction "is" rule: frame_times.induct) auto

lemma watch_run_ok:
  assumes "watch_wf w" and "0 \<le> ringAt w" and "sorted_wrt (<) (ringAt w # frame_times is)"
  shows "\<exists>w'. watch_run w is = Some w' \<and> watch_wf w' \<and> watch_keeps w w' \<and> ringAt w' \<in> insert (ringAt w) (set (frame_times is))"
  using assms
proof (induction "is" arbitrary: w)
  case (Cons i "is")
  have "\<And>now frame. i = WFrame now frame \<Longrightarrow> ringAt w < now" using Cons.prems(3) by simp
  with watch_step_ok [OF Cons.prems(1,2), of i] obtain w1 where
    w1: "watch_step w i = Some w1" "watch_wf w1" "watch_keeps w w1" "ringAt w1 \<in> insert (ringAt w) (set (frame_times [i]))"
    by blast
  have t: "frame_times (i # is) = frame_times [i] @ frame_times is" using frame_times_append [of "[i]" "is"] by simp
  have s1: "sorted_wrt (<) (ringAt w1 # frame_times is)"
    using Cons.prems(3) w1(4) unfolding t by (auto simp: sorted_wrt_append)
  have "ringAt w1 = ringAt w \<or> ringAt w < ringAt w1" using Cons.prems(3) w1(4) unfolding t by auto
  then have "0 \<le> ringAt w1" using Cons.prems(2) by linarith
  from Cons.IH [OF w1(2) this s1] obtain w' where w': "watch_run w1 is = Some w'" "watch_wf w'" "watch_keeps w1 w'"
    "ringAt w' \<in> insert (ringAt w1) (set (frame_times is))" by blast
  have "watch_run w (i # is) = Some w'" using w1(1) w'(1) by simp
  moreover have "ringAt w' \<in> insert (ringAt w) (set (frame_times (i # is)))" using w1(4) w'(4) unfolding t by auto
  ultimately show ?case using w'(2) watch_keeps_trans [OF w1(3) w'(3)] by blast
qed simp

lemma newRingVideoWatch_wf: "watch_wf newRingVideoWatch"
  by (simp add: watch_wf_def newRingVideoWatch_def no_timeline_def)

section \<open>The holder's balance\<close>

fun acquired_of :: "holder_effect \<Rightarrow> StreamLease list" where
  "acquired_of (Acquired l) = [l]" | "acquired_of _ = []"
fun left_of :: "holder_effect \<Rightarrow> StreamLease list" where
  "left_of (Left l) = [l]" | "left_of _ = []"
fun started_of :: "holder_effect \<Rightarrow> nat list" where
  "started_of (ClipStarted c) = [c]" | "started_of _ = []"
fun closed_of :: "holder_effect \<Rightarrow> nat list" where
  "closed_of (ClipClosed c) = [c]" | "closed_of _ = []"

definition tally :: "('e \<Rightarrow> 'a list) \<Rightarrow> 'e list \<Rightarrow> 'a multiset" where
  "tally f effs = mset (concat (map f effs))"

definition held_leases :: "HolderSys \<Rightarrow> StreamLease multiset" where
  "held_leases s = mset (case rh_lease (rs_holder s) of Some l \<Rightarrow> [l] | None \<Rightarrow> [])"

definition open_clips :: "HolderSys \<Rightarrow> nat multiset" where
  "open_clips s = mset (case rh_clip (rs_holder s) of Some c \<Rightarrow> [c] | None \<Rightarrow> []) + mset (map snd (rs_opening s))"


lemma tally_simps [simp]: "tally f [] = {#}" "tally f (e # effs) = mset (f e) + tally f effs" "tally f (as @ bs) = tally f as + tally f bs"
  by (simp_all add: tally_def)

lemma mset_drop_nth: "n < length xs \<Longrightarrow> mset xs = add_mset (xs ! n) (mset (drop_nth n xs))"
  by (metis append_take_drop_id Cons_nth_drop_Suc drop_nth_def mset_append mset.simps(2) union_mset_add_mset_right)

lemma map_drop_nth: "map f (drop_nth n xs) = drop_nth n (map f xs)"
  by (simp add: drop_nth_def take_map drop_map)

text \<open>
  Goroutines carry generations that are not ahead of the holder's, and none of them has the current one while a lease is held;
  the holder has a clip exactly when it has a lease.
\<close>

definition generations :: "HolderSys \<Rightarrow> nat list" where
  "generations s = map fst (rs_spawned s) @ map fst (rs_opening s)"

definition holder_wf :: "HolderSys \<Rightarrow> bool" where
  "holder_wf s \<longleftrightarrow>
     (\<forall>g \<in> set (generations s). g \<le> rh_generation (rs_holder s)) \<and> distinct (generations s) \<and>
     (rh_lease (rs_holder s) \<noteq> None \<longrightarrow> rh_generation (rs_holder s) \<notin> set (generations s)) \<and>
     (rh_lease (rs_holder s) = None \<longleftrightarrow> rh_clip (rs_holder s) = None)"

lemma generations_holder [simp]: "generations (s\<lparr>rs_holder := h\<rparr>) = generations s"
  by (simp add: generations_def)

lemma bump_wf:
  assumes "holder_wf s" and "bump (rs_holder s) = (h, effs)"
  shows "holder_wf (s\<lparr>rs_holder := h\<rparr>)"
    and "rh_generation h = rh_generation (rs_holder s) + 1" and "rh_lease h = None" and "rh_clip h = None"
    and "tally acquired_of effs = {#}" and "tally left_of effs = held_leases s"
    and "tally started_of effs = {#}"
    and "tally closed_of effs = mset (case rh_clip (rs_holder s) of Some c \<Rightarrow> [c] | None \<Rightarrow> [])"
  using assms by (auto simp: bump_def holder_wf_def held_leases_def tally_def le_SucI split: option.splits)

text \<open>One step: the leases acquired and the clips started are those left, closed or still held.\<close>

definition balanced :: "HolderSys \<Rightarrow> holder_effect list \<Rightarrow> HolderSys \<Rightarrow> bool" where
  "balanced s effs s' \<longleftrightarrow>
     held_leases s + tally acquired_of effs = held_leases s' + tally left_of effs \<and>
     open_clips s + tally started_of effs = open_clips s' + tally closed_of effs"

lemma balanced_refl [simp]: "balanced s [] s"
  by (simp add: balanced_def)

lemma carry_over:
  fixes a :: "'a :: cancel_comm_monoid_add"
  assumes "a + p = b + q" and "b + p' = c + q'"
  shows "a + (p + p') = c + (q + q')"
proof -
  have "a + (p + p') = (b + q) + p'" using assms(1) by (simp add: add.assoc [symmetric])
  also have "\<dots> = (b + p') + q" by (simp add: ac_simps)
  finally show ?thesis using assms(2) by (simp add: ac_simps)
qed

lemma balanced_append: "balanced s e1 s1 \<Longrightarrow> balanced s1 e2 s2 \<Longrightarrow> balanced s (e1 @ e2) s2"
  unfolding balanced_def tally_simps by (blast intro: carry_over)

lemma release_ok:
  assumes "holder_wf s" and "holder_release s = (s', effs)"
  shows "holder_wf s' \<and> balanced s effs s'"
proof -
  obtain h where b: "bump (rs_holder s) = (h, effs)" and s': "s' = s\<lparr>rs_holder := h\<rparr>"
    using assms(2) by (auto simp: holder_release_def split: prod.splits)
  note w = bump_wf [OF assms(1) b]
  show ?thesis using w s' by (simp add: balanced_def held_leases_def open_clips_def)
qed

lemma hold_ok:
  assumes "holder_wf s" and "holder_hold s es i = (s', effs)"
  shows "holder_wf s' \<and> balanced s effs s'"
proof -
  obtain h where b: "bump (rs_holder s) = (h, effs)"
    and s': "s' = s\<lparr>rs_holder := h\<rparr> \<or> (\<exists>e. s' = s\<lparr>rs_holder := h, rs_spawned := rs_spawned s @ [(rh_generation h, e)]\<rparr>)"
    using assms(2) by (auto simp: holder_hold_def split: prod.splits option.splits)
  note w = bump_wf [OF assms(1) b]
  have "rh_generation h \<notin> set (generations s)" using assms(1) w(2) by (fastforce simp: holder_wf_def)
  moreover have "distinct (generations s)" "\<forall>g \<in> set (generations s). g \<le> rh_generation h"
    using assms(1) w(2) by (auto simp: holder_wf_def le_SucI)
  moreover have "rs_holder s' = h" "open_clips s' = open_clips (s\<lparr>rs_holder := h\<rparr>)"
    using s' by (auto simp: open_clips_def)
  moreover have "generations s' = generations s \<or>
    (\<exists>xs ys. generations s = xs @ ys \<and> generations s' = xs @ rh_generation h # ys)"
    using s' by (force simp: generations_def)
  ultimately have "holder_wf s'" using w(3,4) by (auto simp: holder_wf_def)
  moreover have "balanced s effs s'"
    using \<open>rs_holder s' = h\<close> \<open>open_clips s' = open_clips (s\<lparr>rs_holder := h\<rparr>)\<close> w(3-8)
    by (simp add: balanced_def held_leases_def open_clips_def)
  ultimately show ?thesis by simp
qed

lemma opening_dropped:
  assumes "n < length (rs_opening s)"
  shows "mset (generations s) = add_mset (fst (rs_opening s ! n)) (mset (generations (s\<lparr>rs_opening := drop_nth n (rs_opening s)\<rparr>)))"
    and "mset (map snd (rs_opening s)) = add_mset (snd (rs_opening s ! n)) (mset (map snd (drop_nth n (rs_opening s))))"
  using mset_drop_nth [of n "map fst (rs_opening s)"] mset_drop_nth [of n "map snd (rs_opening s)"] assms
  by (simp_all add: generations_def map_drop_nth)

lemma opening_dropped_set:
  "n < length (rs_opening s) \<Longrightarrow> set (generations (s\<lparr>rs_opening := drop_nth n (rs_opening s)\<rparr>)) \<subseteq> set (generations s)"
  using opening_dropped(1) [of n s] by (metis set_mset_add_mset_insert set_mset_mset subset_insertI)

lemma clip_generations:
  assumes "n < length (rs_spawned s)"
  shows "mset (generations (s\<lparr>rs_spawned := drop_nth n (rs_spawned s),
                              rs_opening := rs_opening s @ [(fst (rs_spawned s ! n), clip)]\<rparr>)) = mset (generations s)"
  using mset_drop_nth [of n "map fst (rs_spawned s)"] assms by (simp add: generations_def map_drop_nth)

lemma fewer_goroutines:
  assumes "holder_wf s" and "mset (generations s) = add_mset g (mset (generations s'))" and "rs_holder s' = rs_holder s"
  shows "holder_wf s'" and "g \<notin> set (generations s')" and "g \<le> rh_generation (rs_holder s)"
    and "rh_generation (rs_holder s) = g \<Longrightarrow> rh_lease (rs_holder s) = None"
proof -
  have d: "distinct (g # generations s')" using assms(1,2) by (metis holder_wf_def mset.simps(2) mset_eq_imp_distinct_iff)
  then show "g \<notin> set (generations s')" by simp
  have "set (generations s) = insert g (set (generations s'))" using assms(2) by (metis set_mset_add_mset_insert set_mset_mset)
  then show "holder_wf s'" and "g \<le> rh_generation (rs_holder s)"
    and "rh_generation (rs_holder s) = g \<Longrightarrow> rh_lease (rs_holder s) = None"
    using assms(1,3) d by (auto simp: holder_wf_def)
qed


lemma opened_ok:
  assumes "holder_wf s" and "n < length (rs_opening s)"
    and "acquire_commit (rs_holder s) (fst (rs_opening s ! n)) (snd (rs_opening s ! n)) lease = (h, effs)"
  shows "holder_wf (s\<lparr>rs_holder := h, rs_opening := drop_nth n (rs_opening s)\<rparr>) \<and>
         balanced s effs (s\<lparr>rs_holder := h, rs_opening := drop_nth n (rs_opening s)\<rparr>)"
proof -
  let ?g = "fst (rs_opening s ! n)" and ?c = "snd (rs_opening s ! n)"
  let ?t = "s\<lparr>rs_opening := drop_nth n (rs_opening s)\<rparr>"
  note o = opening_dropped [OF assms(2)]
  have h: "rs_holder ?t = rs_holder s" by simp
  note f = fewer_goroutines [OF assms(1) o(1) h]
  have t: "?t\<lparr>rs_holder := h\<rparr> = s\<lparr>rs_holder := h, rs_opening := drop_nth n (rs_opening s)\<rparr>" by simp
  show ?thesis
  proof (cases "rh_generation (rs_holder s) = ?g")
    case True
    then have e: "h = (rs_holder s)\<lparr>rh_lease := Some lease, rh_clip := Some ?c\<rparr>" "effs = [Acquired lease]"
      using assms(3) by (simp_all add: acquire_commit_def)
    have l: "rh_lease (rs_holder s) = None" "rh_clip (rs_holder s) = None"
      using f(4) True assms(1) by (auto simp: holder_wf_def)
    have "holder_wf (?t\<lparr>rs_holder := h\<rparr>)" using f(1,2) True e(1) by (simp add: holder_wf_def)
    moreover have "balanced s effs (?t\<lparr>rs_holder := h\<rparr>)"
      using e l o(2) by (simp add: balanced_def held_leases_def open_clips_def)
    ultimately show ?thesis unfolding t by simp
  next
    case False
    then have e: "h = rs_holder s" "effs = [Acquired lease, ClipClosed ?c, Left lease]"
      using assms(3) by (simp_all add: acquire_commit_def)
    have "?t\<lparr>rs_holder := h\<rparr> = ?t" using e(1) by simp
    moreover have "balanced s effs ?t" using e o(2) by (simp add: balanced_def held_leases_def open_clips_def)
    ultimately show ?thesis using f(1) t by simp
  qed
qed

lemma holder_step_ok:
  assumes "holder_wf s" and "holder_step s i = (s', effs)"
  shows "holder_wf s' \<and> balanced s effs s'"
proof (cases i)
  case (HEvent e es)
  then show ?thesis using assms release_ok [OF assms(1)] hold_ok [OF assms(1)] by (cases e) auto
next
  case (HClip n clip)
  show ?thesis
  proof (cases "n < length (rs_spawned s)")
    case True
    let ?g = "fst (rs_spawned s ! n)"
    let ?t = "s\<lparr>rs_spawned := drop_nth n (rs_spawned s), rs_opening := rs_opening s @ [(?g, clip)]\<rparr>"
    have "mset (generations ?t) = mset (generations s)" by (rule clip_generations [OF True])
    then have "set (generations ?t) = set (generations s)" "distinct (generations ?t) = distinct (generations s)"
      by (metis set_mset_mset, metis mset_eq_imp_distinct_iff)
    then have "holder_wf ?t" using assms(1) by (auto simp: holder_wf_def)
    then show ?thesis using assms(2) HClip True by (auto simp: balanced_def held_leases_def open_clips_def)
  qed (use assms HClip in simp)
next
  case (HFailed n)
  show ?thesis
  proof (cases "n < length (rs_opening s)")
    case True
    note o = opening_dropped [OF True]
    have "holder_wf (s\<lparr>rs_opening := drop_nth n (rs_opening s)\<rparr>)" by (rule fewer_goroutines(1) [OF assms(1) o(1)]) simp
    then show ?thesis using assms(2) HFailed True o(2) by (auto simp: balanced_def held_leases_def open_clips_def)
  qed (use assms HFailed in simp)
next
  case (HOpened n lease)
  then show ?thesis using assms opened_ok [OF assms(1), of n lease] by (auto split: prod.splits if_splits)
qed

lemma holder_run_ok:
  assumes "holder_wf s" and "holder_run s is = (s', effs)"
  shows "holder_wf s' \<and> balanced s effs s'"
  using assms
proof (induction "is" arbitrary: s effs)
  case (Cons i "is")
  obtain s1 e1 where st: "holder_step s i = (s1, e1)" by fastforce
  obtain e2 where r: "holder_run s1 is = (s', e2)" and e: "effs = e1 @ e2"
    using Cons.prems(2) st by (auto split: prod.splits)
  have 1: "holder_wf s1" "balanced s e1 s1" using holder_step_ok [OF Cons.prems(1) st] by simp_all
  have 2: "holder_wf s'" "balanced s1 e2 s'" using Cons.IH [OF 1(1) r] by simp_all
  show ?case using 2(1) balanced_append [OF 1(2) 2(2)] e by simp
qed simp

fun ends_ring :: "holder_input \<Rightarrow> bool" where
  "ends_ring (HEvent (CallAnswered _) _) = True"
| "ends_ring (HEvent (IncomingCallEnded _ _) _) = True"
| "ends_ring (HEvent (CallDeclined _) _) = True"
| "ends_ring (HEvent (CallHungUp _) _) = True"
| "ends_ring _ = False"

fun starts_ring :: "holder_input \<Rightarrow> bool" where
  "starts_ring (HEvent (IncomingCallStarted _ _) _) = True"
| "starts_ring _ = False"

text \<open>Between the end of a ring and the next one every goroutine is of an older generation.\<close>

definition ring_over :: "HolderSys \<Rightarrow> bool" where
  "ring_over s \<longleftrightarrow> rh_lease (rs_holder s) = None \<and> (\<forall>g \<in> set (generations s). g < rh_generation (rs_holder s))"


lemma ring_over_fewer:
  "ring_over s \<Longrightarrow> set (generations s') \<subseteq> set (generations s) \<Longrightarrow> rs_holder s' = rs_holder s \<Longrightarrow> ring_over s'"
  by (auto simp: ring_over_def)

lemma ring_over_step:
  assumes "ring_over s" and "\<not> starts_ring i" and "holder_step s i = (s', effs)"
  shows "ring_over s'"
proof (cases i)
  case (HEvent e es)
  then show ?thesis using assms
    by (cases e) (auto simp: ring_over_def holder_release_def bump_def less_SucI)
next
  case (HClip n clip)
  show ?thesis
  proof (cases "n < length (rs_spawned s)")
    case True
    then show ?thesis
      using assms(3) HClip ring_over_fewer [OF assms(1), of s'] mset_eq_setD [OF clip_generations [OF True, of clip]] by auto
  qed (use assms HClip in simp)
next
  case (HFailed n)
  show ?thesis
  proof (cases "n < length (rs_opening s)")
    case True
    then show ?thesis using assms(3) HFailed ring_over_fewer [OF assms(1), of s'] opening_dropped_set [OF True] by auto
  qed (use assms HFailed in simp)
next
  case (HOpened n lease)
  show ?thesis
  proof (cases "n < length (rs_opening s)")
    case True
    have "fst (rs_opening s ! n) \<in> set (generations s)" using opening_dropped(1) [OF True] by (metis set_mset_mset union_single_eq_member)
    then have "rh_generation (rs_holder s) \<noteq> fst (rs_opening s ! n)" using assms(1) by (auto simp: ring_over_def)
    then have "s' = s\<lparr>rs_opening := drop_nth n (rs_opening s)\<rparr>"
      using assms(3) HOpened True by (auto simp: acquire_commit_def)
    then show ?thesis using ring_over_fewer [OF assms(1), of s'] opening_dropped_set [OF True] by auto
  qed (use assms HOpened in simp)
qed

lemma ring_over_run:
  "ring_over s \<Longrightarrow> list_all (\<lambda>i. \<not> starts_ring i) is \<Longrightarrow> ring_over (fst (holder_run s is))"
proof (induction "is" arbitrary: s)
  case (Cons i "is")
  obtain s' e where st: "holder_step s i = (s', e)" by fastforce
  with Cons.IH [of s'] ring_over_step [OF Cons.prems(1) _ st] Cons.prems(2) show ?case by (simp add: case_prod_beta)
qed simp

lemma ends_ring_over:
  assumes "holder_wf s" and "ends_ring i" and "holder_step s i = (s', effs)"
  shows "ring_over s'"
proof -
  have "holder_release s = (s', effs)" using assms(2,3) by (cases i rule: ends_ring.cases) auto
  then show ?thesis using assms(1)
    by (auto simp: ring_over_def holder_release_def bump_def holder_wf_def less_Suc_eq_le)
qed

lemma holder_run_append:
  "holder_run s (is @ js) =
     (case holder_run s is of (s1, e1) \<Rightarrow> (case holder_run s1 js of (s2, e2) \<Rightarrow> (s2, e1 @ e2)))"
  by (induction "is" arbitrary: s) (auto split: prod.splits)

lemma newHolderSys_wf: "holder_wf newHolderSys"
  by (simp add: holder_wf_def newHolderSys_def generations_def)

section \<open>Properties\<close>

text \<open>
  C27. The ring holder gives back what it takes. However rings, answers and ends of rings interleave with acquires that finish
  late or fail: the streams it acquired are exactly the ones it left and the one it holds, the clips it started are
  exactly the ones it closed, the one it records and those whose acquire still runs; and from the end of a ring to the next
  ring it holds no stream, even when an acquire of that ring completes afterwards.
\<close>

theorem ring_holder_gives_back:
  assumes "holder_run newHolderSys is = (s, effs)"
  shows "tally acquired_of effs = tally left_of effs + held_leases s \<and>
         tally started_of effs = tally closed_of effs + open_clips s \<and>
         (\<forall>before e after. is = before @ e # after \<and> ends_ring e \<and> list_all (\<lambda>i. \<not> starts_ring i) after \<longrightarrow>
            rh_lease (rs_holder s) = None \<and> rh_clip (rs_holder s) = None)"
proof -
  from holder_run_ok [OF newHolderSys_wf assms] have w: "holder_wf s" and b: "balanced newHolderSys effs s" by simp_all
  have "rh_lease (rs_holder s) = None"
    if h: "is = before @ e # after" "ends_ring e" "list_all (\<lambda>i. \<not> starts_ring i) after" for before e after
  proof -
    obtain s1 e1 where r1: "holder_run newHolderSys before = (s1, e1)" by fastforce
    obtain s2 e2 where r2: "holder_step s1 e = (s2, e2)" by fastforce
    have "holder_wf s1" using holder_run_ok [OF newHolderSys_wf r1] by simp
    from ring_over_run [OF ends_ring_over [OF this h(2) r2] h(3)]
    have "ring_over (fst (holder_run s2 after))" .
    moreover have "s = fst (holder_run s2 after)"
      using assms r1 r2 h(1) by (auto simp: holder_run_append split: prod.splits)
    ultimately show ?thesis by (simp add: ring_over_def)
  qed
  moreover have "tally acquired_of effs = tally left_of effs + held_leases s \<and> tally started_of effs = tally closed_of effs + open_clips s"
    using b by (simp add: balanced_def newHolderSys_def held_leases_def open_clips_def ac_simps)
  ultimately show ?thesis using w by (auto simp: holder_wf_def)
qed

text \<open>
  C28. A video request that waits for the intercom's own stream hears of it. As long as the clock moves between frames, the
  watch never panics, and a request that took the channel at any time, even before the ring or during the ring before,
  is released by the next stream of the intercom.
\<close>

theorem ring_request_hears_stream:
  assumes "sorted_wrt (<) (0 # frame_times (is @ js @ [WFrame now frame]))"
  shows "\<exists>w0 w1 w2. watch_run newRingVideoWatch is = Some w0 \<and> watch_run w0 js = Some w1 \<and>
           watch_step w1 (WFrame now frame) = Some w2 \<and>
           (IsIntercomStreamStart frame \<and> \<not> IsRingStart frame \<and> \<not> IsAVActivation frame \<and> \<not> IsAVParameters frame \<and>
            ringAt w1 \<noteq> 0 \<longrightarrow> waitIntercomStream w0 w2 False False = [''intercom_stream''])"
proof -
  have n: "ringAt newRingVideoWatch = 0" by (simp add: newRingVideoWatch_def)
  have s: "sorted_wrt (<) (0 # frame_times is)" using assms by (auto simp: frame_times_append sorted_wrt_append)
  obtain w0 where w0: "watch_run newRingVideoWatch is = Some w0" "watch_wf w0" "ringAt w0 \<in> insert 0 (set (frame_times is))"
    using watch_run_ok [OF newRingVideoWatch_wf] s by (auto simp: n)
  have p0: "0 \<le> ringAt w0" and s0: "sorted_wrt (<) (ringAt w0 # frame_times js @ [now])"
    using assms w0(3) by (auto simp: frame_times_append sorted_wrt_append less_imp_le)
  obtain w1 where w1: "watch_run w0 js = Some w1" "watch_wf w1" "watch_keeps w0 w1" "ringAt w1 \<in> insert (ringAt w0) (set (frame_times js))"
    using watch_run_ok [OF w0(2) p0, of js] s0 by (auto simp: sorted_wrt_append)
  have "ringAt w1 < now" "0 \<le> ringAt w1" using s0 w1(4) p0 by (auto simp: sorted_wrt_append)
  from observeFrame_ok [OF w1(2) this, of frame] obtain w2 where
    w2: "watch_observeFrame w1 now frame = Some w2" "watch_keeps w1 w2"
      "IsIntercomStreamStart frame \<and> \<not> IsRingStart frame \<and> \<not> IsAVActivation frame \<and> \<not> IsAVParameters frame \<and>
       ringAt w1 \<noteq> 0 \<Longrightarrow> rw_closed w2 (streamUp w1)" by blast
  have "rw_closed w2 (streamUp w0)" if "rw_closed w2 (streamUp w1)"
    using that w1(3) w2(2) unfolding watch_keeps_def by metis
  then show ?thesis using w0(1) w1(1) w2(1,3) by (auto simp: waitIntercomStream_def Let_def)
qed


theorem ring_holder_gives_back_witness:
  "(let lease = \<lparr>ls_id = 1, ls_consumer = 1\<rparr>;
        r = holder_run newHolderSys
              [HEvent (IncomingCallStarted ''c1'' ''door'') [sample_entry], HClip 0 5, HEvent (CallDeclined ''c1'') [], HOpened 0 lease] in
    rh_lease (rs_holder (fst r)) = None \<and> tally acquired_of (snd r) = {#lease#} \<and> tally left_of (snd r) = {#lease#})"
proof -
  let ?lease = "\<lparr>ls_id = 1, ls_consumer = 1\<rparr> :: StreamLease"
  let ?before = "[HEvent (IncomingCallStarted ''c1'' ''door'') [sample_entry], HClip 0 5]"
  let ?is = "?before @ HEvent (CallDeclined ''c1'') [] # [HOpened 0 ?lease]"
  let ?r = "holder_run newHolderSys ?is"
  have a: "tally acquired_of (snd ?r) = {#?lease#}"
    by (simp add: newHolderSys_def holder_hold_def bump_def holder_entrypoint_def sample_entry_def holder_release_def
          acquire_commit_def drop_nth_def)
  note g = ring_holder_gives_back [OF surjective_pairing [of ?r]]
  have l: "rh_lease (rs_holder (fst ?r)) = None"
    using g [THEN conjunct2, THEN conjunct2, rule_format, of ?before "HEvent (CallDeclined ''c1'') []" "[HOpened 0 ?lease]"] by simp
  then have "tally left_of (snd ?r) = {#?lease#}" using g a by (simp add: held_leases_def)
  then show ?thesis using a l by (simp add: Let_def)
qed

definition ring_frame :: string where "ring_frame = ''*8*1#1#4#21*10##''"
definition stream_frame :: string where "stream_frame = ''*7*300#127#0#0#1#5002#0*##''"

lemma sample_frames:
  "IsRingStart ring_frame" "IsIntercomStreamStart stream_frame" "\<not> IsRingStart stream_frame" "\<not> IsAVActivation stream_frame"
  "\<not> IsAVParameters stream_frame"
proof -
  have t: "trim_space ring_frame = ring_frame" "trim_space stream_frame = stream_frame" "trim_space ''5002'' = ''5002''" "trim_space ''0'' = ''0''"
    unfolding ring_frame_def stream_frame_def
    by (rule trim_space_all_plain; simp add: plain_def byte_of_def)+
  have p: "stream_start_parts stream_frame = [''127'', ''0'', ''0'', ''1'', ''5002'', ''0'']"
    by (simp add: stream_start_parts_def stream_frame_def trim_prefix_def trim_suffix_def has_suffix_def)
  have "has_suffix stream_frame ''*##''" by (simp add: stream_frame_def has_suffix_def)
  then show "IsIntercomStreamStart stream_frame"
    by (simp add: IsIntercomStreamStart_def IsStreamStartVideo_def parseStreamStartChannel_def t p Let_def)
      (simp add: stream_frame_def)
  show "IsRingStart ring_frame" "\<not> IsRingStart stream_frame" "\<not> IsAVActivation stream_frame" "\<not> IsAVParameters stream_frame"
    by (simp_all add: IsRingStart_def IsAVActivation_def IsAVParameters_def t) (simp_all add: ring_frame_def stream_frame_def)
qed

theorem ring_request_hears_stream_witness:
  "\<exists>w0 w1 w2. watch_run newRingVideoWatch [] = Some w0 \<and> watch_run w0 [WFrame 10 ring_frame] = Some w1 \<and>
     watch_step w1 (WFrame 20 stream_frame) = Some w2 \<and> waitIntercomStream w0 w2 False False = [''intercom_stream'']"
proof -
  have "sorted_wrt (<) (0 # frame_times ([] @ [WFrame 10 ring_frame] @ [WFrame 20 stream_frame]))" by simp
  from ring_request_hears_stream [OF this] obtain w0 w1 w2 where
    w: "watch_run newRingVideoWatch [] = Some w0" "watch_run w0 [WFrame 10 ring_frame] = Some w1"
      "watch_step w1 (WFrame 20 stream_frame) = Some w2"
      "ringAt w1 \<noteq> 0 \<Longrightarrow> waitIntercomStream w0 w2 False False = [''intercom_stream'']"
    using sample_frames by blast
  have "ringAt w1 \<noteq> 0" using w(1,2) sample_frames(1)
    by (auto simp: watch_observeFrame_def newRingVideoWatch_def is_zero_time_def startRing_def Let_def)
  then show ?thesis using w by blast
qed

text \<open>
  When the clock reads the same for the ring and for the copies of the intercom's stream frame, the offset of the first copy
  is 0, which the timeline takes for not seen, and the second copy closes the closed channel: the process panics.
\<close>

theorem same_instant_panics:
  "watch_run newRingVideoWatch [WFrame 10 ring_frame, WFrame 10 stream_frame, WFrame 10 stream_frame] = None"
  using sample_frames
  by (simp add: watch_observeFrame_def newRingVideoWatch_def is_zero_time_def startRing_def reportLocked_def no_timeline_def
        time_sub_def Let_def)

section \<open>Observations of the stream\<close>

lemma idle_observed: "has_prefix s ''media-'' \<Longrightarrow> preview_stream (observe_stream p idle_snapshot) \<noteq> Some \<lparr>ps_stream = s, ps_entrypoint = e\<rparr>"
  by (auto simp: observe_stream_def stream_observation_def idle_snapshot_def event_applier_def Projector_Apply_def Let_def
           split: option.splits)

definition observations :: "coord_effect list \<Rightarrow> StreamSnapshot list" where
  "observations effs = concat (map (\<lambda>e. case e of ObserveState s \<Rightarrow> [s] | _ \<Rightarrow> []) effs)"

text \<open>
  The coordinator calls its observer after it released its lock, so two observations may reach the projector in the other order. A
  stream that is started and then ended leaves no preview when they come in order; in the other order the projector shows a
  preview, and the intercom as busy, although the stream is idle.
\<close>

theorem reordered_observations_leave_preview:
  "(let r = coord_run (NewCoordSys True True)
              [CReserve False True sample_entry plainMode, COpenAdd 0 sample_events, CAttach 0 sample_source None,
               CStarted 0 False 100, CEndCall, CFinish 0];
        seen = observations (snd r) in
    co_leaseID (cy_coord (fst r)) = 0 \<and>
    preview_stream (foldl observe_stream NewProjector seen) = None \<and>
    preview_stream (foldl observe_stream NewProjector (rev seen)) =
      Some \<lparr>ps_stream = media_stream_id 1, ps_entrypoint = ''door''\<rparr> \<and>
    intercomBusy (foldl observe_stream NewProjector (rev seen)))"
  by (simp add: coord_eval EndCall_begin_def observations_def observe_stream_def stream_observation_def event_applier_def
        Projector_Apply_def NewProjector_def sample_entry_def sample_events_def sample_source_def idle_snapshot_def
        media_stream_id_def intercomBusy_def Let_def)

text \<open>The entrypoint an inbound call is attributed to is a configured one, and the doorbell if there is one.\<close>

lemma inbound_resolver_configured:
  assumes "inbound_resolver es p = (i, dev)" and "i \<noteq> ''''"
  shows "\<exists>e \<in> set es. ep_id e = i \<and> DevAddr e = dev"
  using assms DoorbellEntrypoint_mem [of es]
  by (auto simp: inbound_resolver_def bind_eq_Some_conv find_Some_iff split: option.splits list.splits
           dest: nth_mem)


section \<open>The pipelines run once, the bus call ends once\<close>

datatype pipelines_input = PArm | PStart "string option" | PClose

fun pipelines_step :: "streamPipelines \<Rightarrow> pipelines_input \<Rightarrow> streamPipelines \<times> bool" where
  "pipelines_step p PArm = (pipelines_arm p, False)"
| "pipelines_step p (PStart outcome) = (case pipelines_start p outcome of (p', _, did_run) \<Rightarrow> (p', did_run))"
| "pipelines_step p PClose = (pipelines_close p, False)"

fun pipelines_runs :: "streamPipelines \<Rightarrow> pipelines_input list \<Rightarrow> nat" where
  "pipelines_runs p [] = 0"
| "pipelines_runs p (i # is) = (case pipelines_step p i of (p', did_run) \<Rightarrow> (if did_run then 1 else 0) + pipelines_runs p' is)"

lemma pipelines_runs_none:
  assumes "pl_started p \<or> pl_closed p"
  shows "pipelines_runs p is = 0"
  using assms
proof (induction "is" arbitrary: p)
  case (Cons i "is")
  from Cons.prems have "pl_started (fst (pipelines_step p i)) \<or> pl_closed (fst (pipelines_step p i))"
    and "\<not> snd (pipelines_step p i)"
    by (cases i; auto simp: pipelines_arm_def pipelines_start_def pipelines_close_def)+
  with Cons.IH show ?case by (auto split: prod.split)
qed simp

text \<open>However the 180 and the AV request race and the stream is torn down, the processes of a stream are started once at most.\<close>

lemma pipelines_run_once: "pipelines_runs p is \<le> 1"
proof (induction "is" arbitrary: p)
  case (Cons i "is")
  show ?case
  proof (cases "snd (pipelines_step p i)")
    case True
    then have "pl_started (fst (pipelines_step p i))"
      by (cases i) (auto simp: pipelines_start_def split: if_splits)
    with True pipelines_runs_none show ?thesis by (auto split: prod.split)
  next
    case False
    with Cons.IH show ?thesis by (auto split: prod.split)
  qed
qed simp

text \<open>
  The call is taken once: a second hangup finds nothing, whatever frames came in between that start no call and answer none.
\<close>

lemma bus_take_once:
  assumes "\<forall>frame\<in>set frames. ParseCallStart frame = None \<and> \<not> IsCallAnswer frame"
  shows "snd (bus_take (fold (\<lambda>frame b. bus_observeFrame b frame) frames (fst (bus_take b)))) = None"
proof -
  have "\<not> bc_open (fold (\<lambda>frame b. bus_observeFrame b frame) frames b')"
    if "\<not> bc_open b'" and "\<forall>frame\<in>set frames. ParseCallStart frame = None \<and> \<not> IsCallAnswer frame" for b'
    using that by (induction frames arbitrary: b') (auto simp: bus_observeFrame_def)
  from this [OF _ assms] show ?thesis by (simp add: bus_take_def split: if_splits)
qed

end
