(* ===== verification/Media_Session.thy ===== *)
theory Media_Session
  imports Sig_Manager Config_Model
begin

text \<open>
  The media source session (\<^verbatim>\<open>internal/media/source_session.go\<close>) and the source configuration
  (\<^verbatim>\<open>internal/media/profile.go\<close>). \<^verbatim>\<open>Start\<close> runs on a goroutine of its own while
  \<^verbatim>\<open>Close\<close>, \<^verbatim>\<open>RemoteDialogEnded\<close> and \<^verbatim>\<open>Answered\<close> come in from others, so each is cut at its
  critical sections and at its calls of the receivers, the AV client and the SIP manager; the manager is the one of
  \<^verbatim>\<open>Sig_Manager\<close>, on which the calls are executed. The results of the receivers, of the AV client and of the
  INVITE are inputs.
\<close>

section \<open>Source configuration\<close>

record SourceConfig =
  sc_Model :: string
  sc_DevAddr :: string
  sc_HighResVideo :: bool
  sc_Target :: string

datatype profile_error = ErrUnsupportedModel | ErrC100XDevAddr

record c100xModule =
  mod_ID :: string
  mod_System :: string
  mod_DeviceType :: string
  mod_addresses :: "string list"

text \<open>
  \<^verbatim>\<open>strings.ToUpper\<close> and \<^verbatim>\<open>strings.EqualFold\<close> on the letters of ASCII. No other character has an upper case
  or a fold among the letters of the constants they are compared with here.
\<close>

definition to_upper_char :: "char \<Rightarrow> char" where
  "to_upper_char c = (if 97 \<le> byte_of c \<and> byte_of c \<le> 122 then char_of (byte_of c - 32) else c)"

definition to_upper :: "string \<Rightarrow> string" where "to_upper s = map to_upper_char s"

definition equal_fold :: "string \<Rightarrow> string \<Rightarrow> bool" where
  "equal_fold s t \<longleftrightarrow> to_lower s = to_lower t"

text \<open>\<open>modules\<close> is what \<^verbatim>\<open>json.Unmarshal\<close> reads from the file; \<open>None\<close> when either fails.\<close>

definition detectC100XStreamDevAddr :: "c100xModule list option \<Rightarrow> string" where
  "detectC100XStreamDevAddr modules =
     (case modules of
        None \<Rightarrow> ''''
      | Some ms \<Rightarrow>
          (case filter (\<lambda>i. i \<noteq> '''')
                  (map (\<lambda>m. trim_space (mod_ID m))
                     (filter (\<lambda>m. equal_fold (mod_System m) ''videodoorentry'' \<and> equal_fold (mod_DeviceType m) ''EU'' \<and>
                                 (\<exists>a\<in>set (mod_addresses m). trim_space a = ''20'')) ms)) of
             [i] \<Rightarrow> i
           | _ \<Rightarrow> ''''))"

definition ResolveSourceConfig ::
  "string \<Rightarrow> c100xModule list option \<Rightarrow> Entrypoint \<Rightarrow> (profile_error, SourceConfig) result" where
  "ResolveSourceConfig model modules entrypoint =
     (let m = trim_space (to_upper model) in
      if m = ''C300X'' then
        Ok \<lparr>sc_Model = ''C300X'', sc_DevAddr = trim_space (DevAddr entrypoint), sc_HighResVideo = True,
            sc_Target = ''c300x@127.0.0.1''\<rparr>
      else if m = ''C100X'' then
        (let devAddr = detectC100XStreamDevAddr modules in
         if devAddr = '''' then Err ErrC100XDevAddr
         else Ok \<lparr>sc_Model = ''C100X'', sc_DevAddr = devAddr, sc_HighResVideo = False, sc_Target = ''c100x@127.0.0.1''\<rparr>)
      else Err ErrUnsupportedModel)"

section \<open>The session\<close>

text \<open>
  \<open>se_complete\<close> says that the SIP manager, the AV client and the receivers are given, \<open>se_cancelled\<close> that the context of
  the startup has ended, and \<open>se_onStarted\<close> that a callback is set.
\<close>

record SourceSession =
  se_config :: SourceConfig
  se_entrypoint :: EntrypointID
  se_complete :: bool
  se_started :: bool
  se_starting :: bool
  se_cancelled :: bool
  se_remoteEnded :: bool
  se_terminating :: bool
  se_ownsDialog :: bool
  se_endCallOnClose :: bool
  se_onStarted :: bool
  se_ringingPreview :: bool
  se_ringing :: bool

datatype session_error = ErrSourceSessionStarted | IncompleteSession

definition NewSourceSession :: "SourceConfig \<Rightarrow> EntrypointID \<Rightarrow> bool \<Rightarrow> SourceSession" where
  "NewSourceSession config entrypointID complete =
     \<lparr>se_config = config, se_entrypoint = entrypointID, se_complete = complete, se_started = False, se_starting = False,
      se_cancelled = False, se_remoteEnded = False, se_terminating = False, se_ownsDialog = False,
      se_endCallOnClose = False, se_onStarted = False, se_ringingPreview = False, se_ringing = False\<rparr>"

text \<open>What the session calls outside its lock.\<close>

datatype session_action = CloseReceivers | CallHangup | CallRemoteEnded

subsection \<open>Start\<close>

text \<open>\<^verbatim>\<open>Start\<close> up to its first unlock: the session, and whether this start is a ringing preview.\<close>

definition session_Start :: "SourceSession \<Rightarrow> (session_error, SourceSession \<times> bool) result" where
  "session_Start s =
     (if se_started s \<or> se_starting s then Err ErrSourceSessionStarted
      else if sc_Model (se_config s) = '''' \<or> sc_DevAddr (se_config s) = '''' \<or> se_entrypoint s = '''' \<or> \<not> se_complete s
      then Err IncompleteSession
      else Ok (s\<lparr>se_starting := True, se_cancelled := False, se_remoteEnded := False, se_terminating := False,
                 se_ownsDialog := False, se_endCallOnClose := False, se_ringing := False\<rparr>, se_ringingPreview s))"

text \<open>Where the goroutine of \<^verbatim>\<open>Start\<close> is, and its local variables.\<close>

datatype start_phase =
    AtVideo | AtAudio | AtSIP | AtPorts | AtAV | AtContext | AtRinging
  | AtFailure
  | AtCleanup "session_action list"
  | AtEnd bool

record Startup =
  su_phase :: start_phase
  su_preview :: bool
  su_video :: bool
  su_audio :: bool
  su_sip :: bool
  su_answered :: bool

definition new_startup :: "bool \<Rightarrow> Startup" where
  "new_startup preview =
     \<lparr>su_phase = AtVideo, su_preview = preview, su_video = False, su_audio = False, su_sip = False, su_answered = True\<rparr>"

text \<open>
  The part that takes the call: a preview borrows the inbound call, any other start dials. \<open>dialled\<close> is the answer to the
  INVITE.
\<close>

definition start_sip ::
  "SourceSession \<Rightarrow> Startup \<Rightarrow> Manager \<Rightarrow> nat option \<Rightarrow> SourceSession \<times> Startup \<times> Manager" where
  "start_sip s u m dialled =
     (if su_preview u then
        (case AdoptRingingCall m (se_entrypoint s) of
           Inl _ \<Rightarrow> (s, u\<lparr>su_phase := AtFailure\<rparr>, m)
         | Inr answered \<Rightarrow>
             (s\<lparr>se_ownsDialog := False\<rparr>, u\<lparr>su_phase := AtPorts, su_sip := True, su_answered := answered\<rparr>, m))
      else
        (case StartStream m dialled of
           (m', Inl _) \<Rightarrow> (s, u\<lparr>su_phase := AtFailure\<rparr>, m')
         | (m', Inr owns) \<Rightarrow> (s\<lparr>se_ownsDialog := owns\<rparr>, u\<lparr>su_phase := AtPorts, su_sip := True\<rparr>, m')))"

text \<open>The first section of the deferred function of a start that failed, and what it calls before the second.\<close>

definition start_failed :: "SourceSession \<Rightarrow> Startup \<Rightarrow> SourceSession \<times> session_action list" where
  "start_failed s u =
     (let hangup = (su_sip u \<and> se_ownsDialog s \<and> \<not> se_remoteEnded s \<and> \<not> se_terminating s);
          remoteEnded = (su_sip u \<and> se_remoteEnded s \<and> \<not> se_terminating s) in
      (if hangup then s\<lparr>se_terminating := True\<rparr> else s,
       (if hangup then [CallHangup] else []) @ (if remoteEnded then [CallRemoteEnded] else []) @
       (if su_audio u \<or> su_video u then [CloseReceivers] else [])))"

text \<open>The second section; the flag says whether the callback runs.\<close>

definition start_finished :: "SourceSession \<Rightarrow> bool \<Rightarrow> SourceSession \<times> bool" where
  "start_finished s started = (s\<lparr>se_started := started, se_starting := False\<rparr>, started \<and> se_onStarted s)"

subsection \<open>The other operations\<close>

definition SetStartedCallback :: "SourceSession \<Rightarrow> SourceSession" where "SetStartedCallback s = s\<lparr>se_onStarted := True\<rparr>"
definition EndCallOnClose :: "SourceSession \<Rightarrow> SourceSession" where "EndCallOnClose s = s\<lparr>se_endCallOnClose := True\<rparr>"
definition PrepareRingingPreview :: "SourceSession \<Rightarrow> SourceSession" where
  "PrepareRingingPreview s = s\<lparr>se_ringingPreview := True\<rparr>"
definition Answered_wanted :: "SourceSession \<Rightarrow> bool" where "Answered_wanted s \<longleftrightarrow> se_started s \<and> se_ringing s"
definition Answered_done :: "SourceSession \<Rightarrow> bool \<Rightarrow> SourceSession" where
  "Answered_done s ok = (if ok then s\<lparr>se_ringing := False\<rparr> else s)"

definition session_Close :: "SourceSession \<Rightarrow> SourceSession \<times> session_action list" where
  "session_Close s =
     (if se_starting s then (s\<lparr>se_cancelled := True\<rparr>, [])
      else if \<not> se_started s then (s, [])
      else
        let hangup = (\<not> se_remoteEnded s \<and> \<not> se_terminating s \<and> (se_ownsDialog s \<or> se_endCallOnClose s)) in
        ((if hangup then s\<lparr>se_terminating := True\<rparr> else s)\<lparr>se_started := False\<rparr>,
         CloseReceivers # (if hangup then [CallHangup] else [])))"

definition session_RemoteDialogEnded :: "SourceSession \<Rightarrow> SourceSession \<times> session_action list" where
  "session_RemoteDialogEnded s =
     (if se_starting s then (s\<lparr>se_remoteEnded := True, se_cancelled := True\<rparr>, [])
      else if \<not> se_started s then (s\<lparr>se_remoteEnded := True\<rparr>, [])
      else (s\<lparr>se_remoteEnded := True, se_started := False\<rparr>, [CallRemoteEnded, CloseReceivers]))"


section \<open>The session and the manager\<close>

text \<open>
  The session with the goroutine of its start, the tasks the other operations still have to do, the receivers that are
  open, the answers that wait for their audio, and the manager. The last four components are the history since the last start:
  whether its \<^verbatim>\<open>StartStream\<close> created a dialog, whether a consumer asked for the call to end, whether the peer ended
  it, and how many ends of the call were decided.
\<close>

record SessionSys =
  ss_session :: SourceSession
  ss_startup :: "Startup option"
  ss_tasks :: "session_action list list"
  ss_video :: bool
  ss_audio :: bool
  ss_live :: bool
  ss_joining :: nat
  ss_sig :: Signaling
  ss_created :: bool
  ss_asked :: bool
  ss_peer :: bool
  ss_ends :: nat

definition NewSessionSys :: "SourceConfig \<Rightarrow> EntrypointID \<Rightarrow> Signaling \<Rightarrow> SessionSys" where
  "NewSessionSys config entrypointID sig =
     \<lparr>ss_session = NewSourceSession config entrypointID True, ss_startup = None, ss_tasks = [], ss_video = False,
      ss_audio = False, ss_live = False, ss_joining = 0, ss_sig = sig, ss_created = False, ss_asked = False,
      ss_peer = False, ss_ends = 0\<rparr>"

definition ends_in :: "session_action list \<Rightarrow> nat" where
  "ends_in as = length (filter (\<lambda>a. a \<noteq> CloseReceivers) as)"

text \<open>One call of the session; \<open>sent\<close> is whether the BYE went out.\<close>

fun perform :: "session_action \<Rightarrow> bool \<Rightarrow> SessionSys \<Rightarrow> SessionSys" where
  "perform CloseReceivers sent c = c\<lparr>ss_video := False, ss_audio := False\<rparr>"
| "perform CallHangup sent c = c\<lparr>ss_sig := fst (sig_step (ss_sig c) (HangupActive sent))\<rparr>"
| "perform CallRemoteEnded sent c = c\<lparr>ss_sig := fst (sig_step (ss_sig c) RemoteEnded)\<rparr>"

text \<open>The inputs of the goroutine of \<^verbatim>\<open>Start\<close>: what the call it is at returns.\<close>

datatype start_input =
    ReceiverStarted bool
  | CallTaken "nat option"
  | PortsRead nat nat
  | MediaRequested bool
  | Goes bool

fun startup_step :: "SessionSys \<Rightarrow> Startup \<Rightarrow> start_phase \<Rightarrow> start_input \<Rightarrow> SessionSys" where
  "startup_step c u AtVideo (ReceiverStarted ok) =
     (if ok then c\<lparr>ss_video := True, ss_startup := Some (u\<lparr>su_phase := AtAudio, su_video := True\<rparr>)\<rparr>
      else c\<lparr>ss_startup := Some (u\<lparr>su_phase := AtFailure\<rparr>)\<rparr>)"
| "startup_step c u AtAudio (ReceiverStarted ok) =
     (if ok then c\<lparr>ss_audio := True, ss_startup := Some (u\<lparr>su_phase := AtSIP, su_audio := True\<rparr>)\<rparr>
      else c\<lparr>ss_startup := Some (u\<lparr>su_phase := AtFailure\<rparr>)\<rparr>)"
| "startup_step c u AtSIP (CallTaken dialled) =
     (case start_sip (ss_session c) u (sg_manager (ss_sig c)) dialled of
        (s, u', m) \<Rightarrow>
          c\<lparr>ss_session := s, ss_startup := Some u', ss_sig := (ss_sig c)\<lparr>sg_manager := m\<rparr>,
            ss_created := se_ownsDialog s \<and> su_sip u'\<rparr>)"
| "startup_step c u AtPorts (PortsRead videoPort audioPort) =
     c\<lparr>ss_startup := Some (u\<lparr>su_phase := (if videoPort = 0 \<or> audioPort = 0 then AtFailure else AtAV)\<rparr>)\<rparr>"
| "startup_step c u AtAV (MediaRequested ok) =
     c\<lparr>ss_startup := Some (u\<lparr>su_phase := (if ok then AtContext else AtFailure)\<rparr>)\<rparr>"
| "startup_step c u AtContext (Goes _) =
     c\<lparr>ss_startup := Some (u\<lparr>su_phase := (if se_cancelled (ss_session c) then AtFailure else AtRinging)\<rparr>)\<rparr>"
| "startup_step c u AtRinging (Goes _) =
     c\<lparr>ss_session := (ss_session c)\<lparr>se_ringing := \<not> su_answered u\<rparr>, ss_startup := Some (u\<lparr>su_phase := AtEnd True\<rparr>)\<rparr>"
| "startup_step c u AtFailure (Goes _) =
     (case start_failed (ss_session c) u of
        (s, as) \<Rightarrow>
          c\<lparr>ss_session := s, ss_startup := Some (u\<lparr>su_phase := AtCleanup as\<rparr>), ss_ends := ss_ends c + ends_in as\<rparr>)"
| "startup_step c u (AtCleanup []) (Goes _) = c\<lparr>ss_startup := Some (u\<lparr>su_phase := AtEnd False\<rparr>)\<rparr>"
| "startup_step c u (AtCleanup (a # as)) (Goes sent) =
     (perform a sent c)\<lparr>ss_startup := Some (u\<lparr>su_phase := AtCleanup as\<rparr>)\<rparr>"
| "startup_step c u (AtEnd ok) (Goes _) =
     (case start_finished (ss_session c) ok of
        (s, callback) \<Rightarrow> c\<lparr>ss_session := s, ss_startup := None, ss_live := ss_live c \<or> callback\<rparr>)"
| "startup_step c u _ _ = c"

datatype session_input =
    DoStart
  | Advance start_input
  | ContextEnds
  | DoSetStartedCallback
  | DoEndCallOnClose
  | DoPrepareRingingPreview
  | DoAnswered
  | AudioRequested bool
  | DoClose
  | PeerEnded
  | RunTask nat bool
  | CallInput sig_input

fun session_step :: "SessionSys \<Rightarrow> session_input \<Rightarrow> SessionSys" where
  "session_step c DoStart =
     (case session_Start (ss_session c) of
        Inl _ \<Rightarrow> c
      | Inr (s, preview) \<Rightarrow>
          c\<lparr>ss_session := s, ss_startup := Some (new_startup preview), ss_created := False, ss_asked := False,
            ss_peer := False, ss_ends := 0\<rparr>)"
| "session_step c (Advance i) =
     (case ss_startup c of None \<Rightarrow> c | Some u \<Rightarrow> startup_step c u (su_phase u) i)"
| "session_step c ContextEnds = c\<lparr>ss_session := (ss_session c)\<lparr>se_cancelled := True\<rparr>\<rparr>"
| "session_step c DoSetStartedCallback = c\<lparr>ss_session := SetStartedCallback (ss_session c)\<rparr>"
| "session_step c DoEndCallOnClose = c\<lparr>ss_session := EndCallOnClose (ss_session c), ss_asked := True\<rparr>"
| "session_step c DoPrepareRingingPreview = c\<lparr>ss_session := PrepareRingingPreview (ss_session c)\<rparr>"
| "session_step c DoAnswered = (if Answered_wanted (ss_session c) then c\<lparr>ss_joining := Suc (ss_joining c)\<rparr> else c)"
| "session_step c (AudioRequested ok) =
     (if 0 < ss_joining c then c\<lparr>ss_session := Answered_done (ss_session c) ok, ss_joining := ss_joining c - 1\<rparr> else c)"
| "session_step c DoClose =
     (case session_Close (ss_session c) of
        (s, as) \<Rightarrow> c\<lparr>ss_session := s, ss_tasks := ss_tasks c @ [as], ss_ends := ss_ends c + ends_in as\<rparr>)"
| "session_step c PeerEnded =
     (case session_RemoteDialogEnded (ss_session c) of
        (s, as) \<Rightarrow> c\<lparr>ss_session := s, ss_tasks := ss_tasks c @ [as], ss_ends := ss_ends c + ends_in as, ss_peer := True\<rparr>)"
| "session_step c (RunTask n sent) =
     (if n < length (ss_tasks c) then
        (case ss_tasks c ! n of
           [] \<Rightarrow> c\<lparr>ss_tasks := remove_nth n (ss_tasks c)\<rparr>
         | a # as \<Rightarrow> (perform a sent c)\<lparr>ss_tasks := (ss_tasks c)[n := as]\<rparr>)
      else c)"
| "session_step c (CallInput i) = c\<lparr>ss_sig := fst (sig_step (ss_sig c) i)\<rparr>"

text \<open>
  The states the session reaches when every input is one that \<open>allowed\<close> admits. Only the session dials, so the other
  inputs of the manager are all but \<^verbatim>\<open>StartStream\<close>.
\<close>

fun dials :: "session_input \<Rightarrow> bool" where
  "dials (CallInput (DialStream _)) = True"
| "dials _ = False"

inductive session_reach :: "(SessionSys \<Rightarrow> session_input \<Rightarrow> bool) \<Rightarrow> SessionSys \<Rightarrow> bool"
  for allowed :: "SessionSys \<Rightarrow> session_input \<Rightarrow> bool" where
  reach_new: "session_reach allowed (NewSessionSys config entrypointID (NewSignaling hungUp callEnded busDecline))"
| reach_step: "session_reach allowed c \<Longrightarrow> \<not> dials i \<Longrightarrow> allowed c i \<Longrightarrow> session_reach allowed (session_step c i)"

inductive_cases session_reachE: "session_reach allowed c"

text \<open>The peer ends the dialog after the start has checked its context and before it is marked as started.\<close>

definition late_end :: "SessionSys \<Rightarrow> session_input \<Rightarrow> bool" where
  "late_end c i \<longleftrightarrow>
     i = PeerEnded \<and> (case ss_startup c of Some u \<Rightarrow> su_phase u = AtRinging \<or> su_phase u = AtEnd True | None \<Rightarrow> False)"


section \<open>Dialled dialogs\<close>

definition holds_dialled :: "Manager \<Rightarrow> bool" where
  "holds_dialled m \<longleftrightarrow> (case mg_active m of Some (DialledDialog _) \<Rightarrow> True | _ \<Rightarrow> False)"

abbreviation dialled :: "SessionSys \<Rightarrow> bool" where
  "dialled c \<equiv> holds_dialled (sg_manager (ss_sig c))"

lemma dialled_only_by_dialling:
  assumes "holds_dialled (sg_manager (fst (sig_step s i)))" and "\<not> dials (CallInput i)"
  shows "holds_dialled (sg_manager s)"
  using assms unfolding holds_dialled_def
  by (cases i) (auto simp: operation_defs manager_defs split: if_splits option.splits prod.splits sum.splits OutgoingDialog.splits)

lemma hangup_ends:
  "\<not> holds_dialled (sg_manager (fst (sig_step s (HangupActive sent))))"
  "\<not> holds_dialled (sg_manager (fst (sig_step s RemoteEnded)))"
  by (auto simp: holds_dialled_def operation_defs manager_defs split: option.splits)

lemma StartStream_dialled:
  assumes "StartStream m x = (m', r)"
  shows "holds_dialled m' \<Longrightarrow> holds_dialled m \<or> r = Ok True"
  using assms by (auto simp: StartStream_def split: if_splits option.splits)

text \<open>An action list that will end the call, and one that will close the receivers.\<close>

definition will_end :: "session_action list \<Rightarrow> bool" where
  "will_end as \<longleftrightarrow> CallHangup \<in> set as \<or> CallRemoteEnded \<in> set as"

definition will_close :: "session_action list \<Rightarrow> bool" where
  "will_close as \<longleftrightarrow> CloseReceivers \<in> set as"

lemma will_end_Cons [simp]:
  "will_end []  \<longleftrightarrow> False" "will_end (a # as) \<longleftrightarrow> a \<noteq> CloseReceivers \<or> will_end as"
  by (cases a; auto simp: will_end_def)+

lemma will_close_Cons [simp]:
  "will_close [] \<longleftrightarrow> False" "will_close (a # as) \<longleftrightarrow> a = CloseReceivers \<or> will_close as"
  by (cases a; auto simp: will_close_def)+

lemma ends_in_simps [simp]:
  "ends_in [] = 0" "ends_in (a # as) = (if a = CloseReceivers then 0 else 1) + ends_in as"
  "ends_in (as @ bs) = ends_in as + ends_in bs"
  by (simp_all add: ends_in_def)

lemma perform_dialled: "dialled (perform a sent c) \<Longrightarrow> dialled c \<and> a = CloseReceivers"
  by (cases a) (auto simp: hangup_ends simp del: sig_step.simps)

lemma perform_receivers:
  "ss_video (perform a sent c) \<Longrightarrow> ss_video c \<and> a \<noteq> CloseReceivers"
  "ss_audio (perform a sent c) \<Longrightarrow> ss_audio c \<and> a \<noteq> CloseReceivers"
  by (cases a; auto)+

lemma perform_fields [simp]:
  "ss_session (perform a sent c) = ss_session c" "ss_startup (perform a sent c) = ss_startup c"
  "ss_tasks (perform a sent c) = ss_tasks c" "ss_created (perform a sent c) = ss_created c"
  "ss_asked (perform a sent c) = ss_asked c" "ss_peer (perform a sent c) = ss_peer c"
  "ss_ends (perform a sent c) = ss_ends c"
  by (cases a; simp)+

section \<open>Invariant\<close>

text \<open>The start has not yet decided how it ends.\<close>

fun undecided :: "start_phase \<Rightarrow> bool" where
  "undecided (AtCleanup _) = False"
| "undecided (AtEnd ok) = ok"
| "undecided _ = True"

fun before_sip :: "start_phase \<Rightarrow> bool" where
  "before_sip AtVideo = True"
| "before_sip AtAudio = True"
| "before_sip AtSIP = True"
| "before_sip _ = False"

definition startup_wf :: "SessionSys \<Rightarrow> Startup \<Rightarrow> bool" where
  "startup_wf c u \<longleftrightarrow>
     (before_sip (su_phase u) \<longrightarrow> \<not> su_sip u) \<and>
     (\<not> su_sip u \<longrightarrow> \<not> se_ownsDialog (ss_session c)) \<and>
     (undecided (su_phase u) \<longrightarrow> \<not> se_terminating (ss_session c) \<and> ss_ends c = 0)"

definition session_wf :: "SessionSys \<Rightarrow> bool" where
  "session_wf c \<longleftrightarrow>
     se_starting (ss_session c) = (ss_startup c \<noteq> None) \<and>
     ss_created c = se_ownsDialog (ss_session c) \<and>
     ss_asked c = se_endCallOnClose (ss_session c) \<and>
     ss_peer c = se_remoteEnded (ss_session c) \<and>
     ss_ends c \<le> 1 \<and>
     (se_started (ss_session c) \<longrightarrow> ss_startup c = None \<and> \<not> se_terminating (ss_session c) \<and> ss_ends c = 0) \<and>
     (\<forall>u. ss_startup c = Some u \<longrightarrow> startup_wf c u)"

lemmas session_defs =
  session_Start_def session_Close_def session_RemoteDialogEnded_def start_failed_def start_finished_def new_startup_def
  SetStartedCallback_def EndCallOnClose_def PrepareRingingPreview_def Answered_wanted_def Answered_done_def Let_def

lemma startup_step_wf:
  assumes "session_wf c" and "ss_startup c = Some u"
  shows "session_wf (startup_step c u (su_phase u) i)"
  using assms
  by (cases "(c, u, su_phase u, i)" rule: startup_step.cases)
     (auto simp: session_wf_def startup_wf_def session_defs start_sip_def StartStream_def
       split: sum.splits prod.splits option.splits if_splits)

lemma session_step_wf:
  assumes "session_wf c"
  shows "session_wf (session_step c i)"
proof (cases i)
  case (Advance j)
  then show ?thesis using assms startup_step_wf by (auto split: option.split)
next
  case DoStart
  then show ?thesis using assms by (auto simp: session_wf_def startup_wf_def session_defs split: sum.splits if_splits)
next
  case (RunTask n sent)
  then show ?thesis using assms by (auto simp: session_wf_def startup_wf_def split: list.splits)
qed (use assms in \<open>auto simp: session_wf_def startup_wf_def session_defs\<close>)


lemma session_reach_wf: "session_reach allowed c \<Longrightarrow> session_wf c"
proof (induction rule: session_reach.induct)
  case (reach_new config entrypointID hungUp callEnded busDecline)
  show ?case by (simp add: session_wf_def NewSessionSys_def NewSourceSession_def)
next
  case (reach_step c i)
  then show ?case by (simp add: session_step_wf del: session_step.simps)
qed

section \<open>Hangups\<close>

definition hangups_in :: "session_action list \<Rightarrow> nat" where
  "hangups_in as = length (filter (\<lambda>a. a = CallHangup) as)"

fun cleanup_of :: "start_phase \<Rightarrow> session_action list" where
  "cleanup_of (AtCleanup as) = as"
| "cleanup_of _ = []"

text \<open>The hangups the session has decided and not yet made.\<close>

definition hangups :: "SessionSys \<Rightarrow> nat" where
  "hangups c =
     sum_list (map hangups_in (ss_tasks c)) +
     (case ss_startup c of None \<Rightarrow> 0 | Some u \<Rightarrow> hangups_in (cleanup_of (su_phase u)))"

lemma hangups_in_simps [simp]:
  "hangups_in [] = 0" "hangups_in (a # as) = (if a = CallHangup then 1 else 0) + hangups_in as"
  "hangups_in (as @ bs) = hangups_in as + hangups_in bs"
  by (simp_all add: hangups_in_def)

lemma sum_list_update_le: "f y \<le> f (xs ! n) \<Longrightarrow> n < length xs \<Longrightarrow> sum_list (map f (xs[n := y])) \<le> (sum_list (map f xs) :: nat)"
  by (simp add: map_update sum_list_update trans_le_add1)

lemma sum_list_remove_le: "sum_list (map f (remove_nth n xs)) \<le> (sum_list (map f xs) :: nat)"
proof -
  have "sum_list (map f xs) = sum_list (map f (take n xs)) + sum_list (map f (drop n xs))"
    by (metis append_take_drop_id map_append sum_list_append)
  moreover have "sum_list (map f (drop (Suc n) xs)) \<le> sum_list (map f (drop n xs))"
    by (cases "drop n xs") (simp_all add: drop_Suc drop_tl)
  ultimately show ?thesis by (simp add: remove_nth_def)
qed

text \<open>Who may decide a hangup: a start that created the dialog, or the close of such a session or of one that was asked to.\<close>

lemma startup_hangup:
  assumes "session_wf c" and "ss_startup c = Some u"
    and "hangups (startup_step c u (su_phase u) i) > hangups c"
  shows "ss_created c \<and> \<not> ss_peer c \<and> ss_ends c = 0"
  using assms
  by (cases "(c, u, su_phase u, i)" rule: startup_step.cases)
     (auto simp: hangups_def session_wf_def startup_wf_def session_defs start_sip_def split: sum.splits prod.splits if_splits)

lemma session_hangup:
  assumes w: "session_wf c" and h: "hangups (session_step c i) > hangups c"
  shows "(ss_created c \<or> ss_asked c) \<and> \<not> ss_peer c \<and> ss_ends c = 0"
proof (cases i)
  case (Advance j)
  then show ?thesis using w h startup_hangup by (auto split: option.splits)
next
  case DoStart
  then show ?thesis using h by (auto simp: hangups_def session_defs split: sum.splits if_splits option.splits)
next
  case (RunTask n sent)
  have "hangups (session_step c i) \<le> hangups c"
    using RunTask sum_list_update_le [of hangups_in _ "ss_tasks c" n] sum_list_remove_le [of hangups_in n "ss_tasks c"]
    by (auto simp: hangups_def split: list.splits)
  then show ?thesis using h by simp
next
  case DoClose
  then show ?thesis using w h by (auto simp: hangups_def session_wf_def session_defs split: if_splits)
qed (use w h in \<open>auto simp: hangups_def session_wf_def session_defs split: if_splits\<close>)

section \<open>No dialog and no receiver is left behind\<close>

definition dialog_kept :: "SessionSys \<Rightarrow> bool" where
  "dialog_kept c \<longleftrightarrow>
     (se_started (ss_session c) \<and> se_ownsDialog (ss_session c)) \<or>
     (\<exists>u. ss_startup c = Some u \<and>
        (undecided (su_phase u) \<and> su_sip u \<and> se_ownsDialog (ss_session c) \<or> will_end (cleanup_of (su_phase u)))) \<or>
     (\<exists>as\<in>set (ss_tasks c). will_end as)"

definition receivers_kept :: "SessionSys \<Rightarrow> bool" where
  "receivers_kept c \<longleftrightarrow>
     se_started (ss_session c) \<or>
     (\<exists>u. ss_startup c = Some u \<and>
        (undecided (su_phase u) \<and> (su_video u \<or> su_audio u) \<or> will_close (cleanup_of (su_phase u)))) \<or>
     (\<exists>as\<in>set (ss_tasks c). will_close as)"

text \<open>The end by the peer is known to a start in time to fail it.\<close>

fun checked :: "start_phase \<Rightarrow> bool" where
  "checked AtRinging = True"
| "checked (AtEnd ok) = ok"
| "checked _ = False"

lemma checked_iff: "checked p \<longleftrightarrow> p = AtRinging \<or> p = AtEnd True"
  by (cases p rule: checked.cases) auto

definition end_heard :: "SessionSys \<Rightarrow> bool" where
  "end_heard c \<longleftrightarrow>
     (se_started (ss_session c) \<longrightarrow> \<not> se_remoteEnded (ss_session c)) \<and>
     (\<forall>u. ss_startup c = Some u \<and> undecided (su_phase u) \<and> se_remoteEnded (ss_session c) \<longrightarrow>
        se_cancelled (ss_session c) \<and> \<not> checked (su_phase u))"

definition session_kept :: "SessionSys \<Rightarrow> bool" where
  "session_kept c \<longleftrightarrow>
     session_wf c \<and> end_heard c \<and> (dialled c \<longrightarrow> dialog_kept c) \<and> (ss_video c \<or> ss_audio c \<longrightarrow> receivers_kept c)"

lemma set_remove_nth:
  assumes "n < length ts"
  shows "set ts = insert (ts ! n) (set (remove_nth n ts))"
proof -
  have "set ts = set (take n ts @ ts ! n # drop (Suc n) ts)" using id_take_nth_drop [OF assms] by simp
  then show ?thesis by (auto simp: remove_nth_def)
qed

lemma task_done:
  assumes "n < length ts" and "ts ! n = a # as"
  shows "(\<exists>t\<in>set ts. P t) \<Longrightarrow> (P (a # as) \<Longrightarrow> P as) \<Longrightarrow> \<exists>t\<in>set (ts[n := as]). P t"
  using assms by (metis in_set_conv_nth length_list_update nth_list_update)


lemma startup_step_heard:
  assumes "session_wf c" and "end_heard c" and "ss_startup c = Some u"
  shows "end_heard (startup_step c u (su_phase u) i)"
  using assms
  by (cases "(c, u, su_phase u, i)" rule: startup_step.cases)
     (auto simp: end_heard_def session_wf_def session_defs start_sip_def split: sum.splits prod.splits if_splits)

lemma session_step_heard:
  assumes w: "session_wf c" and e: "end_heard c" and l: "\<not> late_end c i"
  shows "end_heard (session_step c i)"
proof (cases i)
  case (Advance j)
  then show ?thesis using w e startup_step_heard by (auto split: option.split)
next
  case DoStart
  then show ?thesis using w e by (auto simp: end_heard_def session_defs split: sum.splits if_splits)
next
  case PeerEnded
  then show ?thesis using w e l
    by (cases "ss_startup c") (auto simp: end_heard_def session_wf_def session_defs late_end_def checked_iff)
qed (use e in \<open>auto simp: end_heard_def session_defs split: list.splits\<close>)

lemma startup_step_dialog:
  assumes "session_wf c" and "end_heard c" and "ss_startup c = Some u" and "dialled c \<longrightarrow> dialog_kept c"
    and "dialled (startup_step c u (su_phase u) i)"
  shows "dialog_kept (startup_step c u (su_phase u) i)"
proof (cases "su_phase u")
  case (AtCleanup as)
  show ?thesis
  proof (cases "as = [] \<or> (\<forall>b. i \<noteq> Goes b)")
    case True
    then show ?thesis using assms AtCleanup by (cases as; cases i) (auto simp: dialog_kept_def)
  next
    case False
    then obtain a bs sent where "as = a # bs" "i = Goes sent" by (auto simp: neq_Nil_conv)
    then show ?thesis using assms AtCleanup perform_dialled [of a sent c] by (auto simp: dialog_kept_def)
  qed
next
  case AtSIP
  show ?thesis
  proof (cases i)
    case (CallTaken x)
    then show ?thesis using assms AtSIP
      by (auto simp: dialog_kept_def session_wf_def startup_wf_def start_sip_def
               split: sum.splits prod.splits if_splits dest: StartStream_dialled)
  qed (use assms AtSIP in auto)
next
  case AtFailure
  then show ?thesis using assms
    by (cases i) (auto simp: dialog_kept_def session_wf_def startup_wf_def start_failed_def Let_def)
next
  case (AtEnd ok)
  then show ?thesis using assms by (cases i; cases ok) (auto simp: dialog_kept_def session_wf_def start_finished_def)
qed (use assms in \<open>cases i; auto simp: dialog_kept_def session_wf_def split: if_splits\<close>)+

lemma session_step_dialog:
  assumes w: "session_wf c" and e: "end_heard c" and d: "dialled c \<longrightarrow> dialog_kept c" and n: "\<not> dials i"
    and "dialled (session_step c i)"
  shows "dialog_kept (session_step c i)"
proof (cases i)
  case (Advance j)
  then show ?thesis using assms startup_step_dialog [OF w e] by (cases "ss_startup c") simp_all
next
  case (CallInput j)
  then have "dialled c" using assms(5) n dialled_only_by_dialling by (auto simp del: sig_step.simps)
  then show ?thesis using d CallInput by (simp add: dialog_kept_def)
next
  case (RunTask k sent)
  show ?thesis
  proof (cases "k < length (ss_tasks c)")
    case True
    show ?thesis
    proof (cases "ss_tasks c ! k")
      case Nil
      have "\<exists>t\<in>set (remove_nth k (ss_tasks c)). will_end t" if "\<exists>t\<in>set (ss_tasks c). will_end t"
        using that Nil set_remove_nth [OF True] by auto
      then show ?thesis using assms RunTask True Nil by (auto simp: dialog_kept_def)
    next
      case (Cons a as)
      with assms(5) RunTask True have "dialled c" and a: "a = CloseReceivers" using perform_dialled by fastforce+
      then show ?thesis using d RunTask True Cons task_done [OF True Cons, of will_end] by (auto simp: dialog_kept_def)
    qed
  qed (use assms RunTask in simp)
next
  case DoStart
  then show ?thesis using w d assms(5) by (auto simp: dialog_kept_def session_wf_def session_defs split: sum.splits if_splits)
next
  case DoClose
  then show ?thesis using w e d assms(5)
    by (auto simp: dialog_kept_def end_heard_def session_wf_def startup_wf_def session_defs split: if_splits)
next
  case PeerEnded
  then show ?thesis using w e d assms(5)
    by (auto simp: dialog_kept_def end_heard_def session_wf_def startup_wf_def session_defs split: if_splits)
qed (use d assms(5) in \<open>auto simp: dialog_kept_def session_defs split: if_splits\<close>)


abbreviation receiving :: "SessionSys \<Rightarrow> bool" where "receiving c \<equiv> ss_video c \<or> ss_audio c"

lemma perform_receiving: "receiving (perform a sent c) \<Longrightarrow> receiving c \<and> a \<noteq> CloseReceivers"
  using perform_receivers by blast

lemma startup_step_receivers:
  assumes "session_wf c" and "ss_startup c = Some u" and "receiving c \<longrightarrow> receivers_kept c"
    and "receiving (startup_step c u (su_phase u) i)"
  shows "receivers_kept (startup_step c u (su_phase u) i)"
proof (cases "su_phase u")
  case (AtCleanup as)
  show ?thesis
  proof (cases "as = [] \<or> (\<forall>b. i \<noteq> Goes b)")
    case True
    then show ?thesis using assms AtCleanup by (cases as; cases i) (auto simp: receivers_kept_def)
  next
    case False
    then obtain a bs sent where "as = a # bs" "i = Goes sent" by (auto simp: neq_Nil_conv)
    then show ?thesis using assms AtCleanup perform_receiving [of a sent c] by (auto simp: receivers_kept_def)
  qed
next
  case AtSIP
  show ?thesis
  proof (cases i)
    case (CallTaken x)
    then show ?thesis using assms AtSIP
      by (auto simp: receivers_kept_def start_sip_def split: sum.splits prod.splits if_splits)
  qed (use assms AtSIP in auto)
next
  case AtFailure
  then show ?thesis using assms
    by (cases i) (auto simp: receivers_kept_def session_wf_def start_failed_def will_close_def Let_def)
next
  case (AtEnd ok)
  then show ?thesis using assms by (cases i; cases ok) (auto simp: receivers_kept_def session_wf_def start_finished_def)
qed (use assms in \<open>cases i; auto simp: receivers_kept_def session_wf_def split: if_splits\<close>)+

lemma session_step_receivers:
  assumes w: "session_wf c" and d: "receiving c \<longrightarrow> receivers_kept c" and "receiving (session_step c i)"
  shows "receivers_kept (session_step c i)"
proof (cases i)
  case (Advance j)
  then show ?thesis using assms startup_step_receivers [OF w] by (cases "ss_startup c") auto
next
  case (RunTask k sent)
  show ?thesis
  proof (cases "k < length (ss_tasks c)")
    case True
    show ?thesis
    proof (cases "ss_tasks c ! k")
      case Nil
      have "\<exists>t\<in>set (remove_nth k (ss_tasks c)). will_close t" if "\<exists>t\<in>set (ss_tasks c). will_close t"
        using that Nil set_remove_nth [OF True] by auto
      then show ?thesis using assms RunTask True Nil by (auto simp: receivers_kept_def)
    next
      case (Cons a as)
      with assms(3) RunTask True have "receiving c" and a: "a \<noteq> CloseReceivers" using perform_receiving by fastforce+
      then show ?thesis using d RunTask True Cons task_done [OF True Cons, of will_close] by (auto simp: receivers_kept_def)
    qed
  qed (use assms RunTask in auto)
next
  case DoStart
  then have "receivers_kept c" using d assms(3) by (auto split: sum.splits)
  then show ?thesis using w DoStart by (auto simp: receivers_kept_def session_wf_def session_defs)
next
  case DoClose
  then show ?thesis using w d assms(3) by (auto simp: receivers_kept_def session_wf_def session_defs split: if_splits)
next
  case PeerEnded
  then show ?thesis using w d assms(3) by (auto simp: receivers_kept_def session_wf_def session_defs split: if_splits)
qed (use d assms(3) in \<open>auto simp: receivers_kept_def session_defs split: if_splits\<close>)

lemma session_reach_kept:
  assumes "session_reach allowed c" and "\<And>c i. allowed c i \<Longrightarrow> \<not> late_end c i"
  shows "session_kept c"
  using assms(1)
proof (induction rule: session_reach.induct)
  case (reach_new config entrypointID hungUp callEnded busDecline)
  show ?case
    by (simp add: session_kept_def session_wf_def end_heard_def NewSessionSys_def NewSourceSession_def holds_dialled_def
          NewSignaling_def SetHangupObserver_def SetCallEndObserver_def SetBusDecline_def NewManager_def)
next
  case (reach_step c i)
  then show ?case using assms(2)
    unfolding session_kept_def
    by (blast intro: session_step_wf session_step_heard session_step_dialog session_step_receivers)
qed

section \<open>Properties\<close>


text \<open>
  C24. A session that is down leaves nothing behind: when it is neither started nor starting and its calls have been made, both
  receivers are closed and the manager holds no dialog that was dialled, so the next INVITE is not refused for it.
  The peer must not end the dialog between the last check of the start and its end; this case is \<open>late_end\<close>.
\<close>

theorem session_leaves_nothing:
  assumes "session_reach (\<lambda>c i. \<not> late_end c i) c"
    and "\<not> se_started (ss_session c)" and "\<not> se_starting (ss_session c)" and "concat (ss_tasks c) = []"
  shows "\<not> ss_video c \<and> \<not> ss_audio c \<and> (\<forall>d. mg_active (sg_manager (ss_sig c)) \<noteq> Some (DialledDialog d))"
proof -
  from session_reach_kept [OF assms(1)] have k: "session_kept c" by simp
  have "ss_startup c = None" using k assms(3) by (simp add: session_kept_def session_wf_def)
  moreover have "as = []" if "as \<in> set (ss_tasks c)" for as using assms(4) that by simp
  ultimately have "\<not> dialog_kept c" "\<not> receivers_kept c" using assms(2)
    by (force simp: dialog_kept_def receivers_kept_def)+
  then show ?thesis using k by (auto simp: session_kept_def holds_dialled_def)
qed


section \<open>Witnesses\<close>

definition sample_source_config :: SourceConfig where
  "sample_source_config = \<lparr>sc_Model = ''C300X'', sc_DevAddr = ''20'', sc_HighResVideo = True, sc_Target = ''c300x@127.0.0.1''\<rparr>"

definition sample_session :: SessionSys where
  "sample_session = NewSessionSys sample_source_config ''door'' (NewSignaling False False False)"

text \<open>The inputs of a start that dials and succeeds.\<close>

definition sample_start :: "session_input list" where
  "sample_start =
     [DoStart, Advance (ReceiverStarted True), Advance (ReceiverStarted True), Advance (CallTaken (Some 7)),
      Advance (PortsRead 5000 5002), Advance (MediaRequested True), Advance (Goes True)]"

lemmas session_eval =
  sample_session_def sample_source_config_def sample_start_def NewSessionSys_def NewSourceSession_def NewSignaling_def
  SetHangupObserver_def SetCallEndObserver_def SetBusDecline_def NewManager_def session_defs start_sip_def StartStream_def
  remove_nth_def late_end_def operation_defs manager_defs

lemma session_reach_run:
  assumes "session_reach allowed c" and "\<And>k. k < length is \<Longrightarrow> \<not> dials (is ! k) \<and> allowed (foldl session_step c (take k is)) (is ! k)"
  shows "session_reach allowed (foldl session_step c is)"
  using assms(2)
proof (induction "is" rule: rev_induct)
  case (snoc i "is")
  have "session_reach allowed (foldl session_step c is)"
  proof (rule snoc.IH)
    fix k assume "k < length is"
    then show "\<not> dials (is ! k) \<and> allowed (foldl session_step c (take k is)) (is ! k)"
      using snoc.prems [of k] by (simp add: nth_append)
  qed
  then show ?case using snoc.prems [of "length is"] by (simp add: reach_step)
qed (use assms(1) in simp)

lemma sample_reach: "session_reach allowed sample_session"
  by (simp add: sample_session_def reach_new)


text \<open>A start that fails because the intercom sends no media, and then ends its dialog.\<close>

definition sample_failed_start :: "session_input list" where
  "sample_failed_start =
     [DoStart, Advance (ReceiverStarted True), Advance (ReceiverStarted True), Advance (CallTaken (Some 7)),
      Advance (PortsRead 5000 5002), Advance (MediaRequested False), Advance (Goes True), Advance (Goes True),
      Advance (Goes True), Advance (Goes True), Advance (Goes True)]"

theorem session_leaves_nothing_witness:
  "let c = foldl session_step sample_session sample_failed_start in
     ss_ends c = 1 \<and> \<not> ss_video c \<and> \<not> ss_audio c \<and>
     (\<forall>d. mg_active (sg_manager (ss_sig c)) \<noteq> Some (DialledDialog d))"
proof -
  let ?c = "foldl session_step sample_session sample_failed_start"
  have r: "session_reach (\<lambda>c i. \<not> late_end c i) ?c"
    by (rule session_reach_run [OF sample_reach]) (auto simp: sample_failed_start_def less_Suc_eq late_end_def)
  have "\<not> se_started (ss_session ?c)" "\<not> se_starting (ss_session ?c)" "concat (ss_tasks ?c) = []" "ss_ends ?c = 1"
    by (simp_all add: session_eval sample_failed_start_def)
  with session_leaves_nothing [OF r] show ?thesis by (simp only: Let_def) blast
qed



text \<open>
  A close in the same window has the same fate: it returns while the session goes on to be started. The cleanup of the
  source closes it again, and that close ends the dialog.
\<close>

theorem late_close_needs_second:
  "let c = foldl session_step sample_session (sample_start @ [DoClose, Advance (Goes True), Advance (Goes True), RunTask 0 True]);
       c' = foldl session_step c [DoClose, RunTask 0 True, RunTask 0 True, RunTask 0 True] in
     se_started (ss_session c) \<and> ss_tasks c = [] \<and> mg_active (sg_manager (ss_sig c)) = Some (DialledDialog 7) \<and>
     \<not> se_started (ss_session c') \<and> ss_tasks c' = [] \<and> mg_active (sg_manager (ss_sig c')) = None"
  by (simp add: session_eval)

text \<open>A resolved configuration starts, except that of a C300X entrypoint without an address.\<close>

lemma resolved_source_complete:
  assumes "ResolveSourceConfig model modules e = Ok config"
  shows "sc_Model config \<noteq> '''' \<and> (sc_DevAddr config = '''' \<longrightarrow> sc_Model config = ''C300X'' \<and> trim_space (DevAddr e) = '''')"
  using assms by (auto simp: ResolveSourceConfig_def Let_def split: if_splits)

end
