(* ===== verification/OWN_Client.thy ===== *)
theory OWN_Client
  imports OWN_Frames Config_Model Core_State "HOL-Library.Sublist"
begin

text \<open>
  The OpenWebNet command client (\<^verbatim>\<open>internal/openwebnet/client.go\<close>) and the AV client
  (\<^verbatim>\<open>internal/openwebnet/av.go\<close>). A connection is the script of what its system calls will return: the results of the
  reads, of the writes and of the settings of deadlines, with the frames written so far. A read past the script
  times out, as the deadline of the connection makes it. The trace and the log lines are left out.
\<close>

section \<open>Reading frames\<close>

text \<open>
  The regular expression \<^verbatim>\<open>\*#?.*?##\<close>: the leftmost match, a number sign after the asterisk taken if that leads to a match, and
  then the shortest rest up to two number signs; the dot does not match a newline.
\<close>

definition NL :: char where "NL = CHR 0x0A"

fun until_hashes :: "string \<Rightarrow> string option" where
  "until_hashes [] = None"
| "until_hashes [c] = None"
| "until_hashes (c # d # cs) =
     (if c = CHR ''#'' \<and> d = CHR ''#'' then Some ''##''
      else if c = NL then None
      else map_option (Cons c) (until_hashes (d # cs)))"

definition frame_at :: "string \<Rightarrow> string option" where
  "frame_at s =
     (case s of
        c # cs \<Rightarrow>
          if c \<noteq> CHR ''*'' then None
          else
            (case (case cs of d # ds \<Rightarrow> if d = CHR ''#'' then map_option (Cons d) (until_hashes ds) else None | [] \<Rightarrow> None) of
               Some f \<Rightarrow> Some (c # f)
             | None \<Rightarrow> map_option (Cons c) (until_hashes cs))
      | [] \<Rightarrow> None)"

text \<open>The frame and what is left behind it.\<close>

fun find_frame :: "string \<Rightarrow> (string \<times> string) option" where
  "find_frame s =
     (case frame_at s of
        Some f \<Rightarrow> Some (f, drop (length f) s)
      | None \<Rightarrow> (case s of [] \<Rightarrow> None | _ # cs \<Rightarrow> find_frame cs))"

declare find_frame.simps [simp del]

datatype own_error =
    DialFailed | DeadlineFailed | WriteFailed | ReadTimedOut | ReadEOF | ReadFailed
  | ErrAuthenticationNeeded | InvalidChallenge | ErrUnexpectedReply | ErrCommandRejected | ErrVoicemailUnavailable
  | UnknownEntrypoint | UnlockModeInvalid | UnlockDurationInvalid | UnlockCancelled | NoCall | ControlUnavailable

datatype read_result = Data string | ReadEnds own_error

record frameReader =
  fr_pending :: string
  fr_reads :: "read_result list"
  fr_writes :: "bool list"
  fr_deadlines :: "bool list"
  fr_sent :: "string list"

definition cap_pending :: "string \<Rightarrow> string" where
  "cap_pending p = (if length p > 4096 then drop (length p - 4096) p else p)"

text \<open>\<^verbatim>\<open>frameReader.read\<close>.\<close>

fun read_loop :: "string \<Rightarrow> read_result list \<Rightarrow> (own_error, string) result \<times> string \<times> read_result list" where
  "read_loop p rs =
     (case find_frame p of
        Some (f, rest) \<Rightarrow> (Ok f, rest, rs)
      | None \<Rightarrow>
          (case rs of
             [] \<Rightarrow> (Err ReadTimedOut, p, [])
           | ReadEnds e # rs' \<Rightarrow> (Err e, p, rs')
           | Data d # rs' \<Rightarrow> read_loop (cap_pending (p @ d)) rs'))"

declare read_loop.simps [simp del]

definition reader_read :: "frameReader \<Rightarrow> (own_error, string) result \<times> frameReader" where
  "reader_read r =
     (case read_loop (fr_pending r) (fr_reads r) of (res, p, rs) \<Rightarrow> (res, r\<lparr>fr_pending := p, fr_reads := rs\<rparr>))"

text \<open>The next answer of a script of calls; past its end they succeed.\<close>

fun next_answer :: "bool list \<Rightarrow> bool \<times> bool list" where
  "next_answer [] = (True, [])"
| "next_answer (b # bs) = (b, bs)"

definition conn_write :: "frameReader \<Rightarrow> string \<Rightarrow> bool \<times> frameReader" where
  "conn_write r frame =
     (case next_answer (fr_writes r) of
        (ok, ws) \<Rightarrow> (ok, r\<lparr>fr_writes := ws, fr_sent := (if ok then fr_sent r @ [frame] else fr_sent r)\<rparr>))"

definition set_deadline :: "frameReader \<Rightarrow> bool \<times> frameReader" where
  "set_deadline r = (case next_answer (fr_deadlines r) of (ok, ds) \<Rightarrow> (ok, r\<lparr>fr_deadlines := ds\<rparr>))"

text \<open>\<open>Ok None\<close> is a read that timed out.\<close>

definition readFrameWithTimeout :: "frameReader \<Rightarrow> (own_error, string option) result \<times> frameReader" where
  "readFrameWithTimeout r =
     (case set_deadline r of
        (ok, r) \<Rightarrow>
          if \<not> ok then (Err DeadlineFailed, r)
          else
            (case reader_read r of
               (res, r) \<Rightarrow>
                 (case set_deadline r of
                    (ok, r) \<Rightarrow>
                      if \<not> ok then (Err DeadlineFailed, r)
                      else (case res of
                              Inr frame \<Rightarrow> (Ok (Some frame), r)
                            | Inl e \<Rightarrow> if e = ReadTimedOut then (Ok None, r) else (Err e, r)))))"

section \<open>Commands\<close>

definition acceptedFrame :: "string \<Rightarrow> string list \<Rightarrow> bool" where
  "acceptedFrame frame accept \<longleftrightarrow> frame \<in> set accept"

definition sendFrame :: "frameReader \<Rightarrow> string \<Rightarrow> (own_error, string) result \<times> frameReader" where
  "sendFrame r frame = (case conn_write r frame of (ok, r) \<Rightarrow> if \<not> ok then (Err WriteFailed, r) else reader_read r)"

text \<open>The frames behind the acknowledgement, eight at most.\<close>

fun send_rest :: "nat \<Rightarrow> frameReader \<Rightarrow> string list \<Rightarrow> (own_error, unit) result \<times> frameReader" where
  "send_rest 0 r accept = (Ok (), r)"
| "send_rest (Suc n) r accept =
     (case readFrameWithTimeout r of
        (Inl e, r) \<Rightarrow> if e = ReadEOF then (Ok (), r) else (Err e, r)
      | (Inr None, r) \<Rightarrow> (Ok (), r)
      | (Inr (Some frame), r) \<Rightarrow>
          if frame = FrameNACK \<or> (\<not> acceptedFrame frame accept \<and> frame \<noteq> FrameACK) then (Err ErrUnexpectedReply, r)
          else send_rest n r accept)"

definition send :: "frameReader \<Rightarrow> string \<Rightarrow> string list \<Rightarrow> (own_error, unit) result \<times> frameReader" where
  "send r frame accept =
     (case sendFrame r frame of
        (Inl e, r) \<Rightarrow> (Err e, r)
      | (Inr response, r) \<Rightarrow>
          if response = FrameNACK \<or> (response \<noteq> FrameACK \<and> \<not> acceptedFrame response accept) then (Err ErrUnexpectedReply, r)
          else if response \<noteq> FrameACK then (Ok (), r)
          else send_rest 8 r accept)"

text \<open>\<open>rounds\<close> is how often the clock is read before the deadline of 1.2 seconds.\<close>

fun status_rest :: "nat \<Rightarrow> frameReader \<Rightarrow> string list \<Rightarrow> (own_error, string) result \<times> frameReader" where
  "status_rest 0 r accept = (Err ErrUnexpectedReply, r)"
| "status_rest (Suc n) r accept =
     (case readFrameWithTimeout r of
        (Inl e, r) \<Rightarrow> if e = ReadEOF then (Err ErrUnexpectedReply, r) else (Err e, r)
      | (Inr None, r) \<Rightarrow> status_rest n r accept
      | (Inr (Some frame), r) \<Rightarrow>
          if frame = FrameNACK then (Err ErrCommandRejected, r)
          else if accept = [] \<and> frame \<noteq> FrameACK then (Ok frame, r)
          else if acceptedFrame frame accept then (Ok frame, r)
          else status_rest n r accept)"

definition sendStatus :: "nat \<Rightarrow> frameReader \<Rightarrow> string \<Rightarrow> string list \<Rightarrow> (own_error, string) result \<times> frameReader" where
  "sendStatus rounds r command accept =
     (case sendFrame r command of
        (Inl e, r) \<Rightarrow> (Err e, r)
      | (Inr frame, r) \<Rightarrow>
          if frame = FrameNACK then (Err ErrCommandRejected, r)
          else if accept = [] \<and> frame \<noteq> FrameACK then (Ok frame, r)
          else if acceptedFrame frame accept then (Ok frame, r)
          else status_rest rounds r accept)"


subsection \<open>Authentication\<close>

text \<open>The verb \<^verbatim>\<open>%02x\<close> of package fmt.\<close>

fun fmt_hex :: "nat \<Rightarrow> string" where
  "fmt_hex n = (if n < 16 then [hex_digit n] else fmt_hex (n div 16) @ [hex_digit (n mod 16)])"

declare fmt_hex.simps [simp del]

definition fmt_02x :: "int \<Rightarrow> string" where
  "fmt_02x n =
     (let digits = fmt_hex (nat \<bar>n\<bar>); sign = (if n < 0 then ''-'' else '''') in
      sign @ replicate (2 - length sign - length digits) CHR ''0'' @ digits)"

fun challenge_digits :: "string \<Rightarrow> string option" where
  "challenge_digits (a # b # c # d # ds) =
     (case (atoi [a, b], atoi [c, d], challenge_digits ds) of
        (Some m, Some n, Some rest) \<Rightarrow> Some (fmt_02x m @ fmt_02x n @ rest)
      | _ \<Rightarrow> None)"
| "challenge_digits _ = Some ''''"

definition challengeToHex :: "string \<Rightarrow> (own_error, string) result" where
  "challengeToHex frame =
     (if \<not> has_prefix frame ''*#'' \<or> \<not> has_suffix frame ''##'' then Err InvalidChallenge
      else
        let digits = trim_suffix (trim_prefix frame ''*#'') ''##'' in
        if digits = '''' \<or> length digits mod 4 \<noteq> 0 then Err InvalidChallenge
        else (case challenge_digits digits of None \<Rightarrow> Err InvalidChallenge | Some h \<Rightarrow> Ok h))"

definition hexToDigit :: "string \<Rightarrow> string" where
  "hexToDigit value =
     concat (map (\<lambda>c. case hex_val c of None \<Rightarrow> '''' | Some n \<Rightarrow> (if n < 10 then ''0'' else '''') @ fmt_nat n) value)"

record unlockTarget =
  ut_address :: string
  ut_mode :: string
  ut_durationMS :: int

record Control =
  ctl_password :: string
  ctl_entrypoints :: "EntrypointID \<rightharpoonup> unlockTarget"

definition NewControl :: "Entrypoint list \<Rightarrow> Control" where
  "NewControl es =
     \<lparr>ctl_password = '''',
      ctl_entrypoints =
        map_of (rev (map (\<lambda>e. (ep_id e, \<lparr>ut_address = trim_space (DevAddr e), ut_mode = UnlockMode e,
                                          ut_durationMS = UnlockDurationMS e\<rparr>)) es))\<rparr>"

text \<open>\<open>sha\<close> is \<^verbatim>\<open>sha256Hex\<close>, \<open>now\<close> the clock in milliseconds.\<close>

definition authenticate :: "(string \<Rightarrow> string) \<Rightarrow> int \<Rightarrow> Control \<Rightarrow> frameReader \<Rightarrow> (own_error, unit) result \<times> frameReader" where
  "authenticate sha now c r =
     (case sendFrame r FrameACK of
        (Inl e, r) \<Rightarrow> (Err e, r)
      | (Inr challenge, r) \<Rightarrow>
          (case challengeToHex challenge of
             Inl e \<Rightarrow> (Err e, r)
           | Inr ra \<Rightarrow>
               let rb = sha (''time'' @ fmt_d now);
                   hmac = sha (ra @ rb @ ''736F70653E'' @ ''636F70653E'' @ sha (ctl_password c)) in
               (case sendFrame r (''*#'' @ hexToDigit rb @ ''*'' @ hexToDigit hmac @ ''##'') of
                  (Inl e, r) \<Rightarrow> (Err e, r)
                | (Inr _, r) \<Rightarrow>
                    (case sendFrame r FrameACK of
                       (Inl e, r) \<Rightarrow> (Err e, r)
                     | (Inr response, r) \<Rightarrow>
                         if response \<noteq> FrameACK then (Err ErrUnexpectedReply, r) else (Ok (), r)))))"

text \<open>\<^verbatim>\<open>exec\<close>: \<open>dialled\<close> is whether the connection was made; \<open>r\<close> is the fresh connection.\<close>

definition control_exec ::
  "(string \<Rightarrow> string) \<Rightarrow> int \<Rightarrow> Control \<Rightarrow> bool \<Rightarrow> frameReader \<Rightarrow>
   (frameReader \<Rightarrow> (own_error, 'a) result \<times> frameReader) \<Rightarrow> (own_error, 'a) result \<times> frameReader" where
  "control_exec sha now c dialled r fn =
     (if \<not> dialled then (Err DialFailed, r)
      else
        (case set_deadline r of
           (ok, r) \<Rightarrow>
             if \<not> ok then (Err DeadlineFailed, r)
             else
               (case sendFrame r FrameSessionStartCmd of
                  (Inl e, r) \<Rightarrow> (Err e, r)
                | (Inr response, r) \<Rightarrow>
                    if response = FrameACK then fn r
                    else if response = FrameAuthRequired then
                      (if ctl_password c = '''' then (Err ErrAuthenticationNeeded, r)
                       else (case authenticate sha now c r of (Inl e, r) \<Rightarrow> (Err e, r) | (Inr _, r) \<Rightarrow> fn r))
                    else (Err ErrUnexpectedReply, r))))"

definition control_command ::
  "(string \<Rightarrow> string) \<Rightarrow> int \<Rightarrow> Control \<Rightarrow> bool \<Rightarrow> frameReader \<Rightarrow> string \<Rightarrow> string list \<Rightarrow> (own_error, unit) result \<times> frameReader" where
  "control_command sha now c dialled r frame accept = control_exec sha now c dialled r (\<lambda>r. send r frame accept)"

definition control_status ::
  "(string \<Rightarrow> string) \<Rightarrow> int \<Rightarrow> Control \<Rightarrow> bool \<Rightarrow> nat \<Rightarrow> frameReader \<Rightarrow> string \<Rightarrow> string list \<Rightarrow>
   (own_error, string) result \<times> frameReader" where
  "control_status sha now c dialled rounds r cmd accept = control_exec sha now c dialled r (\<lambda>r. sendStatus rounds r cmd accept)"

subsection \<open>Operations\<close>

definition unlock_frames :: "unlockTarget \<Rightarrow> (string \<times> string) option" where
  "unlock_frames t =
     (if ut_mode t = '''' \<or> ut_mode t = ''door'' then Some (BuildUnlockOpen (ut_address t), BuildUnlockClose (ut_address t))
      else if ut_mode t = ''auxiliary'' then Some (BuildAuxiliaryOpen (ut_address t), BuildAuxiliaryClose (ut_address t))
      else None)"

definition unlock_duration :: "unlockTarget \<Rightarrow> int" where
  "unlock_duration t = (if ut_durationMS t = 0 then DefaultUnlockDurationMS else ut_durationMS t)"

text \<open>\<open>cancelled\<close>: the context ends while the lock is held open.\<close>

definition Control_Unlock ::
  "(string \<Rightarrow> string) \<Rightarrow> int \<Rightarrow> Control \<Rightarrow> bool \<Rightarrow> frameReader \<Rightarrow> EntrypointID \<Rightarrow> bool \<Rightarrow>
   (own_error, unit) result \<times> frameReader" where
  "Control_Unlock sha now c dialled r i cancelled =
     (case ctl_entrypoints c i of
        None \<Rightarrow> (Err UnknownEntrypoint, r)
      | Some t \<Rightarrow>
          if ut_address t = '''' then (Err UnknownEntrypoint, r)
          else
            (case unlock_frames t of
               None \<Rightarrow> (Err UnlockModeInvalid, r)
             | Some (openFrame, closeFrame) \<Rightarrow>
                 if unlock_duration t < 1 \<or> unlock_duration t > MaxUnlockDurationMS then (Err UnlockDurationInvalid, r)
                 else
                   control_exec sha now c dialled r
                     (\<lambda>r. case send r openFrame [FrameACK] of
                             (Inl e, r) \<Rightarrow> (Err e, r)
                           | (Inr _, r) \<Rightarrow>
                               if cancelled then (Err UnlockCancelled, r)
                               else send r closeFrame [FrameACK])))"

definition Control_EndCall ::
  "(string \<Rightarrow> string) \<Rightarrow> int \<Rightarrow> Control \<Rightarrow> bool \<Rightarrow> frameReader \<Rightarrow> string \<Rightarrow> string \<Rightarrow> (own_error, unit) result \<times> frameReader" where
  "Control_EndCall sha now c dialled r callType called =
     (if trim_space callType = '''' \<or> trim_space called = '''' then (Err NoCall, r)
      else control_command sha now c dialled r (BuildCallEnd callType called) [FrameACK])"

definition Control_Mute where
  "Control_Mute sha now c dialled r = control_command sha now c dialled r FrameAudioMuteCmd [FrameACK, FrameAudioMuted]"

definition Control_Unmute where
  "Control_Unmute sha now c dialled r = control_command sha now c dialled r FrameAudioUnmuteCmd [FrameACK, FrameAudioUnmuted]"

definition AudioMutedStatus ::
  "(string \<Rightarrow> string) \<Rightarrow> int \<Rightarrow> Control \<Rightarrow> bool \<Rightarrow> nat \<Rightarrow> frameReader \<Rightarrow> (own_error, bool) result \<times> frameReader" where
  "AudioMutedStatus sha now c dialled rounds r =
     (case control_status sha now c dialled rounds r FrameAudioStatusCmd [FrameAudioMuted, FrameAudioUnmuted] of
        (Inl e, r) \<Rightarrow> (Err e, r)
      | (Inr frame, r) \<Rightarrow> (Ok (frame = FrameAudioMuted), r))"

definition Control_VoicemailStatus ::
  "(string \<Rightarrow> string) \<Rightarrow> int \<Rightarrow> Control \<Rightarrow> bool \<Rightarrow> nat \<Rightarrow> frameReader \<Rightarrow> (own_error, bool) result \<times> frameReader" where
  "Control_VoicemailStatus sha now c dialled rounds r =
     (case control_status sha now c dialled rounds r FrameVoicemailStatusCmd [] of
        (Inl e, r) \<Rightarrow> (Err (if e = ErrCommandRejected then ErrVoicemailUnavailable else e), r)
      | (Inr frame, r) \<Rightarrow>
          (case ParseVoicemailStatus frame of
             None \<Rightarrow> (Err ErrUnexpectedReply, r)
           | Some (enabled, _) \<Rightarrow> (Ok enabled, r)))"

text \<open>Each command of its own connection; \<open>r2\<close> is the one of the command behind the status.\<close>

definition set_voicemail ::
  "(string \<Rightarrow> string) \<Rightarrow> int \<Rightarrow> Control \<Rightarrow> string \<Rightarrow> bool \<times> nat \<times> frameReader \<Rightarrow> bool \<times> frameReader \<Rightarrow>
   (own_error, unit) result \<times> frameReader" where
  "set_voicemail sha now c frame conn1 conn2 =
     (case conn1 of (dialled1, rounds, r1) \<Rightarrow>
        (case fst (Control_VoicemailStatus sha now c dialled1 rounds r1) of
           Inl e \<Rightarrow> (Err e, snd conn2)
         | Inr _ \<Rightarrow> control_command sha now c (fst conn2) (snd conn2) frame [FrameACK]))"

definition Control_Enable where "Control_Enable sha now c = set_voicemail sha now c FrameVoicemailEnableCmd"
definition Control_Disable where "Control_Disable sha now c = set_voicemail sha now c FrameVoicemailDisableCmd"

definition InitialEvents ::
  "(own_error, bool) result \<Rightarrow> (own_error, bool) result \<Rightarrow> event list \<times> own_error list" where
  "InitialEvents audio vm =
     ((case audio of Inr muted \<Rightarrow> [if muted then AudioMuted else AudioUnmuted] | Inl _ \<Rightarrow> []) @
      (case vm of Inr enabled \<Rightarrow> [if enabled then VoicemailEnabled else VoicemailDisabled] | Inl _ \<Rightarrow> []),
      (case audio of Inl e \<Rightarrow> [e] | Inr _ \<Rightarrow> []) @ (case vm of Inl e \<Rightarrow> [e] | Inr _ \<Rightarrow> []))"

text \<open>The queries of \<^verbatim>\<open>DiagnosticSnapshot\<close> in their order, with the parser of each reply.\<close>

definition diagnostic_queries :: "(string \<times> (string \<Rightarrow> string option)) list" where
  "diagnostic_queries =
     [(''*#13**10##'', ParseDiagnosticIP), (''*#13**11##'', ParseDiagnosticNetmask), (''*#13**12##'', ParseDiagnosticMAC),
      (''*#13**16##'', ParseDiagnosticFirmware), (''*#13**17##'', ParseDiagnosticHardware), (''*#13**23##'', ParseDiagnosticKernel),
      (''*#13**24##'', ParseDiagnosticDistribution)]"

fun diagnostics ::
  "nat \<Rightarrow> frameReader \<Rightarrow> (string \<times> (string \<Rightarrow> string option)) list \<Rightarrow> string list \<times> own_error option \<times> frameReader" where
  "diagnostics rounds r [] = ([], None, r)"
| "diagnostics rounds r ((cmd, parse) # qs) =
     (case sendStatus rounds r cmd [] of
        (Inl e, r) \<Rightarrow> ([], Some e, r)
      | (Inr frame, r) \<Rightarrow>
          (case parse frame of
             None \<Rightarrow> ([], Some ErrUnexpectedReply, r)
           | Some v \<Rightarrow> (case diagnostics rounds r qs of (vs, e, r) \<Rightarrow> (v # vs, e, r))))"

text \<open>The fields that were read, in their order, and the error; what was read before an error is returned too.\<close>

definition DiagnosticSnapshot ::
  "(string \<Rightarrow> string) \<Rightarrow> int \<Rightarrow> Control \<Rightarrow> bool \<Rightarrow> nat \<Rightarrow> frameReader \<Rightarrow> (string list \<times> own_error option) \<times> frameReader" where
  "DiagnosticSnapshot sha now c dialled rounds r =
     (case control_exec sha now c dialled r
             (\<lambda>r. case diagnostics rounds r diagnostic_queries of (vs, e, r) \<Rightarrow> (Ok (vs, e), r)) of
        (Inl e, r) \<Rightarrow> (([], Some e), r)
      | (Inr p, r) \<Rightarrow> (p, r))"


section \<open>AV requests\<close>

text \<open>The durations of \<^verbatim>\<open>NewAVClient\<close> that bound its loop, in nanoseconds.\<close>

definition retryWindow :: nat where "retryWindow = 6000000000"
definition retryDelay :: nat where "retryDelay = 100000000"

datatype av_error = AVDialFailed | AVDeadlineFailed | AVWriteFailed | AVReadFailed | ErrAVCommandRejected | ErrAVFlowTimeout
  | AVWaitCancelled | NoFlowProbe

function allACKs_loop :: "string \<Rightarrow> bool" where
  "allACKs_loop reply =
     (if reply = '''' then True
      else if \<not> has_prefix reply FrameACK then False
      else allACKs_loop (trim_prefix reply FrameACK))"
  by auto
termination
  by (relation "measure length") (auto simp: trim_prefix_def has_prefix_iff)

declare allACKs_loop.simps [simp del]

definition allACKs :: "string \<Rightarrow> bool" where
  "allACKs reply = (trim_space reply \<noteq> '''' \<and> allACKs_loop (trim_space reply))"

text \<open>What the calls of one exchange return; \<open>ex_reply\<close> is what the one read gives.\<close>

record av_exchange =
  ex_dialled :: bool
  ex_deadline :: bool
  ex_written :: bool
  ex_reply :: "string option"

definition exchange :: "av_exchange \<Rightarrow> (av_error, bool) result" where
  "exchange x =
     (if \<not> ex_dialled x then Err AVDialFailed
      else if \<not> ex_deadline x then Err AVDeadlineFailed
      else if \<not> ex_written x then Err AVWriteFailed
      else (case ex_reply x of None \<Rightarrow> Err AVReadFailed | Some reply \<Rightarrow> Ok (allACKs reply)))"

text \<open>The answers of the probe: at once, at each tick before the deadline, and at the deadline.\<close>

definition waitForFlow :: "bool \<Rightarrow> bool list \<Rightarrow> bool \<Rightarrow> bool" where
  "waitForFlow first ticks final = (first \<or> list_ex (\<lambda>b. b) ticks \<or> final)"

text \<open>
  One round of \<^verbatim>\<open>startStream\<close>: whether the context ends during the wait before it, the exchange, the answers of the probe
  and the time all of it takes beyond the wait.
\<close>

record av_attempt =
  at_cancelled :: bool
  at_exchange :: av_exchange
  at_flowing :: bool
  at_first :: bool
  at_ticks :: "bool list"
  at_final :: bool
  at_elapsed :: nat

definition attempt_error :: "av_attempt \<Rightarrow> av_error option \<Rightarrow> av_error option" where
  "attempt_error a lastErr =
     (case exchange (at_exchange a) of Inl e \<Rightarrow> Some e | Inr ack \<Rightarrow> if ack then lastErr else Some ErrAVCommandRejected)"

definition attempt_tried :: "av_attempt \<Rightarrow> bool" where
  "attempt_tried a \<longleftrightarrow> exchange (at_exchange a) = Ok True \<or> at_flowing a"

text \<open>
  The loop: \<open>n\<close> attempts were made, \<open>elapsed\<close> is the time since the start. The result comes with the number of requests sent.
  \<open>env\<close> says what each attempt meets.
\<close>

function av_loop ::
  "(nat \<Rightarrow> av_attempt) \<Rightarrow> nat \<Rightarrow> nat \<Rightarrow> av_error option \<Rightarrow> (av_error option, unit) result \<times> nat" where
  "av_loop env n elapsed lastErr =
     (if n \<noteq> 0 \<and> \<not> elapsed < retryWindow then (Err lastErr, n)
      else
        let a = env n; elapsed = (if n = 0 then elapsed else elapsed + retryDelay) in
        if n \<noteq> 0 \<and> at_cancelled a then (Err (Some AVWaitCancelled), n)
        else
          let lastErr = attempt_error a lastErr in
          if attempt_tried a \<and> waitForFlow (at_first a) (at_ticks a) (at_final a) then (Ok (), Suc n)
          else av_loop env (Suc n) (elapsed + at_elapsed a) (if attempt_tried a then Some ErrAVFlowTimeout else lastErr))"
  by auto
termination
  by (relation "measure (\<lambda>(env, n, elapsed, lastErr). (if n = 0 then 1 + retryWindow else 0) + (retryWindow - elapsed))")
     (auto simp: retryWindow_def retryDelay_def)

declare av_loop.simps [simp del]

text \<open>\<open>flowing\<close> is the answer of the probe before anything is requested.\<close>

definition startStream :: "(nat \<Rightarrow> av_attempt) \<Rightarrow> bool \<Rightarrow> (av_error option, unit) result \<times> nat" where
  "startStream env flowing = (if flowing then (Ok (), 0) else av_loop env 0 0 None)"

text \<open>The requests come with the result: the frames that were exchanged, one for each attempt.\<close>

type_synonym av_outcome = "(av_error option, unit) result \<times> string list"

definition request_stream :: "string \<Rightarrow> (nat \<Rightarrow> av_attempt) option \<Rightarrow> bool \<Rightarrow> av_outcome" where
  "request_stream frame probe flowing =
     (case probe of
        None \<Rightarrow> (Err (Some NoFlowProbe), [])
      | Some env \<Rightarrow> (case startStream env flowing of (r, n) \<Rightarrow> (r, replicate n frame)))"

definition AV_StartVideo :: "bool \<Rightarrow> int \<Rightarrow> (nat \<Rightarrow> av_attempt) option \<Rightarrow> bool \<Rightarrow> av_outcome" where
  "AV_StartVideo highRes port probe flowing = request_stream (BuildAVAddStreamVideo ''127.0.0.1'' port highRes) probe flowing"

definition AV_StartAudio :: "int \<Rightarrow> (nat \<Rightarrow> av_attempt) option \<Rightarrow> bool \<Rightarrow> av_outcome" where
  "AV_StartAudio port probe flowing = request_stream (BuildAVAddStreamAudio ''127.0.0.1'' port) probe flowing"

definition AV_Start ::
  "bool \<Rightarrow> int \<Rightarrow> int \<Rightarrow> (nat \<Rightarrow> av_attempt) option \<Rightarrow> bool \<Rightarrow> (nat \<Rightarrow> av_attempt) option \<Rightarrow> bool \<Rightarrow> av_outcome" where
  "AV_Start highRes videoPort audioPort video videoFlowing audio audioFlowing =
     (if video = None \<or> audio = None then (Err (Some NoFlowProbe), [])
      else
        (case AV_StartVideo highRes videoPort video videoFlowing of
           (Inl e, sent) \<Rightarrow> (Err e, sent)
         | (Inr _, sent) \<Rightarrow> (case AV_StartAudio audioPort audio audioFlowing of (r, sent') \<Rightarrow> (r, sent @ sent'))))"

section \<open>The loop of the AV requests\<close>

lemma av_loop_bounds:
  assumes "n = 0 \<or> (n - 1) * retryDelay \<le> elapsed"
  shows "snd (av_loop env n elapsed lastErr) \<le> max n 61 \<and>
         (fst (av_loop env n elapsed lastErr) = Ok () \<longrightarrow>
            (\<exists>k. n \<le> k \<and> k < 61 \<and> attempt_tried (env k) \<and> waitForFlow (at_first (env k)) (at_ticks (env k)) (at_final (env k)))) \<and>
         (n = 0 \<or> lastErr \<noteq> None \<longrightarrow> fst (av_loop env n elapsed lastErr) \<noteq> Err None)"
  using assms
proof (induction env n elapsed lastErr rule: av_loop.induct)
  case (1 env n elapsed lastErr)
  let ?P = "\<lambda>n r l. snd r \<le> max n 61 \<and>
         (fst r = Ok () \<longrightarrow>
            (\<exists>k. n \<le> k \<and> k < 61 \<and> attempt_tried (env k) \<and> waitForFlow (at_first (env k)) (at_ticks (env k)) (at_final (env k)))) \<and>
         (n = 0 \<or> l \<noteq> None \<longrightarrow> fst r \<noteq> Err None)"
  let ?a = "env n" and ?e = "if n = 0 then elapsed else elapsed + retryDelay"
  let ?l = "if attempt_tried (env n) then Some ErrAVFlowTimeout else attempt_error (env n) lastErr"
  have l: "?l \<noteq> None" if "n = 0 \<or> lastErr \<noteq> None"
    by (auto simp: attempt_tried_def attempt_error_def split: sum.splits)
  have small: "n \<le> 60" if "\<not> (n \<noteq> 0 \<and> \<not> elapsed < retryWindow)"
    using that "1.prems" by (cases n) (auto simp: retryWindow_def retryDelay_def)
  show ?case
  proof (cases "(n \<noteq> 0 \<and> \<not> elapsed < retryWindow) \<or> (n \<noteq> 0 \<and> at_cancelled ?a) \<or>
                (attempt_tried ?a \<and> waitForFlow (at_first ?a) (at_ticks ?a) (at_final ?a))")
    case True
    have e: "av_loop env n elapsed lastErr =
        (if n \<noteq> 0 \<and> \<not> elapsed < retryWindow then (Err lastErr, n)
         else if n \<noteq> 0 \<and> at_cancelled ?a then (Err (Some AVWaitCancelled), n) else (Ok (), Suc n))"
      using True by (subst av_loop.simps) (auto simp: Let_def)
    show ?thesis unfolding e using True small by (auto simp: max_def intro: exI [of _ n])
  next
    case False
    have e: "av_loop env n elapsed lastErr = av_loop env (Suc n) (?e + at_elapsed ?a) ?l"
      using False by (subst av_loop.simps) (auto simp: Let_def)
    have "Suc n = 0 \<or> (Suc n - 1) * retryDelay \<le> ?e + at_elapsed ?a"
      using "1.prems" by (cases n) auto
    moreover have "\<not> (n \<noteq> 0 \<and> \<not> elapsed < retryWindow)" "\<not> (n \<noteq> 0 \<and> at_cancelled ?a)"
      "\<not> (attempt_tried ?a \<and> waitForFlow (at_first ?a) (at_ticks ?a) (at_final ?a))" using False by blast+
    ultimately have ih: "?P (Suc n) (av_loop env (Suc n) (?e + at_elapsed ?a) ?l) ?l"
      using "1.IH" [OF _ refl refl _ refl] by simp
    have "n \<le> 60" using small False by blast
    with ih l show ?thesis unfolding e by (auto simp: max_def intro: Suc_leD)
  qed
qed

lemma replicate_acks: "allACKs_loop (concat (replicate n FrameACK))"
  by (induction n) (subst allACKs_loop.simps, simp add: trim_prefix_def)+

lemma allACKs_loop_iff: "allACKs_loop reply \<longleftrightarrow> (\<exists>n. reply = concat (replicate n FrameACK))"
proof
  show "\<exists>n. reply = concat (replicate n FrameACK)" if "allACKs_loop reply"
    using that
  proof (induction reply rule: allACKs_loop.induct)
    case (1 reply)
    show ?case
    proof (cases "reply = ''''")
      case True
      then show ?thesis by (intro exI [where x = 0]) simp
    next
      case False
      with "1.prems" have p: "has_prefix reply FrameACK" "allACKs_loop (trim_prefix reply FrameACK)"
        by (subst (asm) allACKs_loop.simps, simp split: if_splits)+
      from "1.IH" [OF False _ p(2)] p(1) obtain n where "trim_prefix reply FrameACK = concat (replicate n FrameACK)" by auto
      moreover from p(1) have "reply = FrameACK @ trim_prefix reply FrameACK" by (auto simp: has_prefix_iff trim_prefix_def)
      ultimately show ?thesis by (intro exI [where x = "Suc n"]) simp
    qed
  qed
qed (use replicate_acks in auto)


section \<open>Frames in any chunks\<close>

text \<open>No two number signs side by side, none at the end, and no newline.\<close>

fun hash_free :: "string \<Rightarrow> bool" where
  "hash_free [] = True"
| "hash_free [c] = (c \<noteq> CHR ''#'' \<and> c \<noteq> NL)"
| "hash_free (c # d # cs) = (\<not> (c = CHR ''#'' \<and> d = CHR ''#'') \<and> c \<noteq> NL \<and> hash_free (d # cs))"

definition good_frame :: "string \<Rightarrow> bool" where
  "good_frame f \<longleftrightarrow>
     3 < length f \<and> hd f = CHR ''*'' \<and> drop (length f - 2) f = ''##'' \<and> hash_free (take (length f - 3) (tl f))"

lemma hash_free_tl: "hash_free (c # cs) \<Longrightarrow> hash_free cs"
  by (cases cs) auto

lemma good_frameE:
  assumes "good_frame f"
  obtains b where "f = CHR ''*'' # b @ ''##''" and "b \<noteq> []" and "hash_free b" and "hash_free (CHR ''*'' # b)"
proof -
  obtain c cs where f: "f = c # cs" using assms by (cases f) (auto simp: good_frame_def)
  define b where "b = take (length f - 3) cs"
  have "drop (length f - 3) cs = ''##''"
    using assms f by (simp add: good_frame_def drop_Cons' Suc_diff_Suc numeral_2_eq_2 numeral_3_eq_3 split: if_splits)
  then have "cs = b @ ''##''" unfolding b_def by (metis append_take_drop_id)
  moreover have "hash_free b" "b \<noteq> []" using assms f by (auto simp: good_frame_def b_def)
  moreover have "hash_free (CHR ''*'' # b)" using \<open>hash_free b\<close> by (cases b) (auto simp: NL_def)
  ultimately show ?thesis using that assms f by (auto simp: good_frame_def)
qed

lemma until_hashes_good: "hash_free b \<Longrightarrow> until_hashes (b @ ''##'' @ t) = Some (b @ ''##'')"
  by (induction b rule: hash_free.induct) auto

lemma until_hashes_prefix:
  assumes "p @ q = c @ ''##''" and "q \<noteq> []" and "hash_free c"
  shows "until_hashes p = None"
  using assms
proof (induction p arbitrary: c rule: until_hashes.induct)
  case (3 x y cs)
  show ?case
  proof (cases c)
    case Nil
    then show ?thesis using "3.prems" by (auto simp: append_eq_Cons_conv)
  next
    case c: (Cons z zs)
    then have z: "x = z" "(y # cs) @ q = zs @ ''##''" using "3.prems"(1) by auto
    then have "\<not> (x = CHR ''#'' \<and> y = CHR ''#'')" "x \<noteq> NL"
      using "3.prems"(3) c by (cases zs; auto)+
    then show ?thesis using "3.IH" [OF _ _ z(2)] "3.prems"(2,3) c hash_free_tl by auto
  qed
qed auto

lemma frame_at_prefix:
  assumes "p @ q = c @ ''##''" and "q \<noteq> []" and "hash_free c"
  shows "frame_at p = None"
proof (cases p)
  case p: (Cons x cs)
  show ?thesis
  proof (cases "x = CHR ''*''")
    case True
    then obtain zs where c: "c = x # zs" "cs @ q = zs @ ''##''" "hash_free zs"
      using assms p hash_free_tl by (cases c) auto
    have cs: "until_hashes cs = None" by (rule until_hashes_prefix [OF c(2) assms(2) c(3)])
    have "until_hashes ds = None" if "cs = d # ds" for d ds
    proof (cases zs)
      case Nil
      then show ?thesis using c(2) that assms(2) by (auto simp: Cons_eq_append_conv append_eq_Cons_conv)
    next
      case (Cons w ws)
      then show ?thesis using c(2,3) that assms(2) until_hashes_prefix hash_free_tl by fastforce
    qed
    then show ?thesis using cs p True by (auto simp: frame_at_def split: list.splits)
  qed (simp add: frame_at_def p)
qed (simp add: frame_at_def)

lemma find_frame_prefix:
  assumes "p @ q = c @ ''##''" and "q \<noteq> []" and "hash_free c"
  shows "find_frame p = None"
  using assms
proof (induction p arbitrary: c)
  case Nil
  then show ?case by (simp add: find_frame.simps frame_at_def)
next
  case (Cons x p)
  have a: "frame_at (x # p) = None" by (rule frame_at_prefix [OF Cons.prems])
  have "find_frame p = None"
  proof (cases c)
    case Nil
    then have "p = []" using Cons.prems(1,2) by (auto simp: append_eq_Cons_conv)
    then show ?thesis by (simp add: find_frame.simps frame_at_def)
  next
    case c: (Cons z zs)
    then show ?thesis using Cons.IH [of zs] Cons.prems hash_free_tl by auto
  qed
  with a show ?case by (subst find_frame.simps) simp
qed

lemma find_frame_good:
  assumes "good_frame f"
  shows "find_frame (f @ t) = Some (f, t)"
proof -
  obtain b where b: "f = CHR ''*'' # b @ ''##''" "b \<noteq> []" "hash_free b" using assms by (rule good_frameE)
  obtain d ds where d: "b = d # ds" using b(2) by (cases b) auto
  have h: "hash_free ds" using b(3) d hash_free_tl by blast
  have "frame_at (f @ t) = Some f"
    using b(1,3) d until_hashes_good [OF h, of t] until_hashes_good [OF b(3), of t] by (simp add: frame_at_def)
  then show ?thesis by (subst find_frame.simps) simp
qed

text \<open>One read of a frame that comes in chunks the size of the buffer.\<close>

lemma read_loop_good:
  assumes "good_frame f" and "length f \<le> 3969" and "p @ concat ds = f @ t" and "list_all (\<lambda>d. length d \<le> 128) ds"
  shows "\<exists>p' ds'. read_loop p (map Data ds) = (Ok f, p', map Data ds') \<and> p' @ concat ds' = t \<and> list_all (\<lambda>d. length d \<le> 128) ds'"
  using assms(3,4)
proof (induction ds arbitrary: p)
  case Nil
  then show ?case using find_frame_good [OF assms(1), of t] by (subst read_loop.simps) (auto intro: exI [of _ "[]"])
next
  case (Cons d ds)
  show ?case
  proof (cases "length f \<le> length p")
    case True
    then obtain s where "p = f @ s" using Cons.prems(1) by (metis append_eq_append_conv_if append_take_drop_id)
    then show ?thesis using find_frame_good [OF assms(1), of s] Cons.prems
      by (subst read_loop.simps) (auto intro!: exI [of _ "d # ds"])
  next
    case False
    obtain b where b: "f = (CHR ''*'' # b) @ ''##''" "hash_free (CHR ''*'' # b)" using assms(1) by (rule good_frameE) auto
    obtain q where q: "p @ q = f" "q \<noteq> []"
      using False Cons.prems(1) by (metis append_eq_append_conv_if append_take_drop_id append_Nil2 nat_le_linear order_refl)
    have "find_frame p = None" using find_frame_prefix [OF _ q(2) b(2)] q(1) b(1) by simp
    moreover have "cap_pending (p @ d) = p @ d"
      using False assms(2) Cons.prems(2) by (simp add: cap_pending_def)
    ultimately show ?thesis using Cons.IH [of "p @ d"] Cons.prems by (subst read_loop.simps) simp
  qed
qed


fun read_frames :: "nat \<Rightarrow> frameReader \<Rightarrow> string list" where
  "read_frames 0 r = []"
| "read_frames (Suc n) r = (case reader_read r of (Inl _, _) \<Rightarrow> [] | (Inr f, r) \<Rightarrow> f # read_frames n r)"

lemma read_frames_chunks:
  assumes "list_all (\<lambda>f. good_frame f \<and> length f \<le> 3969) fs" and "list_all (\<lambda>d. length d \<le> 128) ds"
    and "fr_pending r @ concat ds = concat fs" and "fr_reads r = map Data ds"
  shows "read_frames (length fs) r = fs"
  using assms
proof (induction fs arbitrary: r ds)
  case (Cons f fs)
  from Cons.prems(1) have "good_frame f" "length f \<le> 3969" by simp_all
  from read_loop_good [OF this, of "fr_pending r" ds "concat fs"] Cons.prems
  obtain p ds' where l: "read_loop (fr_pending r) (map Data ds) = (Ok f, p, map Data ds')"
    and c: "p @ concat ds' = concat fs" "list_all (\<lambda>d. length d \<le> 128) ds'" by auto
  have "read_frames (length fs) (r\<lparr>fr_pending := p, fr_reads := map Data ds'\<rparr>) = fs"
    using Cons.IH [of ds'] Cons.prems(1) c by simp
  then show ?case using l Cons.prems(4) by (simp add: reader_read_def)
qed simp

section \<open>Unlocking\<close>

lemma reader_read_sent [simp]: "fr_sent (snd (reader_read r)) = fr_sent r"
  by (simp add: reader_read_def split: prod.split)

lemma set_deadline_sent [simp]: "fr_sent (snd (set_deadline r)) = fr_sent r"
  by (simp add: set_deadline_def split: prod.split)

lemma readFrameWithTimeout_sent [simp]: "fr_sent (snd (readFrameWithTimeout r)) = fr_sent r"
proof -
  have "fr_sent r1 = fr_sent r" if "set_deadline r = (b, r1)" for b r1 using that set_deadline_sent [of r] by simp
  moreover have "fr_sent r2 = fr_sent r1" if "reader_read r1 = (x, r2)" for x r1 r2 using that reader_read_sent [of r1] by simp
  moreover have "fr_sent r2 = fr_sent r1" if "set_deadline r1 = (b, r2)" for b r1 r2 using that set_deadline_sent [of r1] by simp
  ultimately show ?thesis by (auto simp: readFrameWithTimeout_def split: prod.split sum.split)
qed

lemma send_rest_sent [simp]: "fr_sent (snd (send_rest n r accept)) = fr_sent r"
proof (induction n arbitrary: r)
  case (Suc n)
  have "fr_sent r' = fr_sent r" if "readFrameWithTimeout r = (x, r')" for x r'
    using that readFrameWithTimeout_sent [of r] by simp
  then show ?case using Suc by (auto split: prod.split sum.split option.split)
qed simp

text \<open>A frame is sent once at most, and a command that succeeds has sent it.\<close>

definition sends :: "frameReader \<Rightarrow> string \<Rightarrow> bool \<Rightarrow> frameReader \<Rightarrow> bool" where
  "sends r frame ok r' \<longleftrightarrow> fr_sent r' = fr_sent r @ [frame] \<or> (\<not> ok \<and> fr_sent r' = fr_sent r)"

lemma sent_same:
  "reader_read r = (x, r') \<Longrightarrow> fr_sent r' = fr_sent r"
  "send_rest n r accept = (y, r') \<Longrightarrow> fr_sent r' = fr_sent r"
  using reader_read_sent [of r] send_rest_sent [of n r accept] by auto

lemma sendFrame_sends: "sendFrame r frame = (x, r') \<Longrightarrow> sends r frame (\<exists>y. x = Ok y) r'"
  by (auto simp: sendFrame_def conn_write_def sends_def split: prod.splits if_splits dest: sent_same)

lemma send_sends: "send r frame accept = (x, r') \<Longrightarrow> sends r frame (x = Ok ()) r'"
proof -
  assume s: "send r frame accept = (x, r')"
  obtain y r1 where f: "sendFrame r frame = (y, r1)" by fastforce
  note a = sendFrame_sends [OF f]
  have "fr_sent r' = fr_sent r1" using s f
    by (auto simp: send_def split: sum.splits if_splits dest: sent_same)
  moreover have "\<exists>z. y = Ok z" if "x = Ok ()" using s f that by (auto simp: send_def split: sum.splits if_splits)
  ultimately show ?thesis using a by (auto simp: sends_def)
qed

definition fresh_connection :: "frameReader \<Rightarrow> bool" where
  "fresh_connection r \<longleftrightarrow> fr_pending r = '''' \<and> fr_sent r = []"

lemma exec_sends:
  assumes "control_exec sha now c dialled r fn = (x, r')" and "fr_sent r = []" and "ctl_password c = ''''"
  shows "(\<exists>r1. fr_sent r1 = [FrameSessionStartCmd] \<and> fn r1 = (x, r')) \<or>
         ((\<forall>y. x \<noteq> Ok y) \<and> prefix (fr_sent r') [FrameSessionStartCmd])"
proof -
  obtain b r0 where d: "set_deadline r = (b, r0)" by fastforce
  have r0: "fr_sent r0 = []" using set_deadline_sent [of r] d assms(2) by simp
  obtain y r1 where f: "sendFrame r0 FrameSessionStartCmd = (y, r1)" by fastforce
  have "sends r0 FrameSessionStartCmd (\<exists>z. y = Ok z) r1" using sendFrame_sends [OF f] .
  then show ?thesis using assms d r0 f
    by (auto simp: control_exec_def sends_def split: if_splits sum.splits)
qed


lemma validateEntrypoints_each:
  assumes "validateEntrypoints seen es = None" and "e \<in> set es"
  shows "trim_space (DevAddr e) \<noteq> '''' \<and> UnlockMode e \<in> {'''', ''door'', ''auxiliary''} \<and>
         0 \<le> UnlockDurationMS e \<and> UnlockDurationMS e \<le> MaxUnlockDurationMS"
  using assms by (induction seen es rule: validateEntrypoints.induct) (auto split: if_splits)

definition target_of :: "Entrypoint \<Rightarrow> unlockTarget" where
  "target_of e = \<lparr>ut_address = trim_space (DevAddr e), ut_mode = UnlockMode e, ut_durationMS = UnlockDurationMS e\<rparr>"

lemma NewControl_targets:
  "ctl_entrypoints (NewControl es) i = Some t \<Longrightarrow> \<exists>e\<in>set es. ep_id e = i \<and> t = target_of e"
  "ctl_entrypoints (NewControl es) i = None \<longleftrightarrow> i \<notin> ep_id ` set es"
  by (auto simp: NewControl_def target_of_def map_of_eq_None_iff dest!: map_of_SomeD) force+

lemma target_valid:
  assumes "validateEntrypoints [] es = None" and "e \<in> set es"
  shows "ut_address (target_of e) \<noteq> ''''" and "\<exists>fs. unlock_frames (target_of e) = Some fs"
    and "1 \<le> unlock_duration (target_of e)" and "unlock_duration (target_of e) \<le> MaxUnlockDurationMS"
  using validateEntrypoints_each [OF assms] by (auto simp: target_of_def unlock_frames_def unlock_duration_def)

text \<open>The frames of an unlock on a connection, and what a result says about them.\<close>

lemma unlock_sends:
  assumes "Control_Unlock sha now c dialled r i cancelled = (x, r')" and "fr_sent r = []" and "ctl_password c = ''''"
    and "ctl_entrypoints c i = Some t" and "ut_address t \<noteq> ''''" and "unlock_frames t = Some (f, g)"
    and "1 \<le> unlock_duration t" and "unlock_duration t \<le> MaxUnlockDurationMS"
  shows "prefix (fr_sent r') [FrameSessionStartCmd, f, g] \<and> (x = Ok () \<longrightarrow> fr_sent r' = [FrameSessionStartCmd, f, g] \<and> \<not> cancelled) \<and>
         (cancelled \<longrightarrow> prefix (fr_sent r') [FrameSessionStartCmd, f])"
proof -
  let ?fn = "\<lambda>r. case send r f [FrameACK] of (Inl e, r) \<Rightarrow> (Err e, r)
             | (Inr _, r) \<Rightarrow> if cancelled then (Err UnlockCancelled, r) else send r g [FrameACK]"
  have e: "control_exec sha now c dialled r ?fn = (x, r')" using assms by (simp add: Control_Unlock_def)
  from exec_sends [OF this assms(2,3)] show ?thesis
  proof
    assume "\<exists>r1. fr_sent r1 = [FrameSessionStartCmd] \<and> ?fn r1 = (x, r')"
    then obtain r1 where r1: "fr_sent r1 = [FrameSessionStartCmd]" "?fn r1 = (x, r')" by blast
    obtain y r2 where s: "send r1 f [FrameACK] = (y, r2)" by fastforce
    note a = send_sends [OF s]
    show ?thesis
    proof (cases "y = Ok () \<and> \<not> cancelled")
      case True
      then have "send r2 g [FrameACK] = (x, r')" using r1(2) s by simp
      from send_sends [OF this] a True r1(1) show ?thesis by (auto simp: sends_def)
    next
      case False
      then have "r' = r2" "x \<noteq> Ok ()" using r1(2) s by (auto split: sum.splits)
      then show ?thesis using a r1(1) by (auto simp: sends_def)
    qed
  next
    assume "(\<forall>y. x \<noteq> Ok y) \<and> prefix (fr_sent r') [FrameSessionStartCmd]"
    then show ?thesis by (auto simp: prefix_Cons)
  qed
qed


section \<open>The challenge\<close>

definition two_digits :: "nat \<Rightarrow> string" where
  "two_digits n = [char_of (n div 10 + 48), char_of (n mod 10 + 48)]"

lemma nibble:
  assumes "n < 16"
  shows "hex_val (hex_digit n) = Some n" "(if n < 10 then ''0'' else '''') @ fmt_nat n = two_digits n"
    "atoi (two_digits n) = Some (int n)" "fmt_02x (int n) = [CHR ''0'', hex_digit n]"
proof -
  show "hex_val (hex_digit n) = Some n" using assms by (rule hex_val_hex_digit)
  have z: "char_of (48 :: nat) = CHR ''0''" by code_simp
  show "(if n < 10 then ''0'' else '''') @ fmt_nat n = two_digits n"
  proof (cases "n < 10")
    case False
    then have "n div 10 = 1" using assms by simp
    then show ?thesis using False by (simp add: two_digits_def fmt_nat.simps [of n] fmt_nat.simps [of "Suc 0"])
  qed (simp add: two_digits_def fmt_nat.simps z)
  have d: "is_digit (char_of (k + 48))" "byte_of (char_of (k + 48)) = k + 48" if "k < 10" for k :: nat
    using that by (simp_all add: is_digit_def byte_of_digit)
  have n: "n div 10 < 10" "n mod 10 < 10" using assms by simp_all
  then have "digits_val 0 (two_digits n) = Some n" by (simp add: two_digits_def d)
  moreover have "is_digit (char_of (n div 10 + 48))" using n(1) by (rule d)
  ultimately show "atoi (two_digits n) = Some (int n)"
    unfolding atoi_def two_digits_def by (auto simp del: digits_val.simps)
  show "fmt_02x (int n) = [CHR ''0'', hex_digit n]" using assms by (simp add: fmt_02x_def fmt_hex.simps Let_def)
qed

lemma hexToDigit_nibbles: "list_all (\<lambda>n. n < 16) ns \<Longrightarrow> hexToDigit (map hex_digit ns) = concat (map two_digits ns)"
  by (induction ns) (auto simp: hexToDigit_def nibble)

lemma challenge_digits_nibbles:
  assumes "list_all (\<lambda>n. n < 16) ns" and "even (length ns)"
  shows "challenge_digits (concat (map two_digits ns)) = Some (concat (map (\<lambda>n. [CHR ''0'', hex_digit n]) ns))"
  using assms
proof (induction ns rule: induct_list012)
  case (3 m n ns)
  have "atoi (two_digits m) = Some (int m)" "atoi (two_digits n) = Some (int n)" using "3.prems"(1) nibble by simp_all
  then show ?case using 3 by (simp add: two_digits_def nibble)
qed simp_all

text \<open>
  Reading back the digits the client itself would send for a number in hexadecimal does not give that number: every digit
  comes back as two.
\<close>

theorem challenge_comes_back_padded:
  assumes "list_all (\<lambda>n. n < 16) ns" and "even (length ns)" and "ns \<noteq> []"
  shows "challengeToHex (''*#'' @ hexToDigit (map hex_digit ns) @ ''##'') = Ok (concat (map (\<lambda>n. [CHR ''0'', hex_digit n]) ns))"
proof -
  let ?d = "hexToDigit (map hex_digit ns)"
  have d: "?d = concat (map two_digits ns)" using hexToDigit_nibbles [OF assms(1)] .
  have "length ?d = 2 * length ns" unfolding d by (induction ns) (simp_all add: two_digits_def)
  then have l: "?d \<noteq> ''''" "length ?d mod 4 = 0" using assms(2,3) by (auto elim!: evenE)
  have t: "trim_suffix (trim_prefix (''*#'' @ ?d @ ''##'') ''*#'') ''##'' = ?d"
    using trim_prefix_append [of "''*#''" "?d @ ''##''"] trim_suffix_append [of ?d "''##''"] by metis
  have p: "has_prefix (''*#'' @ ?d @ ''##'') ''*#''" "has_suffix (''*#'' @ ?d @ ''##'') ''##''"
    using has_prefix_append [of "''*#''"] has_suffix_append [of "''*#'' @ ?d" "''##''"] by (metis append_assoc)+
  show ?thesis
    using l p challenge_digits_nibbles [OF assms(1,2)] unfolding challengeToHex_def t Let_def by (simp add: d)
qed

section \<open>Properties\<close>

text \<open>
  C38. However the bytes of a connection are cut into reads, the client reads the frames that were sent, in their order: for
  frames that contain two number signs only at their end, which the commands, acknowledgements and status frames are, and
  that fit into the buffer of the reader.
\<close>

theorem frames_survive_chunking:
  assumes "list_all (\<lambda>f. good_frame f \<and> length f \<le> 3969) fs"
    and "list_all (\<lambda>d. length d \<le> 128) ds" and "concat ds = concat fs"
    and "fr_pending r = ''''" and "fr_reads r = map Data ds"
  shows "read_frames (length fs) r = fs"
  using read_frames_chunks [OF assms(1,2), of r] assms(3,4,5) by simp

theorem frames_survive_chunking_witness:
  "read_frames 2 \<lparr>fr_pending = '''', fr_reads = map Data [''*#*1'', ''##*#8**33*'', '''', ''0##''], fr_writes = [], fr_deadlines = [], fr_sent = []\<rparr>
     = [FrameACK, FrameAudioMuted]"
proof -
  have "list_all (\<lambda>f. good_frame f \<and> length f \<le> 3969) [FrameACK, FrameAudioMuted]" by code_simp
  from frames_survive_chunking [OF this, of "[''*#*1'', ''##*#8**33*'', '''', ''0##'']"] show ?thesis by (simp add: numeral_2_eq_2)
qed

text \<open>
  C39. Asking the intercom for a stream ends, whatever the intercom and the probe answer: at most 61 requests go out, the
  first one and one for each of the 60 delays in the retry window. A start that succeeds has seen the stream flow, before any
  request or after one that was acknowledged or found packets; one that fails says why.
\<close>

theorem av_requests_bounded:
  "snd (startStream env flowing) \<le> 61 \<and>
   (fst (startStream env flowing) = Ok () \<longrightarrow>
      flowing \<or> (\<exists>k < 61. attempt_tried (env k) \<and> waitForFlow (at_first (env k)) (at_ticks (env k)) (at_final (env k)))) \<and>
   fst (startStream env flowing) \<noteq> Err None"
  using av_loop_bounds [of 0 0 env None] by (auto simp: startStream_def)

definition silent_attempt :: av_attempt where
  "silent_attempt = \<lparr>at_cancelled = False, at_exchange = \<lparr>ex_dialled = True, ex_deadline = True, ex_written = True, ex_reply = Some FrameNACK\<rparr>,
     at_flowing = False, at_first = False, at_ticks = [], at_final = False, at_elapsed = 0\<rparr>"

definition flowing_attempt :: av_attempt where
  "flowing_attempt = silent_attempt\<lparr>at_exchange := \<lparr>ex_dialled = True, ex_deadline = True, ex_written = True, ex_reply = Some (FrameACK @ FrameACK)\<rparr>,
     at_ticks := [False, True]\<rparr>"

theorem av_requests_bounded_witness:
  "\<exists>k < 61 :: nat. attempt_tried ((\<lambda>n. if n = 0 then silent_attempt else flowing_attempt) k) \<and>
     startStream (\<lambda>n. if n = 0 then silent_attempt else flowing_attempt) False = (Ok (), 2)"
proof -
  let ?env = "\<lambda>n :: nat. if n = 0 then silent_attempt else flowing_attempt"
  have x: "exchange (at_exchange silent_attempt) = Ok False" "exchange (at_exchange flowing_attempt) = Ok True" by code_simp+
  have w: "waitForFlow (at_first flowing_attempt) (at_ticks flowing_attempt) (at_final flowing_attempt)" by code_simp
  have s: "startStream ?env False = (Ok (), 2)"
    using x w by (simp add: startStream_def av_loop.simps [of _ 0] av_loop.simps [of _ "Suc 0"] attempt_tried_def attempt_error_def
                     retryWindow_def retryDelay_def numeral_2_eq_2 Let_def silent_attempt_def flowing_attempt_def)
  then obtain k where "k < 61" "attempt_tried (?env k)" using av_requests_bounded [of ?env False] by auto
  then show ?thesis using s by blast
qed

text \<open>
  C37. The lock of a configured entrypoint. With entrypoints that passed the validation of the configuration, an unlock writes
  the session start, the open frame and the close frame of that entrypoint and nothing else, each at most once and in
  this order; when it succeeds it wrote all three; an unlock that is cancelled while the lock is open writes no close frame
  and fails. Only an unknown entrypoint is refused before anything is written.
\<close>

theorem unlock_in_order:
  assumes "validateEntrypoints [] es = None" and "fresh_connection r"
    and "Control_Unlock sha now (NewControl es) dialled r i cancelled = (x, r')"
  shows "if i \<in> ep_id ` set es
         then \<exists>e\<in>set es. \<exists>f g. ep_id e = i \<and> unlock_frames (target_of e) = Some (f, g) \<and>
                prefix (fr_sent r') [FrameSessionStartCmd, f, g] \<and>
                (x = Ok () \<longrightarrow> fr_sent r' = [FrameSessionStartCmd, f, g] \<and> \<not> cancelled) \<and>
                (cancelled \<longrightarrow> prefix (fr_sent r') [FrameSessionStartCmd, f])
         else x = Err UnknownEntrypoint \<and> r' = r"
proof (cases "i \<in> ep_id ` set es")
  case True
  then obtain t where t: "ctl_entrypoints (NewControl es) i = Some t" using NewControl_targets(2) by fastforce
  then obtain e where e: "e \<in> set es" "ep_id e = i" "t = target_of e" using NewControl_targets(1) by blast
  obtain f g where f: "unlock_frames (target_of e) = Some (f, g)" using target_valid(2) [OF assms(1) e(1)] by auto
  have s: "fr_sent r = []" "ctl_password (NewControl es) = ''''" using assms(2) by (simp_all add: fresh_connection_def NewControl_def)
  note v = target_valid [OF assms(1) e(1)]
  from unlock_sends [OF assms(3) s t] f v e(3) show ?thesis using True e(1,2) by auto
next
  case False
  then have "ctl_entrypoints (NewControl es) i = None" using NewControl_targets(2) by blast
  then show ?thesis using False assms(3) by (simp add: Control_Unlock_def)
qed


definition sample_lock :: Entrypoint where
  "sample_lock = \<lparr>ep_id = ''door'', Label = ''Door'', DevAddr = ''20'', Caps = \<lparr>Stream = False, Unlock = True, Ring = False\<rparr>, UnlockMode = '''', UnlockDurationMS = 0\<rparr>"

theorem unlock_in_order_witness:
  "let r = \<lparr>fr_pending = '''', fr_reads = [Data FrameACK, Data FrameACK, ReadEnds ReadTimedOut, Data FrameACK], fr_writes = [], fr_deadlines = [], fr_sent = []\<rparr>;
       u = Control_Unlock id 0 (NewControl [sample_lock]) True r ''door'' False in
     fst u = Ok () \<and> fr_sent (snd u) = [FrameSessionStartCmd, ''*8*19*20##'', ''*8*20*20##'']"
proof -
  let ?r = "\<lparr>fr_pending = '''', fr_reads = [Data FrameACK, Data FrameACK, ReadEnds ReadTimedOut, Data FrameACK], fr_writes = [], fr_deadlines = [], fr_sent = []\<rparr>"
  let ?u = "Control_Unlock id 0 (NewControl [sample_lock]) True ?r ''door'' False"
  have v: "validateEntrypoints [] [sample_lock] = None" by code_simp
  have f: "fresh_connection ?r" by (simp add: fresh_connection_def)
  have ok: "fst ?u = Ok ()" by code_simp
  have frames: "unlock_frames (target_of sample_lock) = Some (''*8*19*20##'', ''*8*20*20##'')" by code_simp
  have "''door'' \<in> ep_id ` set [sample_lock]" by (simp add: sample_lock_def)
  with unlock_in_order [OF v f surjective_pairing [of ?u]] ok frames show ?thesis by (simp only: Let_def) auto
qed

end
