(* ===== verification/Sig_Sdp.thy ===== *)
theory Sig_Sdp
  imports Go_Prelude "HOL-Library.Word"
begin

text \<open>
  The session descriptions (\<^verbatim>\<open>internal/signaling/sdp.go\<close>), the media keepalive
  (\<^verbatim>\<open>internal/signaling/keepalive.go\<close>) and the discovery of the SIP domain
  (\<^verbatim>\<open>internal/signaling/profile.go\<close>). The random keys are arguments, the parser of IP addresses is a parameter,
  and of the keepalive the packets are modelled, with their counters at the width they have; encryption and sockets give the outcome of each
  write. Files are what a function says of their paths.
\<close>

section \<open>Fields, lines and base64\<close>

abbreviation LF :: char where "LF \<equiv> CHR 0x0A"
abbreviation CR :: char where "CR \<equiv> CHR 0x0D"

text \<open>\<^verbatim>\<open>strings.Fields\<close>; the first argument is the field being read.\<close>

fun fields_from :: "string \<Rightarrow> string \<Rightarrow> string list" where
  "fields_from w [] = (if w = [] then [] else [w])"
| "fields_from w (c # cs) =
     (case space_at_start (c # cs) of
        None \<Rightarrow> fields_from (w @ [c]) cs
      | Some k \<Rightarrow> (if w = [] then [] else [w]) @ fields_from [] (drop (k - 1) cs))"

definition string_fields :: "string \<Rightarrow> string list" where
  "string_fields s = fields_from [] s"

text \<open>\<^verbatim>\<open>base64.StdEncoding\<close>: decoding skips carriage returns and newlines and demands the padding.\<close>

definition b64_digit :: "nat \<Rightarrow> char" where
  "b64_digit n =
     (if n < 26 then char_of (n + 65) else if n < 52 then char_of (n + 71) else if n < 62 then char_of (n - 4)
      else if n = 62 then CHR ''+'' else CHR ''/'')"

definition b64_val :: "char \<Rightarrow> nat option" where
  "b64_val c =
     (let b = byte_of c in
      if 65 \<le> b \<and> b \<le> 90 then Some (b - 65)
      else if 97 \<le> b \<and> b \<le> 122 then Some (b - 71)
      else if 48 \<le> b \<and> b \<le> 57 then Some (b + 4)
      else if c = CHR ''+'' then Some 62
      else if c = CHR ''/'' then Some 63
      else None)"

fun b64_encode :: "nat list \<Rightarrow> string" where
  "b64_encode [] = []"
| "b64_encode [a] = [b64_digit (a div 4), b64_digit ((a mod 4) * 16), CHR ''='', CHR ''='']"
| "b64_encode [a, b] = [b64_digit (a div 4), b64_digit ((a mod 4) * 16 + b div 16), b64_digit ((b mod 16) * 4), CHR ''='']"
| "b64_encode (a # b # c # bs) =
     [b64_digit (a div 4), b64_digit ((a mod 4) * 16 + b div 16), b64_digit ((b mod 16) * 4 + c div 64), b64_digit (c mod 64)] @
     b64_encode bs"

fun b64_groups :: "string \<Rightarrow> nat list option" where
  "b64_groups [] = Some []"
| "b64_groups [c1, c2, c3, c4] =
     (case (b64_val c1, b64_val c2) of
        (Some v1, Some v2) \<Rightarrow>
          if c3 = CHR ''='' \<and> c4 = CHR ''='' then Some [v1 * 4 + v2 div 16]
          else
            (case b64_val c3 of
               None \<Rightarrow> None
             | Some v3 \<Rightarrow>
                 if c4 = CHR ''='' then Some [v1 * 4 + v2 div 16, (v2 mod 16) * 16 + v3 div 4]
                 else map_option (\<lambda>v4. [v1 * 4 + v2 div 16, (v2 mod 16) * 16 + v3 div 4, (v3 mod 4) * 64 + v4]) (b64_val c4))
      | _ \<Rightarrow> None)"
| "b64_groups (c1 # c2 # c3 # c4 # cs) =
     (case (b64_val c1, b64_val c2, b64_val c3, b64_val c4, b64_groups cs) of
        (Some v1, Some v2, Some v3, Some v4, Some bs) \<Rightarrow>
          Some ([v1 * 4 + v2 div 16, (v2 mod 16) * 16 + v3 div 4, (v3 mod 4) * 64 + v4] @ bs)
      | _ \<Rightarrow> None)"
| "b64_groups _ = None"

definition b64_decode :: "string \<Rightarrow> nat list option" where
  "b64_decode s = b64_groups (filter (\<lambda>c. c \<noteq> CR \<and> c \<noteq> LF) s)"

section \<open>Session descriptions\<close>

definition AudioSDPPort :: int where "AudioSDPPort = 65000"
definition VideoSDPPort :: int where "VideoSDPPort = 65002"
definition sdesSuite :: string where "sdesSuite = ''AES_CM_128_HMAC_SHA1_80''"
definition sdesKeyLength :: nat where "sdesKeyLength = 30"

definition sessionLines :: "string \<Rightarrow> string \<Rightarrow> string \<Rightarrow> string list" where
  "sessionLines host sessionID sessionVersion =
     (let host = trim_space host; host = (if host = '''' \<or> host = ''0.0.0.0'' then ''127.0.0.1'' else host) in
      [''v=0'', ''o=companion '' @ sessionID @ '' '' @ sessionVersion @ '' IN IP4 '' @ host, ''s=Companion'', ''c=IN IP4 '' @ host,
       ''t=0 0''])"

text \<open>The key is what \<^verbatim>\<open>rand.Read\<close> gives.\<close>

definition cryptoLine :: "nat list \<Rightarrow> string" where
  "cryptoLine key = ''a=crypto:1 '' @ sdesSuite @ '' inline:'' @ b64_encode key"

definition mediaLines :: "nat list \<Rightarrow> nat list \<Rightarrow> string list" where
  "mediaLines audioKey videoKey =
     [''m=audio '' @ fmt_d AudioSDPPort @ '' RTP/SAVP 110'', ''a=rtpmap:110 speex/8000'', cryptoLine audioKey,
      ''m=video '' @ fmt_d VideoSDPPort @ '' RTP/SAVP 96'', ''a=rtpmap:96 H264/90000'', ''a=fmtp:96 profile-level-id=42801F'',
      cryptoLine videoKey, ''a=recvonly'']"

definition build_sdp :: "string \<Rightarrow> string \<Rightarrow> string \<Rightarrow> string \<Rightarrow> nat list \<Rightarrow> nat list \<Rightarrow> string" where
  "build_sdp sessionID sessionVersion host devAddr audioKey videoKey =
     (let devAddr = trim_space devAddr;
          lines = sessionLines host sessionID sessionVersion @
                  (if devAddr \<noteq> '''' then [''a=DEVADDR:'' @ devAddr] else []) @ mediaLines audioKey videoKey in
      join [CR, LF] lines @ [CR, LF])"

definition BuildOffer :: "string \<Rightarrow> string \<Rightarrow> nat list \<Rightarrow> nat list \<Rightarrow> string" where
  "BuildOffer host devAddr = build_sdp ''3748'' ''462'' host devAddr"

definition BuildAnswer :: "string \<Rightarrow> string \<Rightarrow> nat list \<Rightarrow> nat list \<Rightarrow> string" where
  "BuildAnswer host devAddr = build_sdp ''3747'' ''461'' host devAddr"

definition parseConnectionHost :: "string \<Rightarrow> string" where
  "parseConnectionHost line =
     (if \<not> has_prefix line ''c='' then ''''
      else
        (case string_fields (drop 2 line) of
           _ # _ # f # _ \<Rightarrow> trim_space (case cut ''/'' f of None \<Rightarrow> f | Some (before, _) \<Rightarrow> before)
         | _ \<Rightarrow> ''''))"

record target_state =
  ts_sessionHost :: string
  ts_mediaHost :: string
  ts_port :: int
  ts_inAudio :: bool
  ts_found :: bool

text \<open>One line of the loop of \<^verbatim>\<open>parseRemoteAudioTarget\<close>.\<close>

definition target_line :: "string \<Rightarrow> target_state \<Rightarrow> target_state" where
  "target_line raw s =
     (let line = trim_space raw in
      if has_prefix line ''m='' then
        (if ts_found s then s\<lparr>ts_inAudio := False\<rparr>
         else
           (case string_fields (drop 2 line) of
              f # p # _ \<Rightarrow>
                if f \<noteq> ''audio'' then s\<lparr>ts_inAudio := False\<rparr>
                else
                  (case atoi p of
                     None \<Rightarrow> s\<lparr>ts_inAudio := False\<rparr>
                   | Some n \<Rightarrow>
                       if n \<le> 0 \<or> n > 65535 then s\<lparr>ts_inAudio := False\<rparr>
                       else s\<lparr>ts_inAudio := True, ts_port := n, ts_found := True\<rparr>)
            | _ \<Rightarrow> s\<lparr>ts_inAudio := False\<rparr>))
      else if has_prefix line ''c='' then
        (let host = parseConnectionHost line in
         if ts_inAudio s then s\<lparr>ts_mediaHost := host\<rparr>
         else if \<not> ts_found s then s\<lparr>ts_sessionHost := host\<rparr>
         else s)
      else s)"

datatype sdp_error = errNoRemoteAudioTarget

text \<open>\<open>parse_ip\<close> is \<^verbatim>\<open>net.ParseIP\<close>, \<open>unspecified\<close> the method \<^verbatim>\<open>IsUnspecified\<close>.\<close>

definition parseRemoteAudioTarget ::
  "(string \<Rightarrow> 'ip option) \<Rightarrow> ('ip \<Rightarrow> bool) \<Rightarrow> string \<Rightarrow> (sdp_error, 'ip \<times> int) result" where
  "parseRemoteAudioTarget parse_ip unspecified sdp =
     (let s = fold target_line (split_char LF sdp)
                \<lparr>ts_sessionHost = '''', ts_mediaHost = '''', ts_port = 0, ts_inAudio = False, ts_found = False\<rparr>;
          host = (if ts_mediaHost s = '''' then ts_sessionHost s else ts_mediaHost s) in
      if \<not> ts_found s \<or> host = '''' then Err errNoRemoteAudioTarget
      else
        (case parse_ip host of
           None \<Rightarrow> Err errNoRemoteAudioTarget
         | Some ip \<Rightarrow> if unspecified ip then Err errNoRemoteAudioTarget else Ok (ip, ts_port s)))"

text \<open>The loop of \<^verbatim>\<open>parseAudioCrypto\<close>; the flag says whether the lines belong to the audio section.\<close>

fun audio_crypto :: "bool \<Rightarrow> string list \<Rightarrow> nat list option" where
  "audio_crypto inAudio [] = None"
| "audio_crypto inAudio (raw # raws) =
     (let line = trim_space raw in
      if has_prefix line ''m='' then
        (if inAudio then None
         else audio_crypto (case string_fields (drop 2 line) of f # _ \<Rightarrow> f = ''audio'' | [] \<Rightarrow> False) raws)
      else if \<not> inAudio \<or> \<not> has_prefix line ''a=crypto:'' then audio_crypto inAudio raws
      else
        (case string_fields line of
           _ # suite # k # _ \<Rightarrow>
             if suite \<noteq> sdesSuite \<or> \<not> has_prefix k ''inline:'' then audio_crypto inAudio raws
             else
               let inline = trim_prefix k ''inline:'';
                   inline = (case cut ''|'' inline of None \<Rightarrow> inline | Some (before, _) \<Rightarrow> before) in
               (case b64_decode inline of
                  Some key \<Rightarrow> if length key = sdesKeyLength then Some key else audio_crypto inAudio raws
                | None \<Rightarrow> audio_crypto inAudio raws)
         | _ \<Rightarrow> audio_crypto inAudio raws))"

definition parseAudioCrypto :: "string \<Rightarrow> nat list option" where
  "parseAudioCrypto sdp = audio_crypto False (split_char LF sdp)"

section \<open>The media keepalive\<close>

definition mediaKeepaliveInterval :: duration where "mediaKeepaliveInterval = 5 * second"
definition keepaliveClockRate :: int where "keepaliveClockRate = 8000"

record keepalive_packet =
  kp_seq :: "16 word"
  kp_timestamp :: "32 word"

record rtpKeepalive =
  ka_packet :: keepalive_packet
  ka_step :: "32 word"
  ka_warned :: bool
  ka_sent :: "keepalive_packet list"
  ka_warnings :: nat

text \<open>\<open>start\<close> are the random start values of the packet.\<close>

definition keepalive_step :: "duration \<Rightarrow> 32 word" where
  "keepalive_step interval = word_of_int (interval div millisecond * keepaliveClockRate div 1000)"

definition new_keepalive :: "duration \<Rightarrow> keepalive_packet \<Rightarrow> rtpKeepalive" where
  "new_keepalive interval start =
     \<lparr>ka_packet = start, ka_step = keepalive_step interval, ka_warned = False, ka_sent = [], ka_warnings = 0\<rparr>"

text \<open>One round: \<open>ok\<close> is whether the packet was marshalled, encrypted and sent.\<close>

definition keepalive_write :: "bool \<Rightarrow> rtpKeepalive \<Rightarrow> rtpKeepalive" where
  "keepalive_write ok k =
     (if ok then
        k\<lparr>ka_sent := ka_sent k @ [ka_packet k],
          ka_packet := \<lparr>kp_seq = kp_seq (ka_packet k) + 1, kp_timestamp = kp_timestamp (ka_packet k) + ka_step k\<rparr>\<rparr>
      else if ka_warned k then k
      else k\<lparr>ka_warned := True, ka_warnings := ka_warnings k + 1\<rparr>)"

datatype keepalive_choice = NoKeepalive | PlainKeepalive | EncryptedKeepalive "nat list"

text \<open>\<^verbatim>\<open>keepaliveSRTP\<close>: the key that encrypts, split into master key and salt by the library.\<close>

definition keepaliveSRTP :: "string \<Rightarrow> string \<Rightarrow> keepalive_choice" where
  "keepaliveSRTP remoteSDP localSDP =
     (case parseAudioCrypto remoteSDP of
        None \<Rightarrow> PlainKeepalive
      | Some _ \<Rightarrow> (case parseAudioCrypto localSDP of None \<Rightarrow> NoKeepalive | Some key \<Rightarrow> EncryptedKeepalive key))"

text \<open>\<^verbatim>\<open>startDialogKeepalive\<close> up to the socket: where to and with which key, or nothing.\<close>

definition startDialogKeepalive ::
  "(string \<Rightarrow> 'ip option) \<Rightarrow> ('ip \<Rightarrow> bool) \<Rightarrow> string \<Rightarrow> string \<Rightarrow> ('ip \<times> int \<times> keepalive_choice) option" where
  "startDialogKeepalive parse_ip unspecified remoteSDP localSDP =
     (case parseRemoteAudioTarget parse_ip unspecified remoteSDP of
        Inl _ \<Rightarrow> None
      | Inr (ip, port) \<Rightarrow>
          (case keepaliveSRTP remoteSDP localSDP of NoKeepalive \<Rightarrow> None | choice \<Rightarrow> Some (ip, port, choice)))"

section \<open>The SIP domain\<close>

text \<open>
  \<^verbatim>\<open>bufio.Scanner\<close>: lines without their line end, up to the first that does not fit into the buffer of 64 KiB, at which it
  stops.
\<close>

definition strip_cr :: "string \<Rightarrow> string" where
  "strip_cr l = trim_suffix l [CR]"

definition scan_lines :: "string \<Rightarrow> string list" where
  "scan_lines content =
     (let ls = split_char LF content; ls = (if last ls = '''' then butlast ls else ls) in
      map strip_cr (takeWhile (\<lambda>l. length l < 65536) ls))"

definition splitNonEmptyLines :: "string \<Rightarrow> string list" where
  "splitNonEmptyLines content = filter (\<lambda>l. l \<noteq> '''') (map trim_space (scan_lines content))"

definition parseKVLine :: "string \<Rightarrow> string \<Rightarrow> string option" where
  "parseKVLine line key =
     (let trimmed = trim_space line in
      if trimmed = '''' \<or> has_prefix trimmed ''#'' then None
      else if \<not> has_prefix trimmed (key @ ''='') then None
      else
        let val = trim_space (trim_prefix trimmed (key @ ''='')) in
        if val = '''' then None
        else if CHR '' '' \<in> set val then Some (hd (string_fields val))
        else Some val)"

fun readFirstExistingFile :: "(string \<Rightarrow> string option) \<Rightarrow> string list \<Rightarrow> string option" where
  "readFirstExistingFile files [] = None"
| "readFirstExistingFile files (p # ps) = (case files p of Some body \<Rightarrow> Some body | None \<Rightarrow> readFirstExistingFile files ps)"

fun first_some :: "('a \<Rightarrow> 'b option) \<Rightarrow> 'a list \<Rightarrow> 'b option" where
  "first_some f [] = None"
| "first_some f (x # xs) = (case f x of Some y \<Rightarrow> Some y | None \<Rightarrow> first_some f xs)"

definition domain_of_line :: "string \<Rightarrow> string option" where
  "domain_of_line line = first_some (parseKVLine line) [''aliases'', ''reg-domains'', ''auth-domains'']"

definition DiscoverFlexisipDomain :: "(string \<Rightarrow> string option) \<Rightarrow> string" where
  "DiscoverFlexisipDomain files =
     (case Option.bind (readFirstExistingFile files [''/etc/flexisip/domain-registration.conf''])
             (\<lambda>body. first_some (\<lambda>l. case string_fields l of [] \<Rightarrow> None | f # _ \<Rightarrow> Some (trim_space f)) (splitNonEmptyLines body)) of
        Some domain \<Rightarrow> domain
      | None \<Rightarrow>
          (case first_some
                  (\<lambda>path. Option.bind (files path) (\<lambda>body. first_some domain_of_line (splitNonEmptyLines body)))
                  [''/etc/flexisip/flexisip.conf'', ''/home/bticino/cfg/flexisip.conf''] of
             Some domain \<Rightarrow> domain
           | None \<Rightarrow> ''''))"


section \<open>Lemmas on fields\<close>

lemma space_at_start_blank [simp]: "space_at_start (CHR '' '' # s) = Some 1"
  by (simp add: space_at_start_def space_seqs_def)

lemma fields_from_word:
  assumes "list_all plain u"
  shows "fields_from w u = (if w @ u = [] then [] else [w @ u])"
    and "fields_from w (u @ CHR '' '' # s) = (if w @ u = [] then [] else [w @ u]) @ fields_from [] s"
  using assms
proof (induction u arbitrary: w)
  case (Cons c u)
  { case 1
    then have "space_at_start (c # u) = None" by (simp add: space_at_start_plain)
    then show ?case using Cons.IH(1) [of "w @ [c]"] 1 by simp }
  { case 2
    then have "space_at_start (c # u @ CHR '' '' # s) = None" by (simp add: space_at_start_plain)
    then show ?case using Cons.IH(2) [of "w @ [c]"] 2 by simp }
qed simp_all

lemma string_fields_word:
  "list_all plain u \<Longrightarrow> u \<noteq> [] \<Longrightarrow> string_fields u = [u]"
  "list_all plain u \<Longrightarrow> u \<noteq> [] \<Longrightarrow> string_fields (u @ CHR '' '' # s) = u # string_fields s"
  by (simp_all add: string_fields_def fields_from_word)

lemma trim_space_CR:
  assumes "l \<noteq> []" and "plain (hd l)" and "plain (last l)"
  shows "trim_space (l @ [CR]) = l"
proof -
  have "space_at_start (l @ [CR]) = None" using assms(1,2) by (auto intro: space_at_start_plain)
  moreover have "space_at_end (l @ [CR]) = Some 1" by (simp add: space_at_end_def space_seqs_def has_suffix_def)
  moreover have "space_at_end l = None" using assms by (simp add: space_at_end_plain)
  ultimately show ?thesis by (simp add: trim_space_def trim_left_def trim_right_def trim_left_fuel_None trim_right_fuel_None)
qed

lemma split_lines:
  assumes "ls \<noteq> []" and "list_all (\<lambda>l. LF \<notin> set l) ls"
  shows "split_char LF (join [CR, LF] ls @ [CR, LF]) = map (\<lambda>l. l @ [CR]) ls @ [[]]"
  using assms
proof (induction ls rule: induct_list012)
  case (2 l)
  then show ?case using split_char_append [of LF "l @ [CR]" "[]"] by simp
next
  case (3 l k ls)
  then show ?case using split_char_append [of LF "l @ [CR]" "join [CR, LF] (k # ls) @ [CR, LF]"] by simp
qed simp

section \<open>Base64\<close>

lemma b64_val_digit:
  assumes "n < 64"
  shows "b64_val (b64_digit n) = Some n"
proof -
  have b: "byte_of (char_of k) = k" if "k < 256" for k :: nat using that by (simp add: byte_of_def)
  consider "n < 26" | "26 \<le> n" "n < 52" | "52 \<le> n" "n < 62" | "n = 62" | "n = 63" using assms by linarith
  then show ?thesis by cases (auto simp: b64_val_def b64_digit_def b Let_def byte_of_def)
qed

lemma b64_digit_plain:
  assumes "n < 64"
  shows "plain (b64_digit n)" "b64_digit n \<noteq> CHR ''=''" "b64_digit n \<noteq> CHR ''|''"
proof -
  have b: "byte_of (char_of k) = k" if "k < 256" for k :: nat using that by (simp add: byte_of_def)
  have v: "b64_val (CHR ''='') = None" "b64_val (CHR ''|'') = None" by (simp_all add: b64_val_def byte_of_def)
  consider "n < 26" | "26 \<le> n" "n < 52" | "52 \<le> n" "n < 62" | "n = 62" | "n = 63" using assms by linarith
  then show "plain (b64_digit n)" by cases (auto simp: plain_def b64_digit_def b byte_of_def)
  show "b64_digit n \<noteq> CHR ''=''" "b64_digit n \<noteq> CHR ''|''" using b64_val_digit [OF assms] v by fastforce+
qed

lemma b64_sextets:
  fixes a b c :: nat
  assumes "a < 256" "b < 256" "c < 256"
  shows "a div 4 < 64" "(a mod 4) * 16 + b div 16 < 64" "(b mod 16) * 4 + c div 64 < 64" "c mod 64 < 64"
    "((a mod 4) * 16 + b div 16) div 16 = a mod 4" "((a mod 4) * 16 + b div 16) mod 16 = b div 16"
    "((b mod 16) * 4 + c div 64) div 4 = b mod 16" "((b mod 16) * 4 + c div 64) mod 4 = c div 64"
proof -
  have "a div 4 < 64" "a mod 4 < 4" "b div 16 < 16" "b mod 16 < 16" "c div 64 < 4" "c mod 64 < 64" using assms by auto
  then show "a div 4 < 64" "(a mod 4) * 16 + b div 16 < 64" "(b mod 16) * 4 + c div 64 < 64" "c mod 64 < 64"
    "((a mod 4) * 16 + b div 16) div 16 = a mod 4" "((a mod 4) * 16 + b div 16) mod 16 = b div 16"
    "((b mod 16) * 4 + c div 64) div 4 = b mod 16" "((b mod 16) * 4 + c div 64) mod 4 = c div 64" by simp_all
qed

lemma b64_encode_nonempty: "bs \<noteq> [] \<Longrightarrow> b64_encode bs \<noteq> []"
  by (cases bs rule: b64_encode.cases) auto

lemma b64_groups_encode: "list_all (\<lambda>b. b < 256) bs \<Longrightarrow> b64_groups (b64_encode bs) = Some bs"
proof (induction bs rule: b64_encode.induct)
  case (2 a)
  then show ?case using b64_sextets [of a 0 0] by (simp add: b64_val_digit)
next
  case (3 a b)
  then show ?case using b64_sextets [of a b 0] by (simp add: b64_val_digit b64_digit_plain)
next
  case (4 a b c bs)
  then have n: "a < 256" "b < 256" "c < 256" by simp_all
  note s = b64_sextets [OF n]
  have e: "a div 4 * 4 + a mod 4 = a" "b div 16 * 16 + b mod 16 = b" "c div 64 * 64 + c mod 64 = c" by simp_all
  show ?case
  proof (cases bs)
    case Nil
    then show ?thesis using s by (simp add: b64_val_digit b64_digit_plain)
  next
    case (Cons x xs)
    then obtain y ys where y: "b64_encode bs = y # ys" using b64_encode_nonempty [of bs] by (cases "b64_encode bs") auto
    show ?thesis using 4 s y by (simp add: b64_val_digit)
  qed
qed simp

lemma b64_pad: "plain CHR ''=''"
  by (simp add: plain_def byte_of_def)

lemma b64_clean: "n < 64 \<Longrightarrow> plain (b64_digit n) \<and> b64_digit n \<noteq> CHR ''|'' \<and> CHR ''|'' \<noteq> b64_digit n"
  using b64_digit_plain by metis

lemma b64_encode_plain: "list_all (\<lambda>b. b < 256) bs \<Longrightarrow> list_all plain (b64_encode bs) \<and> CHR ''|'' \<notin> set (b64_encode bs)"
proof (induction bs rule: b64_encode.induct)
  case (2 a)
  then show ?case using b64_clean [of "a div 4"] b64_clean [of "(a mod 4) * 16"] b64_pad by auto
next
  case (3 a b)
  then show ?case
    using b64_clean [of "a div 4"] b64_clean [of "(a mod 4) * 16 + b div 16"] b64_clean [of "(b mod 16) * 4"] b64_pad
      b64_sextets [of a b 0] by auto
next
  case (4 a b c bs)
  then show ?case
    using b64_clean [of "a div 4"] b64_clean [of "(a mod 4) * 16 + b div 16"] b64_clean [of "(b mod 16) * 4 + c div 64"]
      b64_clean [of "c mod 64"] b64_sextets [of a b c] by auto
qed simp


section \<open>Reading what was built\<close>

definition line_ok :: "string \<Rightarrow> bool" where
  "line_ok l \<longleftrightarrow> l \<noteq> [] \<and> plain (hd l) \<and> plain (last l)"

lemma line_ok_trim [simp]: "line_ok l \<Longrightarrow> trim_space (l @ [CR]) = l"
  by (simp add: line_ok_def trim_space_CR)

lemma target_other:
  "line_ok l \<Longrightarrow> \<not> has_prefix l ''m='' \<Longrightarrow> \<not> has_prefix l ''c='' \<Longrightarrow> target_line (l @ [CR]) s = s"
  by (simp add: target_line_def)

lemma crypto_other:
  "line_ok l \<Longrightarrow> \<not> has_prefix l ''m='' \<Longrightarrow> \<not> has_prefix l ''a=crypto:'' \<or> \<not> b \<Longrightarrow>
   audio_crypto b ((l @ [CR]) # ls) = audio_crypto b ls"
  by (auto simp: Let_def)

lemma plain_letters [simp]:
  "plain CHR ''a''" "plain CHR ''c''" "plain CHR ''m''" "plain CHR ''o''" "plain CHR ''s''" "plain CHR ''t''" "plain CHR ''v''"
  "plain CHR ''n''" "plain CHR ''F''" "plain CHR ''y''" "plain CHR ''6''" "plain CHR ''I''" "plain CHR ''N''" "plain CHR ''P''" "plain CHR ''4''"
  by (simp_all add: plain_def byte_of_def)

text \<open>A host that is written and read back: printable, without blank and slash.\<close>

definition host_ok :: "string \<Rightarrow> bool" where
  "host_ok h \<longleftrightarrow> h \<noteq> '''' \<and> list_all plain h \<and> CHR ''/'' \<notin> set h"

lemma connection_host:
  assumes "host_ok h"
  shows "parseConnectionHost (''c=IN IP4 '' @ h) = h"
proof -
  have f: "string_fields (''IN'' @ CHR '' '' # ''IP4'' @ CHR '' '' # h) = [''IN'', ''IP4'', h]"
    using assms string_fields_word(2) [of "''IN''" "''IP4'' @ CHR '' '' # h"] string_fields_word(2) [of "''IP4''" h] string_fields_word(1) [of h]
    by (simp add: host_ok_def)
  have "cut ''/'' h = None" using assms cut_SomeD [of "''/''" h] by (cases "cut ''/'' h") (auto simp: host_ok_def)
  then show ?thesis using f assms by (simp add: parseConnectionHost_def host_ok_def trim_space_all_plain)
qed

lemma port_literals: "fmt_d AudioSDPPort = ''65000''" "fmt_d VideoSDPPort = ''65002''" "atoi ''65000'' = Some 65000"
  by (simp_all add: fmt_d_def AudioSDPPort_def VideoSDPPort_def fmt_nat.simps char_of_def bit_0 atoi_def is_digit_def byte_of_def)

lemma audio_fields: "\<exists>fs. string_fields ''audio 65000 RTP/SAVP 110'' = ''audio'' # ''65000'' # fs"
  "\<exists>fs. string_fields ''video 65002 RTP/SAVP 96'' = ''video'' # fs"
  using string_fields_word(2) [of "''audio''" "''65000'' @ CHR '' '' # ''RTP/SAVP 110''"] string_fields_word(2) [of "''65000''" "''RTP/SAVP 110''"]
    string_fields_word(2) [of "''video''" "''65002 RTP/SAVP 96''"]
  by (simp_all add: plain_def byte_of_def)

lemma crypto_line_fields:
  assumes "list_all (\<lambda>b. b < 256) key" and "key \<noteq> []"
  shows "string_fields (cryptoLine key) = [''a=crypto:1'', sdesSuite, ''inline:'' @ b64_encode key]"
proof -
  have p: "list_all plain (''inline:'' @ b64_encode key)" using b64_encode_plain [OF assms(1)] by (simp add: plain_def byte_of_def)
  have s: "list_all plain sdesSuite" "sdesSuite \<noteq> []" "list_all plain ''a=crypto:1''" by code_simp+
  show ?thesis
    using string_fields_word(2) [OF s(3), of "sdesSuite @ CHR '' '' # ''inline:'' @ b64_encode key"]
      string_fields_word(2) [OF s(1,2), of "''inline:'' @ b64_encode key"] string_fields_word(1) [OF p]
    by (simp add: cryptoLine_def)
qed


definition effective_host :: "string \<Rightarrow> string" where
  "effective_host host = (let h = trim_space host in if h = '''' \<or> h = ''0.0.0.0'' then ''127.0.0.1'' else h)"

definition sdp_lines :: "string \<Rightarrow> string \<Rightarrow> string \<Rightarrow> string \<Rightarrow> nat list \<Rightarrow> nat list \<Rightarrow> string list" where
  "sdp_lines sid sver host devAddr k1 k2 =
     sessionLines host sid sver @ (if trim_space devAddr \<noteq> '''' then [''a=DEVADDR:'' @ trim_space devAddr] else []) @ mediaLines k1 k2"

lemma build_sdp_lines: "build_sdp sid sver host devAddr k1 k2 = join [CR, LF] (sdp_lines sid sver host devAddr k1 k2) @ [CR, LF]"
  by (simp add: build_sdp_def sdp_lines_def Let_def)

lemma plain_not_LF: "list_all plain s \<Longrightarrow> LF \<notin> set s"
  by (auto simp: list_all_iff plain_def byte_of_def)

definition key_ok :: "nat list \<Rightarrow> bool" where
  "key_ok key \<longleftrightarrow> length key = 30 \<and> list_all (\<lambda>b. b < 256) key"

lemma cryptoLine_ok:
  assumes "key_ok key"
  shows "line_ok (cryptoLine key)" "LF \<notin> set (cryptoLine key)" "has_prefix (cryptoLine key) ''a=crypto:''"
proof -
  have p: "list_all plain (b64_encode key)" using assms b64_encode_plain by (simp add: key_ok_def)
  have n: "b64_encode key \<noteq> []" using assms b64_encode_nonempty [of key] by (cases key) (auto simp: key_ok_def)
  have "plain (last (b64_encode key))" using p n by (simp add: list_all_iff)
  then show "line_ok (cryptoLine key)" using n by (simp add: cryptoLine_def line_ok_def)
  show "LF \<notin> set (cryptoLine key)" using plain_not_LF [OF p] by (simp add: cryptoLine_def sdesSuite_def)
  show "has_prefix (cryptoLine key) ''a=crypto:''" by (simp add: cryptoLine_def)
qed

text \<open>The lines that may stand in a description, as the readers see them: neither media nor connection.\<close>

definition quiet :: "string \<Rightarrow> bool" where
  "quiet l \<longleftrightarrow> line_ok l \<and> \<not> has_prefix l ''m='' \<and> \<not> has_prefix l ''c=''"

lemma quiet_lines:
  "quiet ''v=0''" "quiet ''s=Companion''" "quiet ''t=0 0''" "quiet ''a=rtpmap:110 speex/8000''" "quiet ''a=rtpmap:96 H264/90000''"
  "quiet ''a=fmtp:96 profile-level-id=42801F''" "quiet ''a=recvonly''"
  by (simp_all add: quiet_def line_ok_def)

lemma quiet_host: "host_ok h \<Longrightarrow> quiet (''o=companion '' @ x @ h)"
  by (auto simp: quiet_def line_ok_def host_ok_def list_all_iff)

lemma quiet_devaddr: "list_all plain d \<Longrightarrow> d \<noteq> '''' \<Longrightarrow> quiet (''a=DEVADDR:'' @ d)"
  by (auto simp: quiet_def line_ok_def list_all_iff)

lemma quiet_target [simp]: "quiet l \<Longrightarrow> target_line (l @ [CR]) s = s"
  by (simp add: quiet_def target_other)


lemma crypto_skips:
  assumes "list_all (\<lambda>l. line_ok l \<and> \<not> has_prefix l ''m='' \<and> (\<not> b \<or> \<not> has_prefix l ''a=crypto:'')) ls"
  shows "audio_crypto b (map (\<lambda>l. l @ [CR]) ls @ rest) = audio_crypto b rest"
  using assms
proof (induction ls)
  case (Cons l ls)
  then show ?case using crypto_other [of l b "map (\<lambda>l. l @ [CR]) ls @ rest"] by simp
qed simp

lemma target_connection:
  assumes "host_ok h" and "\<not> ts_inAudio s" and "\<not> ts_found s"
  shows "target_line ((''c=IN IP4 '' @ h) @ [CR]) s = s\<lparr>ts_sessionHost := h\<rparr>"
proof -
  have "line_ok (''c=IN IP4 '' @ h)" using assms(1) by (auto simp: line_ok_def host_ok_def list_all_iff)
  then have "trim_space ((''c=IN IP4 '' @ h) @ [CR]) = ''c=IN IP4 '' @ h" by (rule line_ok_trim)
  then show ?thesis using connection_host [OF assms(1)] assms(2,3) by (simp add: target_line_def)
qed

lemma target_media:
  shows "\<not> ts_found s \<Longrightarrow> target_line (''m=audio 65000 RTP/SAVP 110'' @ [CR]) s = s\<lparr>ts_inAudio := True, ts_port := 65000, ts_found := True\<rparr>"
    and "ts_found s' \<Longrightarrow> target_line (''m=video 65002 RTP/SAVP 96'' @ [CR]) s' = s'\<lparr>ts_inAudio := False\<rparr>"
proof -
  have l: "trim_space (''m=audio 65000 RTP/SAVP 110'' @ [CR]) = ''m=audio 65000 RTP/SAVP 110''"
    "trim_space (''m=video 65002 RTP/SAVP 96'' @ [CR]) = ''m=video 65002 RTP/SAVP 96''"
    by (rule line_ok_trim; simp add: line_ok_def)+
  obtain fs where f: "string_fields ''audio 65000 RTP/SAVP 110'' = ''audio'' # ''65000'' # fs" using audio_fields by blast
  show "target_line (''m=audio 65000 RTP/SAVP 110'' @ [CR]) s = s\<lparr>ts_inAudio := True, ts_port := 65000, ts_found := True\<rparr>"
    if "\<not> ts_found s"
    unfolding target_line_def l using that f port_literals(3) by simp
  show "ts_found s' \<Longrightarrow> target_line (''m=video 65002 RTP/SAVP 96'' @ [CR]) s' = s'\<lparr>ts_inAudio := False\<rparr>"
    unfolding target_line_def l by simp
qed

lemma crypto_media: "audio_crypto False ((''m=audio 65000 RTP/SAVP 110'' @ [CR]) # ls) = audio_crypto True ls"
proof -
  have l: "trim_space (''m=audio 65000 RTP/SAVP 110'' @ [CR]) = ''m=audio 65000 RTP/SAVP 110''"
    by (rule line_ok_trim) (simp add: line_ok_def)
  obtain fs where "string_fields ''audio 65000 RTP/SAVP 110'' = ''audio'' # ''65000'' # fs" using audio_fields by blast
  then show ?thesis unfolding audio_crypto.simps l by simp
qed

lemma crypto_found:
  assumes "key_ok key"
  shows "audio_crypto True ((cryptoLine key @ [CR]) # ls) = Some key"
proof -
  note c = cryptoLine_ok [OF assms]
  have k: "list_all (\<lambda>b. b < 256) key" "key \<noteq> []" "length key = 30" using assms by (auto simp: key_ok_def)
  note e = b64_encode_plain [OF k(1)]
  have m: "\<not> has_prefix (cryptoLine key) ''m=''" by (simp add: cryptoLine_def)
  have "cut ''|'' (b64_encode key) = None" using e cut_SomeD [of "''|''" "b64_encode key"] by (cases "cut ''|'' (b64_encode key)") auto
  moreover have "filter (\<lambda>c. c \<noteq> CR \<and> c \<noteq> LF) (b64_encode key) = b64_encode key"
    using e by (auto simp: filter_id_conv list_all_iff plain_def byte_of_def)
  then have "b64_decode (b64_encode key) = Some key" using b64_groups_encode [OF k(1)] by (simp add: b64_decode_def)
  ultimately show ?thesis
    using c(1,3) m crypto_line_fields [OF k(1,2)] k(3) trim_prefix_append [of "''inline:''" "b64_encode key"]
    by (simp add: sdesKeyLength_def Let_def)
qed

lemma sdp_lines_eq:
  "sdp_lines sid sver host dev k1 k2 =
     [''v=0'', ''o=companion '' @ (sid @ '' '' @ sver @ '' IN IP4 '') @ effective_host host, ''s=Companion'',
      ''c=IN IP4 '' @ effective_host host, ''t=0 0''] @
     (if trim_space dev \<noteq> '''' then [''a=DEVADDR:'' @ trim_space dev] else []) @
     [''m=audio 65000 RTP/SAVP 110'', ''a=rtpmap:110 speex/8000'', cryptoLine k1, ''m=video 65002 RTP/SAVP 96'',
      ''a=rtpmap:96 H264/90000'', ''a=fmtp:96 profile-level-id=42801F'', cryptoLine k2, ''a=recvonly'']"
  by (simp add: sdp_lines_def sessionLines_def mediaLines_def effective_host_def port_literals Let_def)

lemma sdp_split:
  assumes "host_ok (effective_host host)" and "list_all plain (trim_space dev)" and "key_ok k1" and "key_ok k2"
    and "LF \<notin> set sid" and "LF \<notin> set sver"
  shows "split_char LF (build_sdp sid sver host dev k1 k2) = map (\<lambda>l. l @ [CR]) (sdp_lines sid sver host dev k1 k2) @ [[]]"
proof -
  have "LF \<notin> set (effective_host host)" "LF \<notin> set (trim_space dev)"
    using assms(1,2) plain_not_LF by (auto simp: host_ok_def)
  then have "list_all (\<lambda>l. LF \<notin> set l) (sdp_lines sid sver host dev k1 k2)"
    using assms(5,6) cryptoLine_ok(2) [OF assms(3)] cryptoLine_ok(2) [OF assms(4)] by (simp add: sdp_lines_eq)
  then show ?thesis unfolding build_sdp_lines by (intro split_lines) (simp_all add: sdp_lines_eq)
qed

lemma sdp_read_back:
  assumes "host_ok (effective_host host)" and "list_all plain (trim_space dev)" and "key_ok k1" and "key_ok k2"
    and "LF \<notin> set sid" and "LF \<notin> set sver"
  shows "parseRemoteAudioTarget parse_ip unspecified (build_sdp sid sver host dev k1 k2) =
           (case parse_ip (effective_host host) of
              None \<Rightarrow> Err errNoRemoteAudioTarget
            | Some ip \<Rightarrow> if unspecified ip then Err errNoRemoteAudioTarget else Ok (ip, 65000))"
    and "parseAudioCrypto (build_sdp sid sver host dev k1 k2) = Some k1"
proof -
  let ?h = "effective_host host"
  note q = quiet_lines quiet_host [OF assms(1), of "sid @ '' '' @ sver @ '' IN IP4 ''"] quiet_devaddr [OF assms(2)]
  have c: "quiet (cryptoLine k1)" "quiet (cryptoLine k2)"
    using cryptoLine_ok [OF assms(3)] cryptoLine_ok [OF assms(4)] by (simp_all add: quiet_def cryptoLine_def)
  have h: "?h \<noteq> ''''" using assms(1) by (simp add: host_ok_def)
  have e: "target_line [] s = s" for s by (simp add: target_line_def)
  have m: "map (\<lambda>l. l @ [CR]) (xs @ ys) = map (\<lambda>l. l @ [CR]) xs @ map (\<lambda>l. l @ [CR]) ys" for xs ys by simp
  show "parseRemoteAudioTarget parse_ip unspecified (build_sdp sid sver host dev k1 k2) =
           (case parse_ip ?h of None \<Rightarrow> Err errNoRemoteAudioTarget
            | Some ip \<Rightarrow> if unspecified ip then Err errNoRemoteAudioTarget else Ok (ip, 65000))"
    unfolding parseRemoteAudioTarget_def sdp_split [OF assms] sdp_lines_eq m list.map fold_append comp_apply fold.simps id_apply
    using h by (simp add: q c e target_connection [OF assms(1)] target_media Let_def del: append.simps append_assoc split: option.split)
  let ?pre = "[''v=0'', ''o=companion '' @ (sid @ '' '' @ sver @ '' IN IP4 '') @ ?h, ''s=Companion'', ''c=IN IP4 '' @ ?h, ''t=0 0''] @
      (if trim_space dev \<noteq> '''' then [''a=DEVADDR:'' @ trim_space dev] else [])"
  let ?post = "[''m=video 65002 RTP/SAVP 96'', ''a=rtpmap:96 H264/90000'', ''a=fmtp:96 profile-level-id=42801F'', cryptoLine k2, ''a=recvonly'']"
  let ?crs = "map (\<lambda>l. l @ [CR])"
  have s: "split_char LF (build_sdp sid sver host dev k1 k2) =
      ?crs ?pre @ (''m=audio 65000 RTP/SAVP 110'' @ [CR]) # ?crs [''a=rtpmap:110 speex/8000''] @ (cryptoLine k1 @ [CR]) # ?crs ?post @ [[]]"
    unfolding sdp_split [OF assms] sdp_lines_eq by simp
  have "line_ok (''c=IN IP4 '' @ ?h)" using assms(1) by (auto simp: line_ok_def host_ok_def list_all_iff)
  then have p: "list_all (\<lambda>l. line_ok l \<and> \<not> has_prefix l ''m='' \<and> (\<not> False \<or> \<not> has_prefix l ''a=crypto:'')) ?pre"
    using q by (auto simp: quiet_def)
  have r: "list_all (\<lambda>l. line_ok l \<and> \<not> has_prefix l ''m='' \<and> (\<not> True \<or> \<not> has_prefix l ''a=crypto:'')) [''a=rtpmap:110 speex/8000'']"
    using q by (simp add: quiet_def)
  show "parseAudioCrypto (build_sdp sid sver host dev k1 k2) = Some k1"
    unfolding parseAudioCrypto_def s crypto_skips [OF p] crypto_media crypto_skips [OF r] by (rule crypto_found [OF assms(3)])
qed


section \<open>The packets of the keepalive\<close>

definition nth_packet :: "keepalive_packet \<Rightarrow> 32 word \<Rightarrow> nat \<Rightarrow> keepalive_packet" where
  "nth_packet start step n =
     \<lparr>kp_seq = kp_seq start + of_nat n, kp_timestamp = kp_timestamp start + of_nat n * step\<rparr>"

definition keepalive_inv :: "keepalive_packet \<Rightarrow> bool list \<Rightarrow> rtpKeepalive \<Rightarrow> bool" where
  "keepalive_inv start oks k \<longleftrightarrow>
     ka_sent k = map (nth_packet start (ka_step k)) [0..<length (filter id oks)] \<and>
     ka_packet k = nth_packet start (ka_step k) (length (filter id oks)) \<and>
     ka_warned k = (False \<in> set oks) \<and> ka_warnings k = (if False \<in> set oks then 1 else 0)"

lemma keepalive_write_inv:
  "keepalive_inv start oks k \<Longrightarrow> keepalive_inv start (oks @ [ok]) (keepalive_write ok k) \<and> ka_step (keepalive_write ok k) = ka_step k"
  by (auto simp: keepalive_inv_def keepalive_write_def nth_packet_def algebra_simps)

lemma keepalive_run_inv:
  "keepalive_inv start oks (fold keepalive_write oks (new_keepalive interval start)) \<and>
   ka_step (fold keepalive_write oks (new_keepalive interval start)) = keepalive_step interval"
proof (induction oks rule: rev_induct)
  case Nil
  show ?case by (simp add: keepalive_inv_def new_keepalive_def nth_packet_def)
next
  case (snoc ok oks)
  then show ?case using keepalive_write_inv [of start oks _ ok] by simp
qed

lemma seq_distinct:
  assumes "i < j" and "j < i + 65536"
  shows "(of_nat i :: 16 word) \<noteq> of_nat j"
proof
  assume "(of_nat i :: 16 word) = of_nat j"
  then have "i mod 65536 = j mod 65536" by (simp add: of_nat_eq_iff word_of_nat_eq_iff take_bit_eq_mod)
  moreover obtain d where "j = i + d" "0 < d" "d < 65536" using assms less_imp_add_positive by auto
  ultimately show False using mod_eq_dvd_iff_nat [of i j 65536] by (auto dest: dvd_imp_le)
qed

section \<open>Properties\<close>

text \<open>
  C40. What the companion writes into its session descriptions it reads back. From the offer and from the answer, for every
  address, device address and keys, the reader of the audio target takes the advertised address, 127.0.0.1 in place of an empty or
  unspecified one, and the audio port, and the reader of the key material takes the audio key; so the keepalive of a call between
  two companions is encrypted with the key of its own side. \<open>parse_ip\<close> is the parser of IP addresses.
\<close>

theorem sdp_round_trip:
  assumes "host_ok (effective_host host)" and "list_all plain (trim_space dev)" and "key_ok k1" and "key_ok k2"
    and "parse_ip (effective_host host) = Some ip" and "\<not> unspecified ip"
  shows "\<forall>sdp \<in> {BuildOffer host dev k1 k2, BuildAnswer host dev k1 k2}.
           parseRemoteAudioTarget parse_ip unspecified sdp = Ok (ip, AudioSDPPort) \<and> parseAudioCrypto sdp = Some k1 \<and>
           (\<forall>remote k. parseAudioCrypto remote = Some k \<longrightarrow> keepaliveSRTP remote sdp = EncryptedKeepalive k1)"
  using sdp_read_back(1) [OF assms(1-4), of "''3748''" "''462''" parse_ip unspecified]
    sdp_read_back(1) [OF assms(1-4), of "''3747''" "''461''" parse_ip unspecified]
    sdp_read_back(2) [OF assms(1-4), of "''3748''" "''462''"] sdp_read_back(2) [OF assms(1-4), of "''3747''" "''461''"] assms(5,6)
  by (auto simp: BuildOffer_def BuildAnswer_def AudioSDPPort_def keepaliveSRTP_def)

theorem sdp_round_trip_witness:
  "parseRemoteAudioTarget (\<lambda>s. if s = ''127.0.0.1'' then Some (127 :: nat) else None) (\<lambda>ip. ip = 0)
     (BuildOffer ''0.0.0.0'' ''20'' [0..<30] [100..<130]) = Ok (127, AudioSDPPort) \<and>
   parseAudioCrypto (BuildOffer ''0.0.0.0'' ''20'' [0..<30] [100..<130]) = Some [0..<30]"
proof -
  have t: "trim_space ''0.0.0.0'' = ''0.0.0.0''" by (rule trim_space_plain) simp_all
  have h: "effective_host ''0.0.0.0'' = ''127.0.0.1''" by (simp add: effective_host_def t)
  have "host_ok (effective_host ''0.0.0.0'')" unfolding h by (simp add: host_ok_def plain_def byte_of_def)
  moreover have "trim_space ''20'' = ''20''" by (rule trim_space_plain) simp_all
  then have "list_all plain (trim_space ''20'')" by simp
  moreover have "key_ok [0..<30]" "key_ok [100..<130]" by (simp_all add: key_ok_def list_all_iff)
  ultimately show ?thesis
    using sdp_round_trip [of "''0.0.0.0''" "''20''" "[0..<30]" "[100..<130]" "\<lambda>s. if s = ''127.0.0.1'' then Some (127 :: nat) else None" 127 "\<lambda>ip. ip = 0"] h
    by auto
qed

text \<open>
  The keepalive of a dialog is one continuous stream. Whatever writes fail, the packets that went out carry consecutive
  sequence numbers of 16 bits and timestamps of 32 bits that advance by 40000, both wrapping around; no number repeats
  within 65536 packets; and a failing write is reported once, not at every interval.
\<close>

theorem keepalive_is_continuous:
  "let k = fold keepalive_write oks (new_keepalive mediaKeepaliveInterval start) in
     ka_sent k = map (nth_packet start 40000) [0..<length (filter id oks)] \<and>
     (\<forall>i j. i < j \<and> j < length (ka_sent k) \<and> j < i + 65536 \<longrightarrow> kp_seq (ka_sent k ! i) \<noteq> kp_seq (ka_sent k ! j)) \<and>
     ka_warnings k = (if False \<in> set oks then 1 else 0)"
proof -
  have s: "keepalive_step mediaKeepaliveInterval = 40000"
    by (simp add: keepalive_step_def mediaKeepaliveInterval_def keepaliveClockRate_def second_def millisecond_def)
  note r = keepalive_run_inv [of start oks mediaKeepaliveInterval, unfolded s]
  show ?thesis using r by (auto simp: keepalive_inv_def Let_def nth_packet_def dest: seq_distinct)
qed

theorem keepalive_is_continuous_witness:
  "map kp_seq (ka_sent (fold keepalive_write [True, False, True] (new_keepalive mediaKeepaliveInterval \<lparr>kp_seq = 65535, kp_timestamp = 0\<rparr>))) = [65535, 0]"
  using keepalive_is_continuous [of "[True, False, True]" "\<lparr>kp_seq = 65535, kp_timestamp = 0\<rparr>"]
  by (simp add: Let_def nth_packet_def upt_rec)

end
