(* ===== verification/Ringer_Sync.thy ===== *)
theory Ringer_Sync
  imports Go_Prelude
begin

text \<open>
  The ringer synchronisation (\<^verbatim>\<open>internal/ringersync\<close>): an unmute of a muted ringer schedules a reload of the firmware,
  which the goroutine of \<^verbatim>\<open>Run\<close> makes once the commands have settled and the intercom is idle, and which a
  later mute cancels. Each step is one critical section, or one call, of one of the goroutines; the answers of the audio control,
  of \<^verbatim>\<open>Muted\<close> and \<^verbatim>\<open>Busy\<close> and the clock are inputs.
\<close>

section \<open>State\<close>

text \<open>Where the goroutine of \<^verbatim>\<open>Run\<close> is: at its own select, at the select of \<^verbatim>\<open>waitUntilDue\<close>, behind the reading of a
  reload that is due, behind \<^verbatim>\<open>Busy\<close>, before and in the reload, or returned.\<close>

datatype runner = AtRun | AtWait | AtBusy | AtClear | AtReload | InReload | Returned

text \<open>
  \<open>rg_unsent\<close> counts the unmutes that have scheduled a reload and not yet sent on \<^verbatim>\<open>wake\<close>, a channel of capacity one.
  \<open>rg_owed\<close> and \<open>rg_reloads\<close> are history: a reload was scheduled and neither begun nor cancelled since; the reloads begun.
\<close>

record Sync =
  rg_pending :: bool
  rg_due :: time
  rg_wake :: bool
  rg_unsent :: nat
  rg_runner :: runner
  rg_owed :: bool
  rg_reloads :: nat

definition NewSync :: Sync where
  "NewSync = \<lparr>rg_pending = False, rg_due = 0, rg_wake = False, rg_unsent = 0, rg_runner = AtRun, rg_owed = False, rg_reloads = 0\<rparr>"

section \<open>Operations\<close>

definition Sync_Mute :: "Sync \<Rightarrow> bool \<Rightarrow> Sync" where
  "Sync_Mute s ok = (if ok then s\<lparr>rg_pending := False, rg_owed := False\<rparr> else s)"

text \<open>\<^verbatim>\<open>Unmute\<close> up to its unlock, and its send.\<close>

definition Sync_Unmute :: "duration \<Rightarrow> Sync \<Rightarrow> bool \<Rightarrow> bool \<Rightarrow> time \<Rightarrow> Sync" where
  "Sync_Unmute delay s wasMuted ok now =
     (if \<not> ok \<or> \<not> wasMuted then s
      else s\<lparr>rg_pending := True, rg_due := now + delay, rg_unsent := Suc (rg_unsent s), rg_owed := True\<rparr>)"

definition Sync_wake :: "Sync \<Rightarrow> Sync" where
  "Sync_wake s = (if 0 < rg_unsent s then s\<lparr>rg_wake := True, rg_unsent := rg_unsent s - 1\<rparr> else s)"

definition Run_woken :: "Sync \<Rightarrow> Sync" where
  "Run_woken s = (if rg_runner s = AtRun \<and> rg_wake s then s\<lparr>rg_wake := False, rg_runner := AtWait\<rparr> else s)"

text \<open>A round of \<^verbatim>\<open>waitUntilDue\<close>, begun by the ticker or by \<^verbatim>\<open>wake\<close>.\<close>

definition waitUntilDue :: "Sync \<Rightarrow> bool \<Rightarrow> time \<Rightarrow> Sync" where
  "waitUntilDue s by_wake now =
     (if rg_runner s \<noteq> AtWait \<or> (by_wake \<and> \<not> rg_wake s) then s
      else
        let s = (if by_wake then s\<lparr>rg_wake := False\<rparr> else s) in
        if \<not> rg_pending s then s\<lparr>rg_runner := AtRun\<rparr>
        else if now < rg_due s then s
        else s\<lparr>rg_runner := AtBusy\<rparr>)"

definition wait_busy :: "Sync \<Rightarrow> bool \<Rightarrow> Sync" where
  "wait_busy s busy = (if rg_runner s = AtBusy then s\<lparr>rg_runner := (if busy then AtWait else AtClear)\<rparr> else s)"

definition wait_clear :: "Sync \<Rightarrow> Sync" where
  "wait_clear s = (if rg_runner s = AtClear then s\<lparr>rg_pending := False, rg_runner := AtReload\<rparr> else s)"

definition wait_reload :: "Sync \<Rightarrow> Sync" where
  "wait_reload s =
     (if rg_runner s = AtReload then s\<lparr>rg_runner := InReload, rg_owed := False, rg_reloads := Suc (rg_reloads s)\<rparr> else s)"

text \<open>The reload returned; its error is only logged.\<close>

definition wait_reloaded :: "Sync \<Rightarrow> Sync" where
  "wait_reloaded s = (if rg_runner s = InReload then s\<lparr>rg_runner := AtRun\<rparr> else s)"

definition Run_done :: "Sync \<Rightarrow> Sync" where
  "Run_done s = (if rg_runner s = AtRun \<or> rg_runner s = AtWait then s\<lparr>rg_runner := Returned\<rparr> else s)"

datatype ringer_input =
    DoMute bool
  | DoUnmute bool bool time
  | SendWake
  | RunWoken
  | WaitRound bool time
  | BusyAnswered bool
  | ClearPending
  | ReloadBegins
  | ReloadEnds
  | ContextDone

fun ringer_step :: "duration \<Rightarrow> Sync \<Rightarrow> ringer_input \<Rightarrow> Sync" where
  "ringer_step delay s (DoMute ok) = Sync_Mute s ok"
| "ringer_step delay s (DoUnmute wasMuted ok now) = Sync_Unmute delay s wasMuted ok now"
| "ringer_step delay s SendWake = Sync_wake s"
| "ringer_step delay s RunWoken = Run_woken s"
| "ringer_step delay s (WaitRound by_wake now) = waitUntilDue s by_wake now"
| "ringer_step delay s (BusyAnswered busy) = wait_busy s busy"
| "ringer_step delay s ClearPending = wait_clear s"
| "ringer_step delay s ReloadBegins = wait_reload s"
| "ringer_step delay s ReloadEnds = wait_reloaded s"
| "ringer_step delay s ContextDone = Run_done s"

definition ringer_run :: "duration \<Rightarrow> Sync \<Rightarrow> ringer_input list \<Rightarrow> Sync" where
  "ringer_run delay = foldl (ringer_step delay)"

section \<open>The reload\<close>

datatype reload_error = NoConfFile | TouchFailed | StartSSHFailed
datatype reload_effect = TouchConf | StartSSH

text \<open>
  \<^verbatim>\<open>FirmwareReloader.Reload\<close>: whether the file is there, whether SSH is listened for before and after (\<open>None\<close> when there
  is no such function), whether the touch worked, whether the context ended during the wait, whether there is a function that starts
  SSH and what it returned.
\<close>

definition Reload ::
  "bool \<Rightarrow> bool option \<Rightarrow> bool \<Rightarrow> bool option \<Rightarrow> bool \<Rightarrow> bool \<Rightarrow> reload_effect list \<times> (reload_error, unit) result" where
  "Reload there sshBefore touched startSSH cancelled sshAfter =
     (if \<not> there then ([], Err NoConfFile)
      else if \<not> touched then ([], Err TouchFailed)
      else if sshBefore \<noteq> Some True \<or> startSSH = None then ([TouchConf], Ok ())
      else if cancelled then ([TouchConf], Ok ())
      else if sshAfter then ([TouchConf], Ok ())
      else ([TouchConf, StartSSH], if startSSH = Some True then Ok () else Err StartSSHFailed))"

section \<open>Nothing that is owed is forgotten\<close>

definition ringer_wf :: "Sync \<Rightarrow> bool" where
  "ringer_wf s \<longleftrightarrow>
     (rg_owed s \<longrightarrow> rg_pending s \<or> rg_runner s = AtReload) \<and>
     (rg_pending s \<longrightarrow> rg_runner s \<in> {AtWait, AtBusy, AtClear, Returned} \<or> rg_wake s \<or> 0 < rg_unsent s)"

lemmas ringer_defs =
  Sync_Mute_def Sync_Unmute_def Sync_wake_def Run_woken_def waitUntilDue_def wait_busy_def wait_clear_def wait_reload_def
  wait_reloaded_def Run_done_def Let_def

lemma ringer_step_wf: "ringer_wf s \<Longrightarrow> ringer_wf (ringer_step delay s i)"
  by (cases i) (auto simp: ringer_wf_def ringer_defs)

lemma ringer_run_wf: "ringer_wf (ringer_run delay NewSync is)"
proof (induction "is" rule: rev_induct)
  case Nil
  show ?case by (simp add: ringer_run_def ringer_wf_def NewSync_def)
next
  case (snoc i "is")
  then show ?case by (simp add: ringer_run_def ringer_step_wf)
qed

text \<open>What the goroutine of \<^verbatim>\<open>Run\<close> does on its own when the intercom is idle and the time has come, from each place it can be at.\<close>

definition reload_course :: "Sync \<Rightarrow> ringer_input list" where
  "reload_course s =
     (let due = [WaitRound False (rg_due s), BusyAnswered False, ClearPending, ReloadBegins] in
      case rg_runner s of
        AtRun \<Rightarrow> [SendWake, RunWoken] @ due
      | AtWait \<Rightarrow> due
      | AtBusy \<Rightarrow> [BusyAnswered False, ClearPending, ReloadBegins]
      | AtClear \<Rightarrow> [ClearPending, ReloadBegins]
      | AtReload \<Rightarrow> [ReloadBegins]
      | InReload \<Rightarrow> [ReloadEnds, SendWake, RunWoken] @ due
      | Returned \<Rightarrow> [])"

lemma reload_course_reloads:
  assumes "ringer_wf s" and "rg_owed s" and "rg_runner s \<noteq> Returned"
  shows "rg_reloads (ringer_run delay s (reload_course s)) = Suc (rg_reloads s) \<and> \<not> rg_owed (ringer_run delay s (reload_course s))"
  using assms by (cases "rg_runner s") (auto simp: reload_course_def ringer_run_def ringer_wf_def ringer_defs)

section \<open>Properties\<close>

text \<open>
  C26. A reload that is owed is made. However mutes, unmutes, wakes, rounds of the goroutine and reloads interleave, from every
  state in which an unmute of a muted ringer was not followed by the beginning of a reload or by a mute, the goroutine alone
  reaches the beginning of a reload, in seven steps at most, as soon as the time has come and the intercom is idle; unless its context has ended.
\<close>

theorem owed_reload_is_made:
  assumes "rg_owed (ringer_run delay NewSync is)" and "rg_runner (ringer_run delay NewSync is) \<noteq> Returned"
  shows "\<exists>js. length js \<le> 7 \<and> (\<forall>j\<in>set js. \<forall>m ok now. j \<noteq> DoMute ok \<and> j \<noteq> DoUnmute m ok now) \<and>
           rg_reloads (ringer_run delay NewSync (is @ js)) = Suc (rg_reloads (ringer_run delay NewSync is)) \<and>
           \<not> rg_owed (ringer_run delay NewSync (is @ js))"
proof -
  let ?s = "ringer_run delay NewSync is"
  have "length (reload_course ?s) \<le> 7 \<and> (\<forall>j\<in>set (reload_course ?s). \<forall>m ok now. j \<noteq> DoMute ok \<and> j \<noteq> DoUnmute m ok now)"
    by (auto simp: reload_course_def Let_def split: runner.split)
  moreover have "ringer_run delay NewSync (is @ js) = ringer_run delay ?s js" for js by (simp add: ringer_run_def)
  ultimately show ?thesis using reload_course_reloads [OF ringer_run_wf assms, of delay] by metis
qed

theorem owed_reload_is_made_witness:
  "\<exists>js. rg_reloads (ringer_run (10 * second) NewSync ([DoUnmute True True 5] @ js)) = 1"
proof -
  have "rg_owed (ringer_run (10 * second) NewSync [DoUnmute True True 5])" "rg_runner (ringer_run (10 * second) NewSync [DoUnmute True True 5]) \<noteq> Returned"
    by (simp_all add: ringer_run_def NewSync_def ringer_defs)
  from owed_reload_is_made [OF this] show ?thesis by (auto simp: ringer_run_def NewSync_def ringer_defs)
qed

text \<open>
  A mute between the reading of a due reload and its clearing does not cancel it, and an unmute there is reloaded before it
  has settled: the goroutine does not look again.
\<close>

theorem mute_comes_too_late:
  "rg_reloads (ringer_run 10 NewSync
     [DoUnmute True True 0, SendWake, RunWoken, WaitRound False 10, DoMute True, BusyAnswered False, ClearPending, ReloadBegins]) = 1"
  "let s = ringer_run 10 NewSync
     [DoUnmute True True 0, SendWake, RunWoken, WaitRound False 10, BusyAnswered False, DoUnmute True True 11, ClearPending, ReloadBegins] in
   rg_reloads s = 1 \<and> rg_due s = 21 \<and> \<not> rg_pending s"
  by (simp_all add: ringer_run_def NewSync_def ringer_defs)

text \<open>A reload starts the SSH server only when it ran before and is gone after the wait.\<close>

lemma reload_restores_ssh:
  assumes "Reload there before touched start cancelled after = (effs, r)"
  shows "StartSSH \<in> set effs \<longleftrightarrow> there \<and> touched \<and> before = Some True \<and> start \<noteq> None \<and> \<not> cancelled \<and> \<not> after"
  using assms by (auto simp: Reload_def split: if_splits)

end
