(* ===== verification/Media_Files.thy ===== *)
theory Media_Files
  imports Atomic_Write
begin

text \<open>
  The files of pictures and clips: the names and the atomic write of \<^verbatim>\<open>src/internal/media/snapshot.go\<close> that
  \<^verbatim>\<open>src/internal/media/ringclip.go\<close> shares. \<open>clean\<close>, \<open>path_join\<close>, \<open>path_dir\<close> and \<open>path_base\<close> are the functions
  of \<^verbatim>\<open>path/filepath\<close> on a Unix system. A write is the sequence of system calls it makes; \<open>fails\<close> says which of
  them the operating system refuses, and a file is its content with its modification time.

  The lemmas show that an accepted name stays in its directory, that no two entrypoints and no two kinds of file
  share a path, and that a reader of a path never sees a part of a file.
\<close>

section \<open>Package filepath\<close>

definition slash :: char where "slash = CHR ''/''"

definition clean_elem :: "bool \<Rightarrow> string list \<Rightarrow> string \<Rightarrow> string list" where
  "clean_elem rooted out e =
     (if e = [] \<or> e = ''.'' then out
      else if e = ''..'' then
        (if out \<noteq> [] \<and> List.last out \<noteq> ''..'' then butlast out else if rooted then out else out @ [e])
      else out @ [e])"

definition rooted :: "string \<Rightarrow> bool" where "rooted p = has_prefix p ''/''"

definition clean_elems :: "string \<Rightarrow> string list" where
  "clean_elems p = foldl (clean_elem (rooted p)) [] (split_char slash p)"

definition clean :: "string \<Rightarrow> string" where
  "clean p =
     (let out = join [slash] (clean_elems p) in
      if rooted p then slash # out else if out = [] then ''.'' else out)"

definition path_join :: "string list \<Rightarrow> string" where
  "path_join elems =
     (let elems = filter (\<lambda>e. e \<noteq> []) elems in if elems = [] then [] else clean (join [slash] elems))"

fun up_to_last_slash :: "string \<Rightarrow> string" where
  "up_to_last_slash [] = []"
| "up_to_last_slash (c # s) = (if slash \<in> set (c # s) then c # up_to_last_slash s else [])"

definition after_last_slash :: "string \<Rightarrow> string" where
  "after_last_slash p = drop (length (up_to_last_slash p)) p"

definition path_dir :: "string \<Rightarrow> string" where
  "path_dir p = clean (up_to_last_slash p)"

definition trim_slashes :: "string \<Rightarrow> string" where
  "trim_slashes p = rev (dropWhile (\<lambda>c. c = slash) (rev p))"

definition path_base :: "string \<Rightarrow> string" where
  "path_base p =
     (if p = [] then ''.''
      else let b = after_last_slash (trim_slashes p) in if b = [] then ''/'' else b)"

section \<open>Names of pictures and clips\<close>

definition entrypointFileName :: "string \<Rightarrow> string option" where
  "entrypointFileName entrypointID =
     (let i = trim_space entrypointID in
      if i = [] \<or> i = ''.'' \<or> i = ''..'' \<or> path_base i \<noteq> i \<or> slash \<in> set i then None else Some i)"

definition snapshot_path :: "string \<Rightarrow> string \<Rightarrow> string option" where
  "snapshot_path dir entrypointID =
     (case entrypointFileName entrypointID of
        None \<Rightarrow> None
      | Some name \<Rightarrow> Some (path_join [dir, ''snapshots'', name @ ''.jpg'']))"

definition snapshot_ringPath :: "string \<Rightarrow> string \<Rightarrow> string option" where
  "snapshot_ringPath dir entrypointID =
     (case snapshot_path dir entrypointID of
        None \<Rightarrow> None
      | Some p \<Rightarrow> Some (path_join [path_dir p, ''ring'', path_base p]))"

definition clip_path :: "string \<Rightarrow> string \<Rightarrow> string option" where
  "clip_path dir entrypointID =
     (case entrypointFileName entrypointID of
        None \<Rightarrow> None
      | Some name \<Rightarrow> if dir = [] then None else Some (path_join [dir, ''clips'', ''ring'', name @ ''.mp4'']))"

section \<open>Atomic writes\<close>

text \<open>
  \<^verbatim>\<open>writeFileAtomicFunc\<close>. The content is \<open>None\<close> while it is not all written. Only the time of a dated file
  is modelled: \<open>None\<close> is the time the file system gives.
\<close>

datatype atomic_step = AtomicMkdir | AtomicCreate | AtomicWrite | AtomicClose | AtomicChtimes | AtomicRename

record 'd stored =
  f_content :: "'d option"
  f_mtime :: "time option"

record 'd place =
  pl_target :: "'d stored option"
  pl_temporary :: "'d stored option"

definition atomic_steps :: "time \<Rightarrow> atomic_step list" where
  "atomic_steps mtime =
     [AtomicMkdir, AtomicCreate, AtomicWrite, AtomicClose] @ (if is_zero_time mtime then [] else [AtomicChtimes]) @ [AtomicRename]"

fun do_atomic :: "time \<Rightarrow> 'd \<Rightarrow> atomic_step \<Rightarrow> 'd place \<Rightarrow> 'd place" where
  "do_atomic mtime d AtomicCreate p = p\<lparr>pl_temporary := Some \<lparr>f_content = None, f_mtime = None\<rparr>\<rparr>"
| "do_atomic mtime d AtomicWrite p = p\<lparr>pl_temporary := Some \<lparr>f_content = Some d, f_mtime = None\<rparr>\<rparr>"
| "do_atomic mtime d AtomicChtimes p = p\<lparr>pl_temporary := map_option (f_mtime_update (\<lambda>_. Some mtime)) (pl_temporary p)\<rparr>"
| "do_atomic mtime d AtomicRename p = p\<lparr>pl_target := pl_temporary p, pl_temporary := None\<rparr>"
| "do_atomic mtime d _ p = p"

fun run_atomic :: "(atomic_step \<Rightarrow> bool) \<Rightarrow> time \<Rightarrow> 'd \<Rightarrow> atomic_step list \<Rightarrow> 'd place \<Rightarrow> 'd place \<times> atomic_step option" where
  "run_atomic fails mtime d [] p = (p, None)"
| "run_atomic fails mtime d (w # ws) p =
     (if fails w then (p, Some w) else run_atomic fails mtime d ws (do_atomic mtime d w p))"

text \<open>The deferred removal of the temporary file runs on every way out.\<close>

definition writeFileAtomicFunc :: "(atomic_step \<Rightarrow> bool) \<Rightarrow> time \<Rightarrow> 'd \<Rightarrow> 'd place \<Rightarrow> 'd place \<times> atomic_step option" where
  "writeFileAtomicFunc fails mtime d p =
     (case run_atomic fails mtime d (atomic_steps mtime) p of (p', err) \<Rightarrow> (p'\<lparr>pl_temporary := None\<rparr>, err))"

section \<open>Lemmas on paths\<close>

text \<open>Everything of the cleaned path before its last element.\<close>

definition clean_parent :: "string \<Rightarrow> string" where
  "clean_parent p =
     (if rooted p then [slash] else []) @ (if clean_elems p = [] then [] else join [slash] (clean_elems p) @ [slash])"

definition proper_name :: "string \<Rightarrow> bool" where
  "proper_name e \<longleftrightarrow> e \<noteq> [] \<and> e \<noteq> ''.'' \<and> e \<noteq> ''..'' \<and> slash \<notin> set e"

lemma split_char_snoc: "c \<notin> set e \<Longrightarrow> split_char c (p @ c # e) = split_char c p @ [e]"
  by (induction p) (auto split: list.splits)

lemma join_snoc: "xs \<noteq> [] \<Longrightarrow> join s (xs @ [x]) = join s xs @ s @ x"
  by (induction s xs rule: join.induct) auto

lemma rooted_append: "p \<noteq> [] \<Longrightarrow> rooted (p @ q) = rooted p"
  by (cases p) (auto simp: rooted_def)

lemma clean_elems_snoc:
  "proper_name e \<Longrightarrow> p \<noteq> [] \<Longrightarrow> clean_elems (p @ slash # e) = clean_elems p @ [e]"
  by (simp add: clean_elems_def proper_name_def split_char_snoc rooted_append clean_elem_def)

lemma join_Nil_iff: "join s xs = [] \<longleftrightarrow> xs = [] \<or> (s = [] \<or> length xs = 1) \<and> (\<forall>x \<in> set xs. x = [])"
  by (induction s xs rule: join.induct) auto

lemma clean_snoc:
  "proper_name e \<Longrightarrow> p \<noteq> [] \<Longrightarrow> clean (p @ slash # e) = clean_parent p @ e"
  by (auto simp: clean_def clean_parent_def clean_elems_snoc rooted_append join_snoc Let_def)
    (simp_all add: proper_name_def)

lemma clean_parent_snoc:
  "proper_name e \<Longrightarrow> p \<noteq> [] \<Longrightarrow> clean_parent (p @ slash # e) = clean_parent p @ e @ [slash]"
  by (auto simp: clean_parent_def clean_elems_snoc rooted_append join_snoc)


text \<open>A cleaned path is its elements again: some \<^verbatim>\<open>..\<close> in front when it is relative, then proper names.\<close>

definition normal_elems :: "bool \<Rightarrow> string list \<Rightarrow> bool" where
  "normal_elems r xs \<longleftrightarrow>
     (\<exists>n ys. xs = replicate n ''..'' @ ys \<and> list_all proper_name ys \<and> (r \<longrightarrow> n = 0))"

lemma normal_elems_Nil: "normal_elems r []"
  by (simp add: normal_elems_def)

lemma clean_elem_normal:
  assumes "normal_elems r xs" and "slash \<notin> set e"
  shows "normal_elems r (clean_elem r xs e)"
proof -
  obtain n ys where xs: "xs = replicate n ''..'' @ ys" "list_all proper_name ys" "r \<longrightarrow> n = 0"
    using assms(1) by (auto simp: normal_elems_def)
  consider "e = [] \<or> e = ''.''" | "e = ''..''" "ys = []" | "e = ''..''" "ys \<noteq> []" | "proper_name e"
    using assms(2) by (auto simp: proper_name_def)
  then show ?thesis
  proof cases
    case 1
    then show ?thesis using assms(1) by (auto simp: clean_elem_def)
  next
    case 2
    have "xs \<noteq> [] \<Longrightarrow> List.last xs = ''..''"
      using xs(1) 2 by (cases n) (auto simp: last_conv_nth)
    then have "clean_elem r xs e = (if r then xs else xs @ [e])"
      using 2(1) unfolding clean_elem_def by (simp cong: if_cong) blast
    moreover have "xs @ [e] = replicate (Suc n) ''..'' @ []"
      using xs(1) 2 by (simp add: replicate_append_same)
    ultimately show ?thesis
      using assms(1) by (auto simp: normal_elems_def intro!: exI [where x = "Suc n"] exI [where x = "[]"])
  next
    case 3
    have "List.last ys \<noteq> ''..''" using xs(2) 3 by (auto simp: list_all_iff proper_name_def)
    then have "clean_elem r xs e = replicate n ''..'' @ butlast ys"
      using xs(1) 3 by (simp add: clean_elem_def butlast_append)
    moreover have "list_all proper_name (butlast ys)"
      using xs(2) by (auto simp: list_all_iff dest: in_set_butlastD)
    ultimately show ?thesis using xs(3) by (auto simp: normal_elems_def)
  next
    case 4
    then have "clean_elem r xs e = replicate n ''..'' @ (ys @ [e])"
      using xs(1) by (simp add: clean_elem_def proper_name_def)
    then show ?thesis using xs 4 unfolding normal_elems_def
      by (intro exI [where x = n] exI [where x = "ys @ [e]"]) simp
  qed
qed

lemma foldl_clean_normal:
  "normal_elems r xs \<Longrightarrow> (\<And>e. e \<in> set es \<Longrightarrow> slash \<notin> set e) \<Longrightarrow> normal_elems r (foldl (clean_elem r) xs es)"
  by (induction es arbitrary: xs) (simp_all add: clean_elem_normal)

lemma clean_elems_normal: "normal_elems (rooted p) (clean_elems p)"
  unfolding clean_elems_def
  by (rule foldl_clean_normal [OF normal_elems_Nil]) (rule split_char_parts)

lemma foldl_clean_proper:
  "list_all proper_name ys \<Longrightarrow> foldl (clean_elem r) xs ys = xs @ ys"
  by (induction ys arbitrary: xs) (simp_all add: clean_elem_def proper_name_def)

lemma foldl_clean_dots:
  "foldl (clean_elem False) (replicate k ''..'') (replicate n ''..'') = replicate (k + n) ''..''"
proof (induction n arbitrary: k)
  case (Suc n)
  have "clean_elem False (replicate k ''..'') ''..'' = replicate (Suc k) ''..''"
    by (cases k) (auto simp: clean_elem_def last_conv_nth replicate_append_same [symmetric] simp del: replicate_append_same)
  then show ?case using Suc.IH [of "Suc k"] by simp
qed simp

lemma foldl_clean_id: "normal_elems r xs \<Longrightarrow> foldl (clean_elem r) [] xs = xs"
  using foldl_clean_dots [of 0] by (auto simp: normal_elems_def foldl_clean_proper)

lemma split_char_join:
  "xs \<noteq> [] \<Longrightarrow> \<forall>x \<in> set xs. c \<notin> set x \<Longrightarrow> split_char c (join [c] xs) = xs"
proof (induction xs)
  case (Cons x xs)
  show ?case
  proof (cases "xs = []")
    case False
    then have "join [c] (x # xs) = x @ c # join [c] xs" by (cases xs) simp_all
    then show ?thesis using Cons.IH [OF False] Cons.prems by (simp add: split_char_append)
  qed (use Cons.prems in simp)
qed simp

lemma proper_name_parts: "proper_name x \<Longrightarrow> x \<noteq> [] \<and> slash \<notin> set x"
  by (simp add: proper_name_def)

lemma normal_elems_parts:
  assumes "normal_elems r xs" and "x \<in> set xs"
  shows "x \<noteq> [] \<and> slash \<notin> set x"
proof -
  obtain n ys where "xs = replicate n ''..'' @ ys" "list_all proper_name ys"
    using assms(1) unfolding normal_elems_def by blast
  then have "x = ''..'' \<or> proper_name x" using assms(2) by (auto simp: list_all_iff)
  then show ?thesis by (auto simp: slash_def dest: proper_name_parts)
qed

lemma clean_elems_clean: "rooted p \<or> clean_elems p \<noteq> [] \<Longrightarrow> clean_elems (clean p) = clean_elems p"
proof -
  assume p: "rooted p \<or> clean_elems p \<noteq> []"
  note normal = clean_elems_normal [of p]
  have noslash: "\<forall>x \<in> set (clean_elems p). slash \<notin> set x" using normal_elems_parts [OF normal] by blast
  show ?thesis
  proof (cases "rooted p")
    case True
    then have c: "clean p = slash # join [slash] (clean_elems p)" by (simp add: clean_def Let_def)
    have "split_char slash (clean p) = [] # (if clean_elems p = [] then [[]] else clean_elems p)"
      using noslash by (simp add: c split_char_join)
    moreover have "rooted (clean p)" by (simp add: c rooted_def slash_def)
    ultimately show ?thesis
      using foldl_clean_id [OF normal] True by (simp add: clean_elems_def clean_elem_def)
  next
    case False
    then obtain x xs where xs: "clean_elems p = x # xs" using p by (cases "clean_elems p") auto
    then have x: "x \<noteq> []" "slash \<notin> set x" using normal_elems_parts [OF normal, of x] by auto
    obtain d x' where x': "x = d # x'" "d \<noteq> slash" using x by (cases x) auto
    have j: "join [slash] (x # xs) = d # x' @ (if xs = [] then [] else slash # join [slash] xs)"
      by (cases xs) (simp_all add: x')
    have c: "clean p = join [slash] (clean_elems p)" using False xs j by (simp add: clean_def Let_def)
    then have "split_char slash (clean p) = clean_elems p" using noslash xs by (simp add: split_char_join)
    moreover have "\<not> rooted (clean p)" unfolding c xs j rooted_def using x'(2) by (simp add: slash_def)
    ultimately show ?thesis using foldl_clean_id [OF normal] False by (simp add: clean_elems_def)
  qed
qed

lemma rooted_clean: "rooted p \<or> clean_elems p \<noteq> [] \<Longrightarrow> rooted (clean p) = rooted p"
proof (cases "rooted p")
  case True
  then show ?thesis by (simp add: clean_def Let_def rooted_def slash_def)
next
  case False
  assume "rooted p \<or> clean_elems p \<noteq> []"
  then obtain x xs where xs: "clean_elems p = x # xs" using False by (cases "clean_elems p") auto
  then have "x \<noteq> [] \<and> slash \<notin> set x" using normal_elems_parts [OF clean_elems_normal, of x p] by simp
  then obtain d x' where x': "x = d # x'" "d \<noteq> slash" by (cases x) auto
  have "join [slash] (x # xs) = d # x' @ (if xs = [] then [] else slash # join [slash] xs)"
    by (cases xs) (simp_all add: x')
  then have "\<not> rooted (join [slash] (clean_elems p))" "join [slash] (clean_elems p) \<noteq> []"
    unfolding xs rooted_def using x'(2) by (simp_all add: slash_def)
  then show ?thesis using False by (simp add: clean_def Let_def)
qed

lemma clean_dir_name:
  assumes "proper_name e" and "rooted p \<or> clean_elems p \<noteq> []"
  shows "clean (clean p @ slash # e) = clean (p @ slash # e)"
proof -
  have p: "p \<noteq> []" using assms(2) by (auto simp: rooted_def clean_elems_def clean_elem_def)
  have c: "clean p \<noteq> []" by (simp add: clean_def Let_def)
  show ?thesis
    using assms clean_elems_clean [OF assms(2)] rooted_clean [OF assms(2)]
    by (simp add: clean_snoc p c clean_parent_def)
qed

lemma clean_name_append:
  assumes "proper_name e" and "p \<noteq> []" and "clean_elems p \<noteq> []"
  shows "clean (p @ slash # e) = clean p @ slash # e"
proof -
  have "join [slash] (clean_elems p) \<noteq> []"
    using normal_elems_parts [OF clean_elems_normal [of p]] assms(3)
    by (cases "clean_elems p") (auto simp: join_Nil_iff)
  moreover have "clean (p @ slash # e) = clean_parent p @ e" using assms by (simp add: clean_snoc)
  ultimately show ?thesis using assms(3) by (simp add: clean_parent_def clean_def [of p] Let_def)
qed

lemma clean_trailing: "p \<noteq> [] \<Longrightarrow> clean (p @ [slash]) = clean p"
  using split_char_snoc [of slash "[]" p]
  by (simp add: clean_def clean_elems_def rooted_append clean_elem_def)

section \<open>Names stay in their directory\<close>

text \<open>The directory \<open>sub\<close> of \<open>dir\<close>, and a file in it.\<close>

definition subdir :: "string \<Rightarrow> string \<Rightarrow> string" where
  "subdir dir sub = (if dir = [] then sub else dir @ slash # sub)"

lemma subdir_nonempty: "proper_name sub \<Longrightarrow> subdir dir sub \<noteq> []"
  by (auto simp: subdir_def proper_name_def)

lemma clean_elems_subdir: "proper_name sub \<Longrightarrow> clean_elems (subdir dir sub) \<noteq> []"
  by (auto simp: subdir_def clean_elems_snoc)
    (simp add: clean_elems_def proper_name_def clean_elem_def)

lemma path_join_two: "proper_name sub \<Longrightarrow> path_join [dir, sub] = clean (subdir dir sub)"
  by (auto simp: path_join_def subdir_def proper_name_def)

lemma path_join_three:
  assumes "proper_name sub" and "proper_name e"
  shows "path_join [dir, sub, e] = path_join [dir, sub] @ slash # e"
proof -
  have "path_join [dir, sub, e] = clean (subdir dir sub @ slash # e)"
    using assms by (auto simp: path_join_def subdir_def proper_name_def)
  then show ?thesis
    using clean_name_append [OF assms(2) subdir_nonempty clean_elems_subdir] assms by (simp add: path_join_two)
qed

lemma up_to_last_slash_snoc: "slash \<notin> set e \<Longrightarrow> up_to_last_slash (p @ slash # e) = p @ [slash]"
proof (induction p)
  case Nil
  then show ?case by (cases e) auto
qed simp

lemma path_dir_join:
  assumes "proper_name sub" and "proper_name e"
  shows "path_dir (path_join [dir, sub, e]) = path_join [dir, sub]"
proof -
  have ne: "path_join [dir, sub] \<noteq> []" using assms by (simp add: path_join_two clean_def Let_def)
  have "path_dir (path_join [dir, sub, e]) = clean (path_join [dir, sub])"
    using assms(2) ne unfolding path_dir_def path_join_three [OF assms]
    by (simp add: up_to_last_slash_snoc proper_name_def clean_trailing)
  also have "\<dots> = path_join [dir, sub]"
    using clean_elems_clean [of "subdir dir sub"] rooted_clean [of "subdir dir sub"] clean_elems_subdir [OF assms(1), of dir]
    by (simp add: path_join_two assms(1) clean_def [of "clean _"] Let_def) (simp add: clean_def Let_def)
  finally show ?thesis .
qed

lemma path_base_join:
  assumes "proper_name e" shows "path_base (p @ slash # e) = e"
proof -
  obtain es d where e: "e = es @ [d]" "d \<noteq> slash" using assms
    by (cases e rule: rev_cases) (auto simp: proper_name_def)
  have "trim_slashes (p @ slash # e) = p @ slash # e" by (simp add: trim_slashes_def e)
  then show ?thesis using assms
    by (auto simp: path_base_def after_last_slash_def up_to_last_slash_snoc proper_name_def Let_def)
qed


lemma proper_name_ext: "proper_name e \<Longrightarrow> slash \<notin> set x \<Longrightarrow> 2 < length x \<Longrightarrow> proper_name (e @ x)"
  by (auto simp: proper_name_def append_eq_Cons_conv)

lemma entrypointFileName_proper:
  "entrypointFileName i = Some name \<Longrightarrow> name = trim_space i \<and> proper_name name"
  by (auto simp: entrypointFileName_def proper_name_def Let_def split: if_splits)

lemma proper_names: "proper_name ''snapshots''" "proper_name ''clips''" "proper_name ''ring''"
  by (simp_all add: proper_name_def slash_def)

lemma snapshot_path_eq:
  assumes "snapshot_path dir i = Some p"
  shows "p = path_join [dir, ''snapshots''] @ ''/'' @ trim_space i @ ''.jpg''" and "proper_name (trim_space i)"
    and "p = path_join [dir, ''snapshots'', trim_space i @ ''.jpg'']"
proof -
  obtain name where n: "entrypointFileName i = Some name" "p = path_join [dir, ''snapshots'', name @ ''.jpg'']"
    using assms by (auto simp: snapshot_path_def split: option.splits)
  then show proper: "proper_name (trim_space i)" and p: "p = path_join [dir, ''snapshots'', trim_space i @ ''.jpg'']"
    using entrypointFileName_proper by blast+
  have "proper_name (trim_space i @ ''.jpg'')" using proper by (rule proper_name_ext) (simp_all add: slash_def)
  then show "p = path_join [dir, ''snapshots''] @ ''/'' @ trim_space i @ ''.jpg''"
    using path_join_three [OF proper_names(1)] by (simp add: p slash_def)
qed

lemma snapshot_ringPath_eq:
  assumes "snapshot_ringPath dir i = Some p"
  shows "p = path_join [dir, ''snapshots''] @ ''/ring/'' @ trim_space i @ ''.jpg''"
proof -
  obtain q where q: "snapshot_path dir i = Some q" "p = path_join [path_dir q, ''ring'', path_base q]"
    using assms by (auto simp: snapshot_ringPath_def split: option.splits)
  let ?n = "trim_space i @ ''.jpg''"
  note qp = snapshot_path_eq [OF q(1)]
  have n: "proper_name ?n" using qp(2) by (rule proper_name_ext) (simp_all add: slash_def)
  have dir: "path_dir q = path_join [dir, ''snapshots'']" unfolding qp(3) by (rule path_dir_join [OF proper_names(1) n])
  have base: "path_base q = ?n" using path_base_join [OF n] by (simp add: qp(1) slash_def)
  have "path_join [path_join [dir, ''snapshots''], ''ring''] = path_join [dir, ''snapshots'', ''ring'']"
  proof -
    have ne: "path_join [dir, ''snapshots''] \<noteq> []" by (simp add: path_join_two proper_names clean_def Let_def)
    then have "path_join [path_join [dir, ''snapshots''], ''ring''] = clean (clean (subdir dir ''snapshots'') @ slash # ''ring'')"
      by (simp add: path_join_two proper_names subdir_def)
    also have "\<dots> = clean (subdir dir ''snapshots'' @ slash # ''ring'')"
      by (rule clean_dir_name [OF proper_names(3)]) (simp add: clean_elems_subdir proper_names)
    also have "\<dots> = path_join [dir, ''snapshots''] @ slash # ''ring''"
      by (simp add: clean_name_append proper_names subdir_nonempty clean_elems_subdir path_join_two)
    finally show ?thesis by (simp add: path_join_three proper_names)
  qed
  then show ?thesis using path_join_three [OF proper_names(3) n, of "path_join [dir, ''snapshots'']"]
    by (simp add: q(2) dir base path_join_three proper_names slash_def)
qed

text \<open>
  A picture of an entrypoint lies directly in the directory of its kind, under the trimmed identifier, so no
  identifier leads out of the directory; two identifiers share a picture only when they are equal without the white space
  around them, and the doorbell picture of no entrypoint is the picture of another one.
\<close>

theorem pictures_stay_apart:
  assumes "snapshot_path dir i = Some p" and "snapshot_ringPath dir i = Some r" and "snapshot_path dir j = Some q"
  shows "p = path_join [dir, ''snapshots''] @ ''/'' @ trim_space i @ ''.jpg'' \<and> CHR ''/'' \<notin> set (trim_space i) \<and>
         r = path_join [dir, ''snapshots''] @ ''/ring/'' @ trim_space i @ ''.jpg'' \<and>
         (p = q \<longleftrightarrow> trim_space i = trim_space j) \<and> r \<noteq> q"
proof -
  note p = snapshot_path_eq(1,2) [OF assms(1)] and q = snapshot_path_eq(1,2) [OF assms(3)]
  note r = snapshot_ringPath_eq [OF assms(2)]
  have "r \<noteq> q"
  proof
    assume "r = q"
    then have "''ring/'' @ trim_space i @ ''.jpg'' = trim_space j @ ''.jpg''" by (simp add: r q(1))
    moreover have "CHR ''/'' \<notin> set (trim_space j @ ''.jpg'')" using q(2) by (simp add: proper_name_def slash_def)
    moreover have "CHR ''/'' \<in> set (''ring/'' @ trim_space i @ ''.jpg'')" by simp
    ultimately show False by metis
  qed
  then show ?thesis using p q(1) r by (simp add: proper_name_def slash_def)
qed

theorem pictures_stay_apart_witness:
  "snapshot_path ''/data'' '' door'' = Some ''/data/snapshots/door.jpg'' \<and>
   snapshot_ringPath ''/data'' '' door'' = Some ''/data/snapshots/ring/door.jpg'' \<and>
   snapshot_path ''/data'' ''../x'' = None"
proof -
  have t: "trim_space '' door'' = ''door''" "trim_space ''../x'' = ''../x''" by code_simp+
  have j: "path_join [''/data'', ''snapshots''] = ''/data/snapshots''" by code_simp
  have n: "entrypointFileName '' door'' = Some ''door''" "entrypointFileName ''../x'' = None"
    by (simp_all add: entrypointFileName_def t slash_def path_base_def trim_slashes_def after_last_slash_def)
  then obtain p r where p: "snapshot_path ''/data'' '' door'' = Some p" "snapshot_ringPath ''/data'' '' door'' = Some r"
    by (simp add: snapshot_path_def snapshot_ringPath_def)
  then show ?thesis using pictures_stay_apart [OF p p(1)] n(2) by (simp add: t j snapshot_path_def)
qed

section \<open>A reader never sees a part\<close>

definition dated :: "'d \<Rightarrow> time \<Rightarrow> 'd stored" where
  "dated d mtime = \<lparr>f_content = Some d, f_mtime = (if is_zero_time mtime then None else Some mtime)\<rparr>"

lemma run_atomic_prefix:
  "pl_target (fst (run_atomic fails mtime d (take n (atomic_steps mtime)) p)) \<in> {pl_target p, Some (dated d mtime)}"
  by (auto simp: atomic_steps_def dated_def take_Cons' split: if_splits)

lemma writeFileAtomicFunc_ok:
  "writeFileAtomicFunc fails mtime d p = (p', None) \<Longrightarrow> pl_target p' = Some (dated d mtime)"
  by (auto simp: writeFileAtomicFunc_def atomic_steps_def dated_def split: prod.splits if_splits)

lemma writeFileAtomicFunc_error:
  "writeFileAtomicFunc fails mtime d p = (p', Some e) \<Longrightarrow> pl_target p' = pl_target p"
  by (auto simp: writeFileAtomicFunc_def atomic_steps_def split: prod.splits if_splits)

interpretation media_file: atomic_writer
  "\<lambda>fails (d, mtime) p. map_prod id (\<lambda>err. err = None) (writeFileAtomicFunc fails mtime d p)" pl_target "\<lambda>(d, mtime). Some (dated d mtime)"
proof
  fix f s and d :: "'d \<times> time"
  obtain x t where d: "d = (x, t)" by (cases d)
  obtain p err where w: "writeFileAtomicFunc f t x s = (p, err)" by (cases "writeFileAtomicFunc f t x s")
  show "pl_target (fst ((\<lambda>(d, mtime) p. map_prod id (\<lambda>err. err = None) (writeFileAtomicFunc f mtime d p)) d s)) = pl_target s \<or>
        pl_target (fst ((\<lambda>(d, mtime) p. map_prod id (\<lambda>err. err = None) (writeFileAtomicFunc f mtime d p)) d s)) =
        (case d of (d, mtime) \<Rightarrow> Some (dated d mtime))"
    using writeFileAtomicFunc_ok [of f t x s p] writeFileAtomicFunc_error [of f t x s p] w by (cases err) (auto simp: d)
  show "pl_target (fst ((\<lambda>(d, mtime) p. map_prod id (\<lambda>err. err = None) (writeFileAtomicFunc f mtime d p)) d s)) =
        (case d of (d, mtime) \<Rightarrow> Some (dated d mtime))"
    if "snd ((\<lambda>(d, mtime) p. map_prod id (\<lambda>err. err = None) (writeFileAtomicFunc f mtime d p)) d s)"
    using writeFileAtomicFunc_ok [of f t x s p] w that by (auto simp: d)
qed

end
