(* ===== verification/Media_Clip.thy ===== *)
theory Media_Clip
  imports Media_Files Media_Fanout "HOL-Library.Signed_Division"
begin

text \<open>
  The ring clips of \<^verbatim>\<open>src/internal/media/ringclip.go\<close>: the writer that turns the video of a ring into the samples of a
  clip, and the recorder with its clips, their queues and goroutines.

  The H.264 depacketizer and the AVCC encoder belong to third-party libraries: \<open>decode\<close> maps the state of a
  depacketizer and a packet to its next state and what it returns, \<open>avcc\<close> is the encoder, \<open>None\<close> its error. The MP4
  multiplexer is left out; the track it gets is \<open>clip_track\<close>. RTP timestamps are 32-bit words, and the position of a
  sample is their signed difference, as in the code. Sizes are integers; the lemmas bound them.

  A clip's goroutine is cut at every receive. A call of \<^verbatim>\<open>VideoRTP\<close> is two steps, the look at \<^verbatim>\<open>closed\<close> and the send,
  and \<^verbatim>\<open>Start\<close> is two steps, the exchange of the active clip and the close of the clip before.
\<close>

section \<open>The writer of a clip\<close>

type_synonym bytes = "8 word list"

definition ringClipMaxDuration :: duration where "ringClipMaxDuration = 15 * second"
definition ringClipMinDuration :: duration where "ringClipMinDuration = second"
definition ringClipMaxBytes :: int where "ringClipMaxBytes = 8388608"
definition ringClipPacketBufferSize :: nat where "ringClipPacketBufferSize = 256"
definition ringClipTimescale :: int where "ringClipTimescale = 90000"
definition ringClipMaxTicks :: int where "ringClipMaxTicks = (ringClipMaxDuration sdiv second) * ringClipTimescale"
definition ringClipDefaultSampleDuration :: int where "ringClipDefaultSampleDuration = 3000"
definition ringClipFreeSpaceReserve :: "64 word" where "ringClipFreeSpaceReserve = 4194304"

record clipSample =
  cs_pts :: int
  cs_payload :: bytes
  cs_idr :: bool

record 'd clipWriter =
  cw_decoder :: 'd
  cw_sps :: "bytes option"
  cw_pps :: "bytes option"
  cw_started :: bool
  cw_firstTimestamp :: "32 word"
  cw_recordedAt :: time
  cw_samples :: "clipSample list"
  cw_size :: int
  cw_rejectedPackets :: nat
  cw_droppedAccessUnits :: nat

definition newClipWriter :: "'d \<Rightarrow> 'd clipWriter" where
  "newClipWriter decoder =
     \<lparr>cw_decoder = decoder, cw_sps = None, cw_pps = None, cw_started = False, cw_firstTimestamp = 0, cw_recordedAt = 0,
      cw_samples = [], cw_size = 0, cw_rejectedPackets = 0, cw_droppedAccessUnits = 0\<rparr>"

text \<open>The loop over the NAL units of an access unit, and the variables it sets.\<close>

record naluScan =
  ns_sps :: "bytes option"
  ns_pps :: "bytes option"
  ns_idr :: bool
  ns_nalus :: "bytes list"

definition scan_nalu :: "naluScan \<Rightarrow> bytes \<Rightarrow> naluScan" where
  "scan_nalu s nalu =
     (case nalu of
        [] \<Rightarrow> s
      | b # _ \<Rightarrow>
          let kind = b AND 0x1f in
          if kind = 7 then s\<lparr>ns_sps := Some nalu\<rparr>
          else if kind = 8 then s\<lparr>ns_pps := Some nalu\<rparr>
          else if kind = 9 then s
          else if kind = 5 then s\<lparr>ns_idr := True, ns_nalus := ns_nalus s @ [nalu]\<rparr>
          else s\<lparr>ns_nalus := ns_nalus s @ [nalu]\<rparr>)"

definition scan_nalus :: "bytes list \<Rightarrow> naluScan" where
  "scan_nalus = foldl scan_nalu \<lparr>ns_sps = None, ns_pps = None, ns_idr = False, ns_nalus = []\<rparr>"

definition drop_unit :: "'d clipWriter \<Rightarrow> 'd clipWriter" where
  "drop_unit w = w\<lparr>cw_droppedAccessUnits := cw_droppedAccessUnits w + 1\<rparr>"

text \<open>The part of \<^verbatim>\<open>accessUnit\<close> behind the start; the result says whether the clip is complete.\<close>

definition append_sample :: "'d clipWriter \<Rightarrow> int \<Rightarrow> bytes \<Rightarrow> bool \<Rightarrow> 'd clipWriter" where
  "append_sample w pts payload idr =
     (let n = length (cw_samples w) in
      if n > 0 \<and> pts = cs_pts (cw_samples w ! (n - 1)) then
        let l = cw_samples w ! (n - 1) in
        w\<lparr>cw_samples := (cw_samples w)[n - 1 := l\<lparr>cs_payload := cs_payload l @ payload, cs_idr := cs_idr l \<or> idr\<rparr>],
          cw_size := cw_size w + int (length payload)\<rparr>
      else
        w\<lparr>cw_samples := cw_samples w @ [\<lparr>cs_pts = pts, cs_payload = payload, cs_idr = idr\<rparr>],
          cw_size := cw_size w + int (length payload)\<rparr>)"

definition add_sample :: "(bytes list \<Rightarrow> bytes option) \<Rightarrow> 'd clipWriter \<Rightarrow> 32 word \<Rightarrow> naluScan \<Rightarrow> 'd clipWriter \<times> bool" where
  "add_sample avcc w timestamp s =
     (if ns_nalus s = [] then (drop_unit w, False)
      else
        let pts = sint (timestamp - cw_firstTimestamp w); n = length (cw_samples w) in
        if pts \<ge> ringClipMaxTicks then (w, True)
        else if n > 0 \<and> pts < cs_pts (cw_samples w ! (n - 1)) then (drop_unit w, False)
        else
          case avcc (ns_nalus s) of
            None \<Rightarrow> (drop_unit w, False)
          | Some payload \<Rightarrow>
              if cw_size w + int (length payload) > ringClipMaxBytes then (w, True)
              else (append_sample w pts payload (ns_idr s), False))"

definition or_else :: "'a option \<Rightarrow> 'a option \<Rightarrow> 'a option" where
  "or_else x y = (case x of None \<Rightarrow> y | Some _ \<Rightarrow> x)"

definition accessUnit ::
  "(bytes list \<Rightarrow> bytes option) \<Rightarrow> time \<Rightarrow> 'd clipWriter \<Rightarrow> 32 word \<Rightarrow> bytes list \<Rightarrow> 'd clipWriter \<times> bool" where
  "accessUnit avcc now w timestamp unit =
     (let s = scan_nalus unit in
      if \<not> cw_started w then
        let w = w\<lparr>cw_sps := or_else (ns_sps s) (cw_sps w), cw_pps := or_else (ns_pps s) (cw_pps w)\<rparr> in
        if \<not> ns_idr s \<or> cw_sps w = None \<or> cw_pps w = None then (drop_unit w, False)
        else add_sample avcc (w\<lparr>cw_started := True, cw_firstTimestamp := timestamp, cw_recordedAt := now\<rparr>) timestamp s
      else if ns_sps s \<noteq> None \<and> ns_sps s \<noteq> cw_sps w then (w, True)
      else add_sample avcc w timestamp s)"

datatype decoded = MorePacketsNeeded | DecodeError | Decoded "bytes list"

definition clip_push ::
  "('d \<Rightarrow> Packet \<Rightarrow> 'd \<times> decoded) \<Rightarrow> (bytes list \<Rightarrow> bytes option) \<Rightarrow> time \<Rightarrow> 'd clipWriter \<Rightarrow> Packet \<Rightarrow> 'd clipWriter \<times> bool" where
  "clip_push decode avcc now w packet =
     (case decode (cw_decoder w) packet of
        (d, MorePacketsNeeded) \<Rightarrow> (w\<lparr>cw_decoder := d\<rparr>, False)
      | (d, DecodeError) \<Rightarrow> (w\<lparr>cw_decoder := d, cw_rejectedPackets := cw_rejectedPackets w + 1\<rparr>, False)
      | (d, Decoded unit) \<Rightarrow> accessUnit avcc now (w\<lparr>cw_decoder := d\<rparr>) (pk_timestamp packet) unit)"

definition sampleDuration :: "'d clipWriter \<Rightarrow> nat \<Rightarrow> int" where
  "sampleDuration w i =
     (if i + 1 < length (cw_samples w) then cs_pts (cw_samples w ! (i + 1)) - cs_pts (cw_samples w ! i)
      else if i > 0 then cs_pts (cw_samples w ! i) - cs_pts (cw_samples w ! (i - 1))
      else ringClipDefaultSampleDuration)"

definition ticksToDuration :: "int \<Rightarrow> duration" where
  "ticksToDuration ticks = (ticks * second) sdiv ringClipTimescale"

definition clip_duration :: "'d clipWriter \<Rightarrow> duration" where
  "clip_duration w =
     (let n = length (cw_samples w) in
      if n = 0 then 0 else ticksToDuration (cs_pts (cw_samples w ! (n - 1)) + sampleDuration w (n - 1)))"

text \<open>\<^verbatim>\<open>marshalTo\<close>: the track handed to the multiplexer.\<close>

record pmp4_Sample =
  ps_Duration :: "32 word"
  ps_IsNonSyncSample :: bool
  ps_PayloadSize :: "32 word"
  ps_payload :: bytes

record pmp4_Track =
  pt_TimeScale :: int
  pt_SPS :: "bytes option"
  pt_PPS :: "bytes option"
  pt_Samples :: "pmp4_Sample list"

definition clip_sample :: "'d clipWriter \<Rightarrow> nat \<Rightarrow> pmp4_Sample" where
  "clip_sample w i =
     (let s = cw_samples w ! i in
      \<lparr>ps_Duration = word_of_int (sampleDuration w i), ps_IsNonSyncSample = (\<not> cs_idr s),
       ps_PayloadSize = word_of_int (int (length (cs_payload s))), ps_payload = cs_payload s\<rparr>)"

definition clip_track :: "'d clipWriter \<Rightarrow> pmp4_Track" where
  "clip_track w =
     \<lparr>pt_TimeScale = ringClipTimescale, pt_SPS = cw_sps w, pt_PPS = cw_pps w,
      pt_Samples = map (clip_sample w) [0..<length (cw_samples w)]\<rparr>"

section \<open>The recorder\<close>

text \<open>
  A clip with its queue and the place of its goroutine: not started yet, receiving, emptying the queue after the close,
  in \<^verbatim>\<open>finish\<close> before and after it left the recorder, and ended.
\<close>

datatype clip_phase = ClipStarting | ClipReceiving | ClipDraining | ClipFinishing | ClipSaving | ClipDone

record 'd RingClip =
  rc_entrypointID :: string
  rc_path :: string
  rc_packets :: "Packet list"
  rc_closed :: bool
  rc_phase :: clip_phase
  rc_writer :: "'d clipWriter"

text \<open>
  The recorder, its clips by number, the calls of \<^verbatim>\<open>Start\<close> that still have to close the clip before, the calls of
  \<^verbatim>\<open>VideoRTP\<close> before their send, the files, and how often \<^verbatim>\<open>onSaved\<close> was called.
\<close>

record 'd ClipSys =
  cy_dir :: string
  cy_active :: "nat option"
  cy_clips :: "'d RingClip list"
  cy_starts :: "(nat \<times> nat option) list"
  cy_sends :: "(nat \<times> Packet) list"
  cy_files :: "string \<Rightarrow> pmp4_Track stored option"
  cy_saved :: nat

definition newRingClipRecorder :: "string \<Rightarrow> (string \<Rightarrow> pmp4_Track stored option) \<Rightarrow> 'd ClipSys" where
  "newRingClipRecorder dir files =
     \<lparr>cy_dir = dir, cy_active = None, cy_clips = [], cy_starts = [], cy_sends = [], cy_files = files, cy_saved = 0\<rparr>"

definition upd_clip :: "nat \<Rightarrow> ('d RingClip \<Rightarrow> 'd RingClip) \<Rightarrow> 'd ClipSys \<Rightarrow> 'd ClipSys" where
  "upd_clip i f s = (if i < length (cy_clips s) then s\<lparr>cy_clips := (cy_clips s)[i := f (cy_clips s ! i)]\<rparr> else s)"

definition clip_Close :: "'d RingClip \<Rightarrow> 'd RingClip" where
  "clip_Close c = c\<lparr>rc_closed := True\<rparr>"

text \<open>\<^verbatim>\<open>Start\<close> up to its unlock, given the initial depacketizer or the failure of its initialisation.\<close>

definition recorder_Start :: "'d option \<Rightarrow> string \<Rightarrow> 'd ClipSys \<Rightarrow> 'd ClipSys" where
  "recorder_Start init entrypointID s =
     (case clip_path (cy_dir s) entrypointID of
        None \<Rightarrow> s
      | Some path \<Rightarrow>
          (case init of
             None \<Rightarrow> s
           | Some d \<Rightarrow>
               let i = length (cy_clips s) in
               s\<lparr>cy_clips := cy_clips s @
                    [\<lparr>rc_entrypointID = entrypointID, rc_path = path, rc_packets = [], rc_closed = False,
                      rc_phase = ClipStarting, rc_writer = newClipWriter d\<rparr>],
                 cy_active := Some i, cy_starts := cy_starts s @ [(i, cy_active s)]\<rparr>))"

text \<open>The close of the clip before, and the goroutine of the new one.\<close>

definition recorder_Start_rest :: "nat \<times> nat option \<Rightarrow> 'd ClipSys \<Rightarrow> 'd ClipSys" where
  "recorder_Start_rest st s =
     upd_clip (fst st) (rc_phase_update (\<lambda>_. ClipReceiving))
       (case snd st of None \<Rightarrow> s | Some previous \<Rightarrow> upd_clip previous clip_Close s)"

definition clip_send :: "Packet \<Rightarrow> 'd RingClip \<Rightarrow> 'd RingClip" where
  "clip_send p c =
     (if length (rc_packets c) < ringClipPacketBufferSize then c\<lparr>rc_packets := rc_packets c @ [p]\<rparr> else c)"

text \<open>A receive of the goroutine; \<open>again\<close> is where it waits for the next packet.\<close>

definition clip_take ::
  "('d \<Rightarrow> Packet \<Rightarrow> 'd \<times> decoded) \<Rightarrow> (bytes list \<Rightarrow> bytes option) \<Rightarrow> time \<Rightarrow> clip_phase \<Rightarrow> 'd RingClip \<Rightarrow> 'd RingClip" where
  "clip_take decode avcc now again c =
     (case rc_packets c of
        [] \<Rightarrow> c
      | p # ps \<Rightarrow>
          (case clip_push decode avcc now (rc_writer c) p of
             (w, complete) \<Rightarrow>
               c\<lparr>rc_packets := ps, rc_writer := w, rc_phase := (if complete then ClipFinishing else again)\<rparr>))"

text \<open>\<^verbatim>\<open>hasRoomFor\<close>, given whether the directory could be made and the free space, \<open>None\<close> when it could not be read.\<close>

definition hasRoomFor :: "bool \<Rightarrow> 64 word option \<Rightarrow> int \<Rightarrow> bool" where
  "hasRoomFor made free bytes =
     (made \<and> (case free of None \<Rightarrow> True | Some f \<Rightarrow> \<not> f < word_of_int bytes + ringClipFreeSpaceReserve))"


text \<open>The part of \<^verbatim>\<open>finish\<close> behind the recorder's lock.\<close>

definition clip_save ::
  "bool \<Rightarrow> 64 word option \<Rightarrow> (atomic_step \<Rightarrow> bool) \<Rightarrow> 'd RingClip \<Rightarrow> 'd ClipSys \<Rightarrow> 'd ClipSys" where
  "clip_save made free fails c s =
     (let w = rc_writer c in
      if clip_duration w < ringClipMinDuration \<or> \<not> hasRoomFor made free (cw_size w) then s
      else
        case writeFileAtomicFunc fails (cw_recordedAt w) (clip_track w) \<lparr>pl_target = cy_files s (rc_path c), pl_temporary = None\<rparr> of
          (p, err) \<Rightarrow>
            s\<lparr>cy_files := (cy_files s)(rc_path c := pl_target p),
              cy_saved := (if err = None then cy_saved s + 1 else cy_saved s)\<rparr>)"

datatype clip_input =
    RStart string
  | RStartRest nat
  | CClose nat
  | CVideo nat Packet
  | CSend nat
  | CTake nat time
  | CSeeClosed nat
  | CDrain nat time
  | CFinish nat
  | CSave nat bool "64 word option" "atomic_step \<Rightarrow> bool"

text \<open>The steps; an input that does not fit the state changes nothing.\<close>

definition clip_at :: "'d ClipSys \<Rightarrow> nat \<Rightarrow> clip_phase \<Rightarrow> bool" where
  "clip_at s i ph \<longleftrightarrow> i < length (cy_clips s) \<and> rc_phase (cy_clips s ! i) = ph"

fun clip_step ::
  "'d option \<Rightarrow> ('d \<Rightarrow> Packet \<Rightarrow> 'd \<times> decoded) \<Rightarrow> (bytes list \<Rightarrow> bytes option) \<Rightarrow> 'd ClipSys \<Rightarrow> clip_input \<Rightarrow> 'd ClipSys" where
  "clip_step init decode avcc s (RStart e) = recorder_Start init e s"
| "clip_step init decode avcc s (RStartRest k) =
     (if k < length (cy_starts s)
      then recorder_Start_rest (cy_starts s ! k) (s\<lparr>cy_starts := drop_nth k (cy_starts s)\<rparr>) else s)"
| "clip_step init decode avcc s (CClose i) = upd_clip i clip_Close s"
| "clip_step init decode avcc s (CVideo i p) =
     (if i < length (cy_clips s) \<and> \<not> rc_closed (cy_clips s ! i) then s\<lparr>cy_sends := cy_sends s @ [(i, p)]\<rparr> else s)"
| "clip_step init decode avcc s (CSend k) =
     (if k < length (cy_sends s)
      then upd_clip (fst (cy_sends s ! k)) (clip_send (snd (cy_sends s ! k))) (s\<lparr>cy_sends := drop_nth k (cy_sends s)\<rparr>)
      else s)"
| "clip_step init decode avcc s (CTake i now) =
     (if clip_at s i ClipReceiving then upd_clip i (clip_take decode avcc now ClipReceiving) s else s)"
| "clip_step init decode avcc s (CSeeClosed i) =
     (if clip_at s i ClipReceiving \<and> rc_closed (cy_clips s ! i)
      then upd_clip i (rc_phase_update (\<lambda>_. ClipDraining)) s else s)"
| "clip_step init decode avcc s (CDrain i now) =
     (if clip_at s i ClipDraining then
        upd_clip i (\<lambda>c. if rc_packets c = [] then c\<lparr>rc_phase := ClipFinishing\<rparr>
                        else clip_take decode avcc now ClipDraining c) s
      else s)"
| "clip_step init decode avcc s (CFinish i) =
     (if clip_at s i ClipFinishing then
        (upd_clip i (\<lambda>c. (clip_Close c)\<lparr>rc_phase := ClipSaving\<rparr>) s)\<lparr>cy_active := (if cy_active s = Some i then None else cy_active s)\<rparr>
      else s)"
| "clip_step init decode avcc s (CSave i made free fails) =
     (if clip_at s i ClipSaving then
        upd_clip i (rc_phase_update (\<lambda>_. ClipDone)) (clip_save made free fails (cy_clips s ! i) s)
      else s)"

definition clip_run ::
  "'d option \<Rightarrow> ('d \<Rightarrow> Packet \<Rightarrow> 'd \<times> decoded) \<Rightarrow> (bytes list \<Rightarrow> bytes option) \<Rightarrow> 'd ClipSys \<Rightarrow> clip_input list \<Rightarrow> 'd ClipSys" where
  "clip_run init decode avcc = foldl (clip_step init decode avcc)"

text \<open>What a reader gets: \<^verbatim>\<open>Open\<close> without the errors of the system calls, and \<^verbatim>\<open>RecordedAt\<close>.\<close>

definition recorder_Open :: "'d ClipSys \<Rightarrow> string \<Rightarrow> pmp4_Track stored option" where
  "recorder_Open s entrypointID =
     (case clip_path (cy_dir s) entrypointID of None \<Rightarrow> None | Some path \<Rightarrow> cy_files s path)"


section \<open>Lemmas on the writer\<close>

definition payload_bytes :: "clipSample list \<Rightarrow> int" where
  "payload_bytes ss = sum_list (map (\<lambda>s. int (length (cs_payload s))) ss)"

text \<open>The well-formed writers.\<close>

definition writer_wf :: "'d clipWriter \<Rightarrow> bool" where
  "writer_wf w \<longleftrightarrow>
     sorted_wrt (<) (map cs_pts (cw_samples w)) \<and>
     (\<forall>s \<in> set (cw_samples w). - (2 ^ 31) \<le> cs_pts s \<and> cs_pts s < ringClipMaxTicks) \<and>
     cw_size w = payload_bytes (cw_samples w) \<and> cw_size w \<le> ringClipMaxBytes \<and>
     (cw_samples w \<noteq> [] \<longrightarrow> cw_started w) \<and> (cw_started w \<longrightarrow> cw_sps w \<noteq> None \<and> cw_pps w \<noteq> None)"

text \<open>A clip begins with a keyframe at position 0; a writer that has started holds it.\<close>

definition keyframe_first :: "clipSample list \<Rightarrow> bool" where
  "keyframe_first ss \<longleftrightarrow> (ss \<noteq> [] \<longrightarrow> cs_pts (hd ss) = 0 \<and> cs_idr (hd ss))"

definition writer_ready :: "'d clipWriter \<Rightarrow> bool" where
  "writer_ready w \<longleftrightarrow> (cw_started w \<longrightarrow> cw_samples w \<noteq> [])"

lemma payload_bytes_simps [simp]:
  "payload_bytes [] = 0" "payload_bytes (s # ss) = int (length (cs_payload s)) + payload_bytes ss"
  "payload_bytes (ss @ ts) = payload_bytes ss + payload_bytes ts"
  by (simp_all add: payload_bytes_def)

lemma newClipWriter_wf [simp]:
  "writer_wf (newClipWriter d)" "keyframe_first (cw_samples (newClipWriter d))" "writer_ready (newClipWriter d)"
  by (simp_all add: writer_wf_def newClipWriter_def ringClipMaxBytes_def keyframe_first_def writer_ready_def)

text \<open>What counts of the writer for its well-formedness.\<close>

definition same_media :: "'d clipWriter \<Rightarrow> 'e clipWriter \<Rightarrow> bool" where
  "same_media v w \<longleftrightarrow>
     cw_samples v = cw_samples w \<and> cw_size v = cw_size w \<and> cw_started v = cw_started w \<and>
     cw_sps v = cw_sps w \<and> cw_pps v = cw_pps w"

lemma same_media_keeps:
  "same_media v w \<Longrightarrow> writer_wf w \<Longrightarrow> writer_wf v" "same_media v w \<Longrightarrow> writer_ready w \<Longrightarrow> writer_ready v"
  by (simp_all add: same_media_def writer_wf_def writer_ready_def)

lemma same_media_simps [simp]:
  "same_media (drop_unit w) w" "same_media w w" "same_media (w\<lparr>cw_decoder := d\<rparr>) w"
  "same_media (w\<lparr>cw_decoder := d, cw_rejectedPackets := n\<rparr>) w"
  by (simp_all add: same_media_def drop_unit_def)

lemma last_sample: "ss \<noteq> [] \<Longrightarrow> ss ! (length ss - Suc 0) = List.last ss"
  by (simp add: last_conv_nth)

lemma append_sample_samples:
  "cw_samples (append_sample w pts payload idr) =
     (if cw_samples w \<noteq> [] \<and> pts = cs_pts (List.last (cw_samples w))
      then butlast (cw_samples w) @
        [(List.last (cw_samples w))\<lparr>cs_payload := cs_payload (List.last (cw_samples w)) @ payload,
           cs_idr := cs_idr (List.last (cw_samples w)) \<or> idr\<rparr>]
      else cw_samples w @ [\<lparr>cs_pts = pts, cs_payload = payload, cs_idr = idr\<rparr>])"
proof (cases "cw_samples w" rule: rev_cases)
  case (snoc ss s)
  then show ?thesis by (simp add: append_sample_def Let_def list_update_append)
qed (simp add: append_sample_def)

lemma append_sample_rest:
  "cw_size (append_sample w pts payload idr) = cw_size w + int (length payload)"
  "cw_started (append_sample w pts payload idr) = cw_started w" "cw_sps (append_sample w pts payload idr) = cw_sps w"
  "cw_pps (append_sample w pts payload idr) = cw_pps w"
  by (simp_all add: append_sample_def Let_def)


lemma append_sample_wf:
  assumes w: "writer_wf w" "cw_started w" and pts: "- (2 ^ 31) \<le> pts" "pts < ringClipMaxTicks"
    and order: "cw_samples w \<noteq> [] \<Longrightarrow> cs_pts (List.last (cw_samples w)) \<le> pts"
    and bytes: "cw_size w + int (length payload) \<le> ringClipMaxBytes"
  shows "writer_wf (append_sample w pts payload idr)"
proof (cases "cw_samples w" rule: rev_cases)
  case (snoc ss s)
  then show ?thesis using assms
    by (auto simp: writer_wf_def append_sample_samples append_sample_rest sorted_wrt_append)
qed (use assms in \<open>simp add: writer_wf_def append_sample_samples append_sample_rest\<close>)

lemma append_sample_keyframe:
  assumes "keyframe_first (cw_samples w)" and "cw_samples w = [] \<Longrightarrow> pts = 0 \<and> idr"
  shows "keyframe_first (cw_samples (append_sample w pts payload idr))"
proof (cases "cw_samples w" rule: rev_cases)
  case (snoc ss s)
  then show ?thesis using assms by (cases ss) (auto simp: keyframe_first_def append_sample_samples)
qed (use assms in \<open>simp add: keyframe_first_def append_sample_samples\<close>)

lemma sint_word32_bounds: "- (2 ^ 31) \<le> sint (x :: 32 word)" "sint (x :: 32 word) < 2 ^ 31"
  using sint_ge [of x] sint_lt [of x] by simp_all

text \<open>The ways \<open>add_sample\<close> ends.\<close>

lemma add_sample_cases:
  assumes "add_sample avcc w timestamp s = (w', complete)"
  obtains
    (full) "complete" "w' = w"
  | (dropped) "\<not> complete" "w' = drop_unit w"
      "(\<exists>ns. avcc ns = None) \<or> ns_nalus s = [] \<or> cw_samples w \<noteq> []"
  | (added) pts payload where "\<not> complete" "w' = append_sample w pts payload (ns_idr s)"
      "pts = sint (timestamp - cw_firstTimestamp w)" "pts < ringClipMaxTicks"
      "cw_samples w \<noteq> [] \<longrightarrow> cs_pts (List.last (cw_samples w)) \<le> pts"
      "cw_size w + int (length payload) \<le> ringClipMaxBytes"
proof -
  let ?pts = "sint (timestamp - cw_firstTimestamp w)"
  consider "ns_nalus s = []" | "ns_nalus s \<noteq> []" "?pts \<ge> ringClipMaxTicks"
    | "ns_nalus s \<noteq> []" "?pts < ringClipMaxTicks" "cw_samples w \<noteq> []" "?pts < cs_pts (List.last (cw_samples w))"
    | "ns_nalus s \<noteq> []" "?pts < ringClipMaxTicks" "cw_samples w \<noteq> [] \<longrightarrow> cs_pts (List.last (cw_samples w)) \<le> ?pts"
    by force
  then show thesis
  proof cases
    case 1 then show ?thesis using assms dropped by (simp add: add_sample_def)
  next
    case 2 then show ?thesis using assms full by (simp add: add_sample_def)
  next
    case 3 then show ?thesis using assms dropped by (simp add: add_sample_def Let_def last_sample)
  next
    case 4
    then have "add_sample avcc w timestamp s =
        (case avcc (ns_nalus s) of None \<Rightarrow> (drop_unit w, False)
         | Some payload \<Rightarrow> if cw_size w + int (length payload) > ringClipMaxBytes then (w, True)
                           else (append_sample w ?pts payload (ns_idr s), False))"
      by (auto simp: add_sample_def Let_def last_sample)
    then show ?thesis using assms 4 full dropped added [of ?pts]
      by (cases "avcc (ns_nalus s)") (auto split: if_splits)
  qed
qed

lemma add_sample_wf:
  assumes "add_sample avcc w timestamp s = (w', complete)" and "writer_wf w" and "cw_started w"
  shows "writer_wf w'"
  using assms(1)
proof (cases rule: add_sample_cases)
  case (added pts payload)
  then show ?thesis using append_sample_wf [OF assms(2,3), of pts payload "ns_idr s"] sint_word32_bounds(1) by simp
qed (use assms(2) same_media_keeps(1) [of "drop_unit w" w] in simp_all)

lemma accessUnit_wf:
  assumes "accessUnit avcc now w timestamp au = (w', complete)" and "writer_wf w"
  shows "writer_wf w'"
proof (cases "cw_started w")
  case True
  then show ?thesis using assms add_sample_wf [of avcc w timestamp "scan_nalus au" w' complete]
    by (auto simp: accessUnit_def Let_def split: if_splits)
next
  case False
  let ?v = "w\<lparr>cw_sps := or_else (ns_sps (scan_nalus au)) (cw_sps w), cw_pps := or_else (ns_pps (scan_nalus au)) (cw_pps w)\<rparr>"
  let ?u = "?v\<lparr>cw_started := True, cw_firstTimestamp := timestamp, cw_recordedAt := now\<rparr>"
  have v: "writer_wf ?v" "writer_wf (drop_unit ?v)"
    using assms(2) False by (auto simp: writer_wf_def drop_unit_def)
  have u: "writer_wf ?u" if "cw_sps ?v \<noteq> None" "cw_pps ?v \<noteq> None"
    using assms(2) that by (auto simp: writer_wf_def)
  have start: "accessUnit avcc now w timestamp au =
      (if \<not> ns_idr (scan_nalus au) \<or> cw_sps ?v = None \<or> cw_pps ?v = None then (drop_unit ?v, False)
       else add_sample avcc ?u timestamp (scan_nalus au))"
    using False by (simp add: accessUnit_def Let_def)
  show ?thesis
  proof (cases "\<not> ns_idr (scan_nalus au) \<or> cw_sps ?v = None \<or> cw_pps ?v = None")
    case True
    then show ?thesis using assms(1) v(2) unfolding start by simp
  next
    case False
    then have "add_sample avcc ?u timestamp (scan_nalus au) = (w', complete)" using assms(1) unfolding start by (simp only: if_False)
    moreover have "writer_wf ?u"
    proof (rule u)
      show "cw_sps ?v \<noteq> None" "cw_pps ?v \<noteq> None" using False by simp_all
    qed
    ultimately show ?thesis by (rule add_sample_wf) simp
  qed
qed

text \<open>When the encoder never fails, the first sample is the keyframe that started the clip.\<close>

lemma scan_nalus_idr: "ns_idr (scan_nalus au) \<Longrightarrow> ns_nalus (scan_nalus au) \<noteq> []"
proof -
  have "ns_idr s \<longrightarrow> ns_nalus s \<noteq> [] \<Longrightarrow> ns_idr (foldl scan_nalu s au) \<longrightarrow> ns_nalus (foldl scan_nalu s au) \<noteq> []" for s
  proof (induction au arbitrary: s)
    case (Cons n au)
    have "ns_idr (scan_nalu s n) \<longrightarrow> ns_nalus (scan_nalu s n) \<noteq> []"
      using Cons.prems by (auto simp: scan_nalu_def Let_def split: list.splits)
    then show ?case using Cons.IH by simp
  qed simp
  then show "ns_idr (scan_nalus au) \<Longrightarrow> ns_nalus (scan_nalus au) \<noteq> []" by (auto simp: scan_nalus_def)
qed

lemma accessUnit_keyframe:
  assumes total: "\<forall>ns. avcc ns \<noteq> None" and "accessUnit avcc now w timestamp au = (w', complete)"
    and "keyframe_first (cw_samples w)" and "writer_wf w" and "writer_ready w"
  shows "keyframe_first (cw_samples w') \<and> (complete \<or> writer_ready w')"
proof (cases "cw_started w")
  case True
  then have ne: "cw_samples w \<noteq> []" using assms(5) by (simp add: writer_ready_def)
  have step: "keyframe_first (cw_samples w') \<and> (complete \<or> writer_ready w')"
    if "add_sample avcc w timestamp (scan_nalus au) = (w', complete)"
    using that
  proof (cases rule: add_sample_cases)
    case (added pts payload)
    have "cw_samples (append_sample w pts payload (ns_idr (scan_nalus au))) \<noteq> []" by (simp add: append_sample_samples)
    then show ?thesis using added ne append_sample_keyframe [OF assms(3)] by (simp add: writer_ready_def)
  qed (use assms(3) ne in \<open>simp_all add: writer_ready_def drop_unit_def\<close>)
  show ?thesis using assms(2,3) True step by (auto simp: accessUnit_def Let_def split: if_splits)
next
  case False
  let ?v = "w\<lparr>cw_sps := or_else (ns_sps (scan_nalus au)) (cw_sps w), cw_pps := or_else (ns_pps (scan_nalus au)) (cw_pps w)\<rparr>"
  let ?u = "?v\<lparr>cw_started := True, cw_firstTimestamp := timestamp, cw_recordedAt := now\<rparr>"
  have none: "cw_samples w = []" using assms(4) False by (auto simp: writer_wf_def)
  have start: "accessUnit avcc now w timestamp au =
      (if \<not> ns_idr (scan_nalus au) \<or> cw_sps ?v = None \<or> cw_pps ?v = None then (drop_unit ?v, False)
       else add_sample avcc ?u timestamp (scan_nalus au))"
    using False by (simp add: accessUnit_def Let_def)
  show ?thesis
  proof (cases "\<not> ns_idr (scan_nalus au) \<or> cw_sps ?v = None \<or> cw_pps ?v = None")
    case True
    then show ?thesis using assms(2) none False unfolding start
      by (auto simp: keyframe_first_def writer_ready_def drop_unit_def)
  next
    case idr: False
    then have "add_sample avcc ?u timestamp (scan_nalus au) = (w', complete)" using assms(2) unfolding start by (simp only: if_False)
    then show ?thesis
    proof (cases rule: add_sample_cases)
      case (added pts payload)
      have "cw_samples (append_sample ?u pts payload True) = [\<lparr>cs_pts = pts, cs_payload = payload, cs_idr = True\<rparr>]"
        using none by (simp add: append_sample_samples)
      then show ?thesis using added idr by (simp add: keyframe_first_def writer_ready_def)
    next
      case dropped
      then show ?thesis using idr none total scan_nalus_idr by auto
    qed (use none in \<open>simp add: keyframe_first_def\<close>)
  qed
qed

lemma clip_push_keeps:
  assumes "clip_push decode avcc now w p = (w', complete)" and "writer_wf w"
  shows "writer_wf w'"
    and "\<forall>ns. avcc ns \<noteq> None \<Longrightarrow> keyframe_first (cw_samples w) \<Longrightarrow> writer_ready w \<Longrightarrow>
         keyframe_first (cw_samples w') \<and> (complete \<or> writer_ready w')"
proof -
  obtain d r where d: "decode (cw_decoder w) p = (d, r)" by (cases "decode (cw_decoder w) p")
  have same: "writer_wf (w\<lparr>cw_decoder := d\<rparr>)" "writer_wf (w\<lparr>cw_decoder := d, cw_rejectedPackets := n\<rparr>)" for n
    by (rule same_media_keeps(1) [OF _ assms(2)], simp)+
  show "writer_wf w'"
    using assms(1) d same(1) same(2) [of "cw_rejectedPackets w + 1"] accessUnit_wf [of avcc now "w\<lparr>cw_decoder := d\<rparr>" "pk_timestamp p" _ w' complete]
    by (cases r) (auto simp: clip_push_def)
  show "keyframe_first (cw_samples w') \<and> (complete \<or> writer_ready w')"
    if "\<forall>ns. avcc ns \<noteq> None" "keyframe_first (cw_samples w)" "writer_ready w"
    using assms(1) d that accessUnit_keyframe [OF that(1), of now "w\<lparr>cw_decoder := d\<rparr>" "pk_timestamp p" _ w' complete] same(1)
    by (cases r) (auto simp: clip_push_def writer_ready_def)
qed


section \<open>Durations\<close>

lemma ringClipMaxTicks_eq: "ringClipMaxTicks = 1350000"
  by (simp add: ringClipMaxTicks_def ringClipMaxDuration_def second_def ringClipTimescale_def signed_divide_int_def)

lemma clip_pts_less:
  "writer_wf w \<Longrightarrow> i < j \<Longrightarrow> j < length (cw_samples w) \<Longrightarrow> cs_pts (cw_samples w ! i) < cs_pts (cw_samples w ! j)"
  by (auto simp: writer_wf_def sorted_wrt_iff_nth_less)

lemma clip_pts_bounds:
  "writer_wf w \<Longrightarrow> i < length (cw_samples w) \<Longrightarrow>
   - (2 ^ 31) \<le> cs_pts (cw_samples w ! i) \<and> cs_pts (cw_samples w ! i) < 1350000"
  by (simp add: writer_wf_def ringClipMaxTicks_eq)

lemma sampleDuration_bounds:
  assumes "writer_wf w" and "i < length (cw_samples w)"
  shows "0 < sampleDuration w i \<and> sampleDuration w i < 2 ^ 32"
proof -
  have gap: "0 < cs_pts (cw_samples w ! (j + 1)) - cs_pts (cw_samples w ! j) \<and>
      cs_pts (cw_samples w ! (j + 1)) - cs_pts (cw_samples w ! j) < 2 ^ 32" if "j + 1 < length (cw_samples w)" for j
    using clip_pts_less [OF assms(1) _ that] clip_pts_bounds [OF assms(1), of j] clip_pts_bounds [OF assms(1) that] that
    by simp
  consider "i + 1 < length (cw_samples w)" | "i + 1 = length (cw_samples w)" "i > 0" | "i + 1 = length (cw_samples w)" "i = 0"
    using assms(2) by linarith
  then show ?thesis
  proof cases
    case 1 then show ?thesis using gap by (simp add: sampleDuration_def)
  next
    case 2 then show ?thesis using gap [of "i - 1"] by (simp add: sampleDuration_def)
  next
    case 3 then show ?thesis by (simp add: sampleDuration_def ringClipDefaultSampleDuration_def)
  qed
qed

lemma sampleDuration_telescope:
  "k < length (cw_samples w) \<Longrightarrow>
   sum_list (map (sampleDuration w) [0..<k]) = cs_pts (cw_samples w ! k) - cs_pts (cw_samples w ! 0)"
proof (induction k)
  case (Suc k)
  then show ?case using Suc.IH by (simp add: sampleDuration_def)
qed simp

lemma sampleDuration_sum:
  assumes "cw_samples w \<noteq> []" and "keyframe_first (cw_samples w)"
  shows "sum_list (map (sampleDuration w) [0..<length (cw_samples w)]) =
         cs_pts (cw_samples w ! (length (cw_samples w) - 1)) + sampleDuration w (length (cw_samples w) - 1)"
proof -
  obtain n where n: "length (cw_samples w) = Suc n" using assms(1) by (cases "cw_samples w") auto
  have "cs_pts (cw_samples w ! 0) = 0" using assms by (simp add: keyframe_first_def hd_conv_nth)
  then show ?thesis using sampleDuration_telescope [of n w] by (simp add: n)
qed

lemma ticksToDuration_min: "ringClipMinDuration \<le> ticksToDuration ticks \<longleftrightarrow> 90000 \<le> ticks"
proof (cases "0 \<le> ticks")
  case True
  then have "ticksToDuration ticks = ticks * second div 90000"
    by (cases "ticks = 0") (simp_all add: ticksToDuration_def ringClipTimescale_def signed_divide_int_def second_def sgn_if)
  moreover have "second \<le> ticks * second div 90000" if "90000 \<le> ticks"
    using zdiv_mono1 [of "90000 * second" "ticks * second" 90000] that by (simp add: second_def)
  moreover have "ticks * second div 90000 < second" if "ticks \<le> 89999"
    using zdiv_mono1 [of "ticks * second" "89999 * second" 90000] that by (simp add: second_def)
  ultimately show ?thesis by (cases "90000 \<le> ticks") (simp_all add: ringClipMinDuration_def)
next
  case False
  then have "ticksToDuration ticks \<le> 0"
    by (simp add: ticksToDuration_def ringClipTimescale_def signed_divide_int_def second_def sgn_if)
  then show ?thesis using False by (simp add: ringClipMinDuration_def second_def)
qed

text \<open>A track a player can show: keyframe first, parameter sets, durations and sizes that are not cut off, and its limits.\<close>

definition track_length :: "pmp4_Track \<Rightarrow> int" where
  "track_length t = sum_list (map (\<lambda>s. uint (ps_Duration s)) (pt_Samples t))"

definition track_bytes :: "pmp4_Track \<Rightarrow> int" where
  "track_bytes t = sum_list (map (\<lambda>s. uint (ps_PayloadSize s)) (pt_Samples t))"

definition track_sound :: "pmp4_Track \<Rightarrow> bool" where
  "track_sound t \<longleftrightarrow>
     (\<forall>s \<in> set (pt_Samples t). 0 < ps_Duration s \<and> uint (ps_PayloadSize s) = int (length (ps_payload s))) \<and>
     track_bytes t \<le> ringClipMaxBytes \<and>
     (pt_Samples t \<noteq> [] \<longrightarrow> pt_SPS t \<noteq> None \<and> pt_PPS t \<noteq> None)"

definition track_playable :: "pmp4_Track \<Rightarrow> bool" where
  "track_playable t \<longleftrightarrow>
     track_sound t \<and> pt_Samples t \<noteq> [] \<and> \<not> ps_IsNonSyncSample (hd (pt_Samples t)) \<and>
     ringClipTimescale \<le> track_length t \<and> track_length t < 2 * ringClipMaxTicks"

lemma clip_sample_fields:
  assumes "writer_wf w" and "i < length (cw_samples w)"
  shows "uint (ps_Duration (clip_sample w i)) = sampleDuration w i"
    and "uint (ps_PayloadSize (clip_sample w i)) = int (length (cs_payload (cw_samples w ! i)))"
proof -
  show "uint (ps_Duration (clip_sample w i)) = sampleDuration w i"
    using sampleDuration_bounds [OF assms] by (simp add: clip_sample_def Let_def uint_word_of_int_eq take_bit_int_eq_self)
  have "int (length (cs_payload (cw_samples w ! i))) \<le> payload_bytes (cw_samples w)"
    unfolding payload_bytes_def using assms(2)
    by (intro member_le_sum_list) (auto intro!: rev_image_eqI [where x = "cw_samples w ! i"])
  also have "\<dots> \<le> 8388608" using assms(1) by (simp add: writer_wf_def ringClipMaxBytes_def)
  finally show "uint (ps_PayloadSize (clip_sample w i)) = int (length (cs_payload (cw_samples w ! i)))"
    by (simp add: clip_sample_def Let_def unsigned_of_nat take_bit_nat_eq_self)
qed

lemma clip_track_sums:
  assumes "writer_wf w"
  shows "track_length (clip_track w) = sum_list (map (sampleDuration w) [0..<length (cw_samples w)])"
    and "track_bytes (clip_track w) = cw_size w"
proof -
  show "track_length (clip_track w) = sum_list (map (sampleDuration w) [0..<length (cw_samples w)])"
    unfolding track_length_def clip_track_def
    by (auto simp: comp_def clip_sample_fields(1) [OF assms] intro!: arg_cong [where f = sum_list] map_cong)
  have "map (\<lambda>i. uint (ps_PayloadSize (clip_sample w i))) [0..<length (cw_samples w)] =
      map (\<lambda>s. int (length (cs_payload s))) (cw_samples w)"
    by (rule nth_equalityI) (simp_all add: clip_sample_fields(2) [OF assms])
  then show "track_bytes (clip_track w) = cw_size w"
    using assms unfolding track_bytes_def clip_track_def writer_wf_def payload_bytes_def
    by (simp add: comp_def)
qed

lemma clip_track_sound:
  assumes "writer_wf w" shows "track_sound (clip_track w)"
proof -
  have "0 < ps_Duration (clip_sample w i)" if "i < length (cw_samples w)" for i
    using clip_sample_fields(1) [OF assms that] sampleDuration_bounds [OF assms that] by (simp add: word_less_def)
  then show ?thesis
    using assms clip_sample_fields(2) [OF assms] clip_track_sums(2) [OF assms]
    by (auto simp: track_sound_def clip_track_def clip_sample_def Let_def writer_wf_def)
qed

lemma clip_track_playable:
  assumes "writer_wf w" and "keyframe_first (cw_samples w)" and "ringClipMinDuration \<le> clip_duration w"
  shows "track_playable (clip_track w)"
proof -
  let ?n = "length (cw_samples w)"
  have ne: "cw_samples w \<noteq> []" using assms(3) by (auto simp: clip_duration_def ringClipMinDuration_def second_def)
  let ?ticks = "cs_pts (cw_samples w ! (?n - 1)) + sampleDuration w (?n - 1)"
  have len: "track_length (clip_track w) = ?ticks"
    using clip_track_sums(1) [OF assms(1)] sampleDuration_sum [OF ne assms(2)] by simp
  have min: "90000 \<le> ?ticks" using assms(3) ne by (simp add: clip_duration_def Let_def ticksToDuration_min)
  have p0: "cs_pts (cw_samples w ! 0) = 0" "cs_idr (cw_samples w ! 0)"
    using assms(2) ne by (simp_all add: keyframe_first_def hd_conv_nth)
  have "?ticks < 2 * 1350000"
  proof (cases "?n = 1")
    case True
    then show ?thesis using min p0 by (simp add: sampleDuration_def ringClipDefaultSampleDuration_def)
  next
    case False
    moreover obtain k where "?n = Suc k" using ne by (cases "cw_samples w") auto
    ultimately obtain m where n: "?n = Suc (Suc m)" by (cases k) auto
    have "0 \<le> cs_pts (cw_samples w ! m)"
      using clip_pts_less [OF assms(1), of 0 m] p0(1) n by (cases "m = 0") auto
    then show ?thesis using clip_pts_bounds [OF assms(1), of "Suc m"] n by (simp add: sampleDuration_def)
  qed
  moreover have "\<not> ps_IsNonSyncSample (hd (pt_Samples (clip_track w)))"
    using ne p0(2) by (simp add: clip_track_def hd_map clip_sample_def Let_def)
  ultimately show ?thesis
    using clip_track_sound [OF assms(1)] min ne len
    by (simp add: track_playable_def ringClipTimescale_def ringClipMaxTicks_eq) (simp add: clip_track_def)
qed


section \<open>The recorder and its clips\<close>

definition clip_ok :: "'d RingClip \<Rightarrow> bool" where
  "clip_ok c \<longleftrightarrow>
     writer_wf (rc_writer c) \<and> keyframe_first (cw_samples (rc_writer c)) \<and>
     (rc_phase c \<in> {ClipStarting, ClipReceiving, ClipDraining} \<longrightarrow> writer_ready (rc_writer c)) \<and>
     (rc_phase c \<in> {ClipDraining, ClipSaving, ClipDone} \<longrightarrow> rc_closed c) \<and>
     length (rc_packets c) \<le> ringClipPacketBufferSize"

definition clips_ok :: "'d ClipSys \<Rightarrow> bool" where
  "clips_ok s \<longleftrightarrow> list_all clip_ok (cy_clips s)"

text \<open>The links between the recorder and its clips: an open clip is the active one, or a start is about to close it.\<close>

definition links_ok :: "'d ClipSys \<Rightarrow> bool" where
  "links_ok s \<longleftrightarrow>
     (\<forall>i. i < length (cy_clips s) \<and> \<not> rc_closed (cy_clips s ! i) \<longrightarrow>
        cy_active s = Some i \<or> (\<exists>k. (k, Some i) \<in> set (cy_starts s)))"

lemma upd_clip_fields [simp]:
  "cy_active (upd_clip i f s) = cy_active s" "cy_starts (upd_clip i f s) = cy_starts s"
  "cy_sends (upd_clip i f s) = cy_sends s" "cy_files (upd_clip i f s) = cy_files s" "cy_dir (upd_clip i f s) = cy_dir s"
  "length (cy_clips (upd_clip i f s)) = length (cy_clips s)"
  by (simp_all add: upd_clip_def)

lemma upd_clip_nth:
  "j < length (cy_clips s) \<Longrightarrow> cy_clips (upd_clip i f s) ! j = (if i = j then f (cy_clips s ! j) else cy_clips s ! j)"
  by (simp add: upd_clip_def)

lemma upd_clip_ok:
  assumes "clips_ok s" and "\<And>c. i < length (cy_clips s) \<Longrightarrow> c = cy_clips s ! i \<Longrightarrow> clip_ok c \<Longrightarrow> clip_ok (f c)"
  shows "clips_ok (upd_clip i f s)"
  unfolding clips_ok_def list_all_length
proof (intro allI impI)
  fix j assume "j < length (cy_clips (upd_clip i f s))"
  then show "clip_ok (cy_clips (upd_clip i f s) ! j)"
    using assms(1) assms(2) [OF _ refl] by (auto simp: upd_clip_nth clips_ok_def list_all_length)
qed

lemma upd_clip_links:
  assumes "links_ok s" and "\<And>c. rc_closed c \<Longrightarrow> rc_closed (f c)" shows "links_ok (upd_clip i f s)"
  using assms by (auto simp: links_ok_def upd_clip_nth split: if_splits)

lemma clip_Close_ok: "clip_ok c \<Longrightarrow> clip_ok (clip_Close c)"
  by (auto simp: clip_ok_def clip_Close_def)

lemma clip_send_ok: "clip_ok c \<Longrightarrow> clip_ok (clip_send p c)"
  by (auto simp: clip_ok_def clip_send_def)

lemma clip_take_ok:
  assumes total: "\<forall>ns. avcc ns \<noteq> None" and "clip_ok c" and "rc_phase c = again"
    and "again = ClipReceiving \<or> again = ClipDraining \<and> rc_closed c"
  shows "clip_ok (clip_take decode avcc now again c)"
proof (cases "rc_packets c")
  case (Cons p ps)
  obtain w complete where w: "clip_push decode avcc now (rc_writer c) p = (w, complete)"
    by (cases "clip_push decode avcc now (rc_writer c) p")
  have "writer_wf w \<and> keyframe_first (cw_samples w) \<and> (complete \<or> writer_ready w)"
    using clip_push_keeps(1) [OF w] clip_push_keeps(2) [OF w _ total] assms(2,3,4) by (auto simp: clip_ok_def)
  then show ?thesis using assms(2,3,4) Cons w by (auto simp: clip_take_def clip_ok_def)
qed (use assms in \<open>simp add: clip_take_def\<close>)

lemma clip_take_closed [simp]: "rc_closed (clip_take decode avcc now again c) = rc_closed c"
  by (auto simp: clip_take_def split: list.splits prod.splits)

lemma clip_save_fields [simp]:
  "cy_clips (clip_save made free fails c s) = cy_clips s" "cy_active (clip_save made free fails c s) = cy_active s"
  "cy_starts (clip_save made free fails c s) = cy_starts s" "cy_dir (clip_save made free fails c s) = cy_dir s"
  by (auto simp: clip_save_def Let_def split: prod.splits)

lemma clips_ok_cong: "cy_clips t = cy_clips s \<Longrightarrow> clips_ok s \<Longrightarrow> clips_ok t"
  by (simp add: clips_ok_def)

lemma recorder_Start_ok: "clips_ok s \<Longrightarrow> clips_ok (recorder_Start init e s)"
  by (auto simp: clips_ok_def recorder_Start_def clip_ok_def Let_def split: option.splits)

lemma phase_Receiving_ok: "clip_ok c \<Longrightarrow> rc_phase c = ClipStarting \<Longrightarrow> clip_ok (c\<lparr>rc_phase := ClipReceiving\<rparr>)"
  by (simp add: clip_ok_def)

text \<open>A start is pending only for clips whose goroutine does not run yet, and for each of them once.\<close>

definition starts_ok :: "'d ClipSys \<Rightarrow> bool" where
  "starts_ok s \<longleftrightarrow>
     distinct (map fst (cy_starts s)) \<and> (\<forall>st \<in> set (cy_starts s). clip_at s (fst st) ClipStarting)"


definition sys_ok :: "'d ClipSys \<Rightarrow> bool" where
  "sys_ok s \<longleftrightarrow> clips_ok s \<and> links_ok s \<and> starts_ok s"

lemma sys_ok_new: "sys_ok (newRingClipRecorder dir files)"
  by (simp add: sys_ok_def newRingClipRecorder_def clips_ok_def links_ok_def starts_ok_def)

lemma drop_nth_split:
  assumes "k < length xs" shows "xs = take k xs @ xs ! k # drop (Suc k) xs" "drop_nth k xs = take k xs @ drop (Suc k) xs"
  using id_take_nth_drop [OF assms] by (simp_all add: drop_nth_def)

lemma distinct_drop_nth:
  assumes "k < length xs" and "distinct (map f xs)"
  shows "distinct (map f (drop_nth k xs)) \<and> (\<forall>x \<in> set (drop_nth k xs). f x \<noteq> f (xs ! k))"
proof -
  have "distinct (map f (take k xs @ xs ! k # drop (Suc k) xs))" using drop_nth_split(1) [OF assms(1)] assms(2) by metis
  then show ?thesis unfolding drop_nth_def by simp (metis UnE imageI)
qed

lemma set_drop_nth: "k < length xs \<Longrightarrow> set xs = insert (xs ! k) (set (drop_nth k xs))"
  using drop_nth_split(1) [of k xs] unfolding drop_nth_def
  by (metis Un_insert_right list.simps(15) set_append)

lemma upd_clip_starts:
  assumes "starts_ok s" and "\<And>c. c = cy_clips s ! i \<Longrightarrow> rc_phase c = ClipStarting \<Longrightarrow> rc_phase (f c) = ClipStarting"
  shows "starts_ok (upd_clip i f s)"
  using assms by (auto simp: starts_ok_def clip_at_def upd_clip_nth)

text \<open>An update of one clip that keeps it closed and starting keeps the invariant of the recorder.\<close>

lemma upd_clip_sys:
  assumes "sys_ok s"
    and "\<And>c. i < length (cy_clips s) \<Longrightarrow> c = cy_clips s ! i \<Longrightarrow> clip_ok c \<Longrightarrow> clip_ok (f c)"
    and "\<And>c. rc_closed c \<Longrightarrow> rc_closed (f c)"
    and "\<And>c. c = cy_clips s ! i \<Longrightarrow> rc_phase c = ClipStarting \<Longrightarrow> rc_phase (f c) = ClipStarting"
  shows "sys_ok (upd_clip i f s)"
  using assms upd_clip_ok [of s i f] upd_clip_links [of s f i] upd_clip_starts [of s i f] by (simp add: sys_ok_def)

lemma recorder_Start_sys:
  assumes "sys_ok s" shows "sys_ok (recorder_Start init e s)"
proof -
  let ?t = "recorder_Start init e s"
  have "links_ok ?t"
    unfolding links_ok_def
  proof (intro allI impI)
    fix i assume i: "i < length (cy_clips ?t) \<and> \<not> rc_closed (cy_clips ?t ! i)"
    show "cy_active ?t = Some i \<or> (\<exists>k. (k, Some i) \<in> set (cy_starts ?t))"
    proof (cases "i < length (cy_clips s)")
      case True
      then have "\<not> rc_closed (cy_clips s ! i)"
        using i by (auto simp: recorder_Start_def Let_def nth_append split: option.splits)
      then have "cy_active s = Some i \<or> (\<exists>k. (k, Some i) \<in> set (cy_starts s))"
        using True assms by (auto simp: sys_ok_def links_ok_def)
      then show ?thesis by (auto simp: recorder_Start_def Let_def split: option.splits)
    next
      case False
      then show ?thesis using i by (auto simp: recorder_Start_def Let_def split: option.splits)
    qed
  qed
  moreover have "starts_ok ?t"
    using assms by (auto simp: sys_ok_def recorder_Start_def starts_ok_def clip_at_def Let_def nth_append split: option.splits)
  ultimately show ?thesis using assms recorder_Start_ok [of s init e] by (simp add: sys_ok_def)
qed

lemma recorder_Start_rest_sys:
  assumes "sys_ok s" and "k < length (cy_starts s)"
  shows "sys_ok (recorder_Start_rest (cy_starts s ! k) (s\<lparr>cy_starts := drop_nth k (cy_starts s)\<rparr>))"
proof -
  obtain i previous where st: "cy_starts s ! k = (i, previous)" by (cases "cy_starts s ! k")
  let ?s = "s\<lparr>cy_starts := drop_nth k (cy_starts s)\<rparr>"
  let ?t = "case previous of None \<Rightarrow> ?s | Some p \<Rightarrow> upd_clip p clip_Close ?s"
  let ?u = "upd_clip i (rc_phase_update (\<lambda>_. ClipReceiving)) ?t"
  have starting: "clip_at s i ClipStarting"
    using assms st nth_mem [OF assms(2)] unfolding sys_ok_def starts_ok_def by fastforce
  have t: "clips_ok ?t" "length (cy_clips ?t) = length (cy_clips s)" "cy_starts ?t = drop_nth k (cy_starts s)" "cy_active ?t = cy_active s"
    using assms(1) upd_clip_ok [of ?s _ clip_Close] clip_Close_ok
    by (auto simp: sys_ok_def clips_ok_def split: option.splits)
  have phase: "rc_phase (cy_clips ?t ! j) = rc_phase (cy_clips s ! j)" if "j < length (cy_clips s)" for j
    using that by (auto simp: upd_clip_nth clip_Close_def split: option.splits)
  have closed: "rc_closed (cy_clips ?t ! j) \<longleftrightarrow> rc_closed (cy_clips s ! j) \<or> previous = Some j" if "j < length (cy_clips s)" for j
    using that by (auto simp: upd_clip_nth clip_Close_def split: option.splits)
  have "clips_ok ?u"
    using starting phase [of i] by (intro upd_clip_ok t(1)) (auto simp: clip_at_def intro: phase_Receiving_ok)
  moreover have "links_ok ?u"
  proof -
    have "cy_active s = Some j \<or> (\<exists>k'. (k', Some j) \<in> set (drop_nth k (cy_starts s)))"
      if "j < length (cy_clips s)" "\<not> rc_closed (cy_clips s ! j)" "previous \<noteq> Some j" for j
      using assms(1) that st set_drop_nth [OF assms(2)] unfolding sys_ok_def links_ok_def by auto
    moreover have "rc_closed (cy_clips ?u ! j) \<longleftrightarrow> rc_closed (cy_clips s ! j) \<or> previous = Some j" if "j < length (cy_clips s)" for j
      using closed [OF that] that t(2) by (simp add: upd_clip_nth)
    ultimately show ?thesis unfolding links_ok_def upd_clip_fields t(2,3,4) by blast
  qed
  moreover have "starts_ok ?u"
  proof -
    have d: "distinct (map fst (drop_nth k (cy_starts s)))" "\<forall>x \<in> set (drop_nth k (cy_starts s)). fst x \<noteq> i"
      using assms distinct_drop_nth [OF assms(2), of fst] st by (simp_all add: sys_ok_def starts_ok_def)
    have "clip_at ?u (fst x) ClipStarting" if "x \<in> set (drop_nth k (cy_starts s))" for x
    proof -
      have "clip_at s (fst x) ClipStarting"
        using that drop_nth_subset [of k "cy_starts s"] assms(1) by (auto simp: sys_ok_def starts_ok_def)
      then show ?thesis using phase [of "fst x"] d(2) that t(2) by (auto simp: clip_at_def upd_clip_nth)
    qed
    then show ?thesis using d(1) t(3) unfolding starts_ok_def upd_clip_fields by simp
  qed
  ultimately show ?thesis by (simp add: sys_ok_def recorder_Start_rest_def st)
qed

lemma clip_finish_sys:
  assumes "sys_ok s" and "clip_at s i ClipFinishing"
  shows "sys_ok ((upd_clip i (\<lambda>c. (clip_Close c)\<lparr>rc_phase := ClipSaving\<rparr>) s)\<lparr>cy_active := (if cy_active s = Some i then None else cy_active s)\<rparr>)"
    (is "sys_ok (?t\<lparr>cy_active := ?a\<rparr>)")
proof -
  have t: "sys_ok ?t"
    using assms by (intro upd_clip_sys) (auto simp: clip_at_def clip_ok_def clip_Close_def)
  have "rc_closed (cy_clips ?t ! i)" using assms(2) by (simp add: clip_at_def upd_clip_nth clip_Close_def)
  then show ?thesis using t by (auto simp: sys_ok_def clips_ok_def links_ok_def starts_ok_def clip_at_def)
qed

lemma clip_step_sys:
  assumes total: "\<forall>ns. avcc ns \<noteq> None" and ok: "sys_ok s"
  shows "sys_ok (clip_step init decode avcc s i)"
proof (cases i)
  case (RStart e)
  then show ?thesis using recorder_Start_sys [OF ok] by simp
next
  case (RStartRest k)
  then show ?thesis using recorder_Start_rest_sys [OF ok] ok by simp
next
  case (CClose k)
  then show ?thesis using ok upd_clip_sys [of s k clip_Close] by (simp add: clip_Close_ok) (simp add: clip_Close_def)
next
  case (CVideo k p)
  then show ?thesis using ok by (simp add: sys_ok_def clips_ok_def links_ok_def starts_ok_def clip_at_def)
next
  case (CSend k)
  have "sys_ok (s\<lparr>cy_sends := ps\<rparr>)" for ps
    using ok by (simp add: sys_ok_def clips_ok_def links_ok_def starts_ok_def clip_at_def)
  then show ?thesis using CSend ok by (auto intro!: upd_clip_sys clip_send_ok simp: clip_send_def)
next
  case (CTake k now)
  then show ?thesis using ok by (auto intro!: upd_clip_sys clip_take_ok [OF total] simp: clip_at_def)
next
  case (CSeeClosed k)
  then show ?thesis using ok by (auto intro!: upd_clip_sys simp: clip_at_def clip_ok_def)
next
  case (CDrain k now)
  have "clip_ok (if rc_packets c = [] then c\<lparr>rc_phase := ClipFinishing\<rparr> else clip_take decode avcc now ClipDraining c)"
    if "clip_ok c" "rc_phase c = ClipDraining" for c :: "'a RingClip"
    using that clip_take_ok [OF total that] by (auto simp: clip_ok_def)
  then show ?thesis using CDrain ok by (auto intro!: upd_clip_sys simp: clip_at_def)
next
  case (CFinish k)
  then show ?thesis using ok clip_finish_sys [OF ok] by simp
next
  case (CSave k made free fails)
  have "sys_ok (clip_save made free fails c s)" for c
    using ok by (simp add: sys_ok_def clips_ok_def links_ok_def starts_ok_def clip_at_def)
  then show ?thesis using CSave ok by (auto intro!: upd_clip_sys simp: clip_at_def clip_ok_def)
qed

lemma clip_run_sys:
  "\<forall>ns. avcc ns \<noteq> None \<Longrightarrow> sys_ok s \<Longrightarrow> sys_ok (clip_run init decode avcc s is)"
  by (induction "is" arbitrary: s) (simp_all add: clip_run_def clip_step_sys)


section \<open>What the recorder leaves on disk\<close>

lemma clip_save_files:
  "cy_files (clip_save made free fails c s) path = cy_files s path \<or>
   path = rc_path c \<and> ringClipMinDuration \<le> clip_duration (rc_writer c) \<and>
   cy_files (clip_save made free fails c s) path = Some (dated (clip_track (rc_writer c)) (cw_recordedAt (rc_writer c)))"
  using media_file.write_view
    [of fails "(clip_track (rc_writer c), cw_recordedAt (rc_writer c))" "\<lparr>pl_target = cy_files s (rc_path c), pl_temporary = None\<rparr>"]
  by (auto simp: clip_save_def Let_def split: prod.splits)

lemma upd_clip_files: "cy_files (upd_clip i f s) = cy_files s"
  by simp

lemma clip_step_files:
  assumes "sys_ok s"
  shows "cy_files (clip_step init decode avcc s i) path = cy_files s path \<or>
         (\<exists>track t. cy_files (clip_step init decode avcc s i) path = Some (dated track t) \<and> track_playable track)"
proof (cases i)
  case (CSave k made free fails)
  show ?thesis
  proof (cases "clip_at s k ClipSaving")
    case True
    let ?c = "cy_clips s ! k"
    have "clip_ok ?c" using assms True by (simp add: sys_ok_def clips_ok_def list_all_length clip_at_def)
    then have "track_playable (clip_track (rc_writer ?c))" if "ringClipMinDuration \<le> clip_duration (rc_writer ?c)"
      using that by (simp add: clip_ok_def clip_track_playable)
    then show ?thesis using clip_save_files [of made free fails ?c s path] True CSave by auto
  qed (simp add: CSave)
qed (auto simp: recorder_Start_def recorder_Start_rest_def Let_def split: option.splits)


section \<open>Types of the tracks\<close>

definition writers_wf :: "'d ClipSys \<Rightarrow> bool" where
  "writers_wf s \<longleftrightarrow> list_all (\<lambda>c. writer_wf (rc_writer c)) (cy_clips s)"

lemma writers_wf_upd:
  assumes "writers_wf s" and "\<And>c. writer_wf (rc_writer c) \<Longrightarrow> writer_wf (rc_writer (f c))"
  shows "writers_wf (upd_clip i f s)"
  using assms by (auto simp: writers_wf_def list_all_length upd_clip_nth)

lemma clip_take_wf: "writer_wf (rc_writer c) \<Longrightarrow> writer_wf (rc_writer (clip_take decode avcc now again c))"
  by (auto simp: clip_take_def split: list.splits prod.splits dest: clip_push_keeps(1))

lemma clip_step_writers: "writers_wf s \<Longrightarrow> writers_wf (clip_step init decode avcc s i)"
proof (cases i)
  case (RStart e)
  assume "writers_wf s"
  then show ?thesis using RStart by (auto simp: writers_wf_def recorder_Start_def Let_def split: option.splits)
next
  case (RStartRest k)
  assume s: "writers_wf s"
  then have "writers_wf (s\<lparr>cy_starts := st\<rparr>)" for st by (simp add: writers_wf_def)
  then show ?thesis using RStartRest s
    by (auto simp: recorder_Start_rest_def clip_Close_def intro!: writers_wf_upd split: option.splits)
next
  case (CSend k)
  assume s: "writers_wf s"
  then have "writers_wf (s\<lparr>cy_sends := st\<rparr>)" for st by (simp add: writers_wf_def)
  then show ?thesis using CSend s by (auto simp: clip_send_def intro!: writers_wf_upd)
next
  case (CSave k made free fails)
  assume s: "writers_wf s"
  then have "writers_wf (clip_save made free fails c s)" for c by (simp add: writers_wf_def)
  then show ?thesis using CSave s by (auto intro!: writers_wf_upd)
next
  case (CFinish k)
  assume s: "writers_wf s"
  then have "writers_wf (upd_clip k (\<lambda>c. (clip_Close c)\<lparr>rc_phase := ClipSaving\<rparr>) s)" by (auto simp: clip_Close_def intro!: writers_wf_upd)
  then show ?thesis using CFinish s by (auto simp: writers_wf_def)
qed (auto simp: clip_Close_def clip_take_wf writers_wf_def [of "_\<lparr>cy_sends := _\<rparr>"] intro!: writers_wf_upd, simp_all add: writers_wf_def)

lemma clip_run_writers: "writers_wf s \<Longrightarrow> writers_wf (clip_run init decode avcc s is)"
  by (induction "is" arbitrary: s) (simp_all add: clip_run_def clip_step_writers)

text \<open>
  C30. Whatever the depacketizer and the encoder return, in every state of the recorder the samples of each clip are in
  strictly increasing order across every wrap-around of the RTP timestamps, its size is that of its payloads and at most
  8 MiB, and the 32-bit durations and sizes of the track are the ones computed: none is zero, negative or too big.
\<close>

theorem clip_tracks_typed:
  "\<forall>c \<in> set (cy_clips (clip_run init decode avcc (newRingClipRecorder dir files) is)).
     writer_wf (rc_writer c) \<and> track_sound (clip_track (rc_writer c)) \<and>
     track_length (clip_track (rc_writer c)) = sum_list (map (sampleDuration (rc_writer c)) [0..<length (cw_samples (rc_writer c))]) \<and>
     track_bytes (clip_track (rc_writer c)) = payload_bytes (cw_samples (rc_writer c))"
proof
  fix c assume c: "c \<in> set (cy_clips (clip_run init decode avcc (newRingClipRecorder dir files) is))"
  have "writers_wf (clip_run init decode avcc (newRingClipRecorder dir files) is)"
    by (rule clip_run_writers) (simp add: writers_wf_def newRingClipRecorder_def)
  then have wf: "writer_wf (rc_writer c)" using c by (auto simp: writers_wf_def list_all_iff)
  then show "writer_wf (rc_writer c) \<and> track_sound (clip_track (rc_writer c)) \<and>
     track_length (clip_track (rc_writer c)) = sum_list (map (sampleDuration (rc_writer c)) [0..<length (cw_samples (rc_writer c))]) \<and>
     track_bytes (clip_track (rc_writer c)) = payload_bytes (cw_samples (rc_writer c))"
    using clip_track_sound [OF wf] clip_track_sums [OF wf] by (simp add: writer_wf_def)
qed


section \<open>Every clip ends\<close>

text \<open>The steps of the goroutine of a closed clip: see the close, empty the queue, leave the recorder, save.\<close>

lemma upd_clip_at [simp]: "i < length (cy_clips s) \<Longrightarrow> cy_clips (upd_clip i f s) ! i = f (cy_clips s ! i)"
  by (simp add: upd_clip_nth)

lemma clip_take_packets: "rc_packets (clip_take decode avcc now again c) = tl (rc_packets c)"
  by (cases "rc_packets c") (simp_all add: clip_take_def split: prod.splits)

lemma clip_take_phase:
  "rc_phase c = again \<Longrightarrow> rc_phase (clip_take decode avcc now again c) \<in> {again, ClipFinishing}"
  by (cases "rc_packets c") (simp_all add: clip_take_def split: prod.splits)

lemma clip_run_Cons: "clip_run init decode avcc s (i # is) = clip_run init decode avcc (clip_step init decode avcc s i) is"
  by (simp add: clip_run_def)

lemma clip_run_append:
  "clip_run init decode avcc s (is @ js) = clip_run init decode avcc (clip_run init decode avcc s is) js"
  by (simp add: clip_run_def)

lemma finishing_clip_ends:
  assumes "clip_at s i ClipFinishing"
  shows "clip_at (clip_run init decode avcc s [CFinish i, CSave i made free fails]) i ClipDone"
  using assms by (simp add: clip_run_def clip_at_def)

lemma draining_clip_ends:
  assumes "clip_at s i ClipDraining"
  shows "\<exists>n \<le> length (rc_packets (cy_clips s ! i)) + 1.
    clip_at (clip_run init decode avcc s (replicate n (CDrain i now) @ [CFinish i, CSave i made free fails])) i ClipDone"
  using assms
proof (induction "length (rc_packets (cy_clips s ! i))" arbitrary: s)
  case 0
  then have "clip_at (clip_step init decode avcc s (CDrain i now)) i ClipFinishing" by (simp add: clip_at_def)
  then show ?case using finishing_clip_ends [of "clip_step init decode avcc s (CDrain i now)"]
    by (intro exI [where x = 1]) (simp add: clip_run_Cons)
next
  case (Suc k)
  let ?s = "clip_step init decode avcc s (CDrain i now)"
  have ne: "rc_packets (cy_clips s ! i) \<noteq> []" using Suc.hyps(2) by auto
  have s: "cy_clips ?s ! i = clip_take decode avcc now ClipDraining (cy_clips s ! i)" "i < length (cy_clips ?s)"
    using Suc.prems ne by (simp_all add: clip_at_def)
  then have len: "k = length (rc_packets (cy_clips ?s ! i))" using Suc.hyps(2) by (simp add: clip_take_packets)
  have phase: "rc_phase (cy_clips ?s ! i) \<in> {ClipDraining, ClipFinishing}"
    using s(1) Suc.prems clip_take_phase [of "cy_clips s ! i" ClipDraining decode avcc now] by (simp add: clip_at_def)
  show ?case
  proof (cases "rc_phase (cy_clips ?s ! i) = ClipDraining")
    case True
    then obtain n where "n \<le> k + 1"
      "clip_at (clip_run init decode avcc ?s (replicate n (CDrain i now) @ [CFinish i, CSave i made free fails])) i ClipDone"
      using Suc.hyps(1) [OF len] s(2) len by (auto simp: clip_at_def)
    then show ?thesis using Suc.hyps(2) by (intro exI [where x = "Suc n"]) (simp add: clip_run_Cons)
  next
    case False
    then have "clip_at ?s i ClipFinishing" using phase s(2) by (simp add: clip_at_def)
    then show ?thesis using finishing_clip_ends [of ?s]
      by (intro exI [where x = 1]) (simp add: clip_run_Cons)
  qed
qed

text \<open>
  Once a clip is closed its goroutine ends by itself, whatever video is queued: at most one step for every queued packet
  and four more, and the queue holds 256 packets at most. While no start of a clip is under way, the only clip
  that may still be open is the active one.
\<close>

theorem closed_clip_ends:
  assumes "\<forall>ns. avcc ns \<noteq> None" and "s = clip_run init decode avcc (newRingClipRecorder dir files) is"
    and "i < length (cy_clips s)" and "rc_closed (cy_clips s ! i)" and "rc_phase (cy_clips s ! i) = ClipReceiving"
  shows "(\<exists>n \<le> 257. clip_at (clip_run init decode avcc s
             (CSeeClosed i # replicate n (CDrain i now) @ [CFinish i, CSave i made free fails])) i ClipDone) \<and>
         (\<forall>j. cy_starts s = [] \<and> j < length (cy_clips s) \<and> \<not> rc_closed (cy_clips s ! j) \<longrightarrow> cy_active s = Some j)"
proof -
  have ok: "sys_ok s" unfolding assms(2) by (rule clip_run_sys [OF assms(1) sys_ok_new])
  let ?t = "clip_step init decode avcc s (CSeeClosed i)"
  have t: "clip_at ?t i ClipDraining" "rc_packets (cy_clips ?t ! i) = rc_packets (cy_clips s ! i)"
    using assms(3,4,5) by (simp_all add: clip_at_def)
  have "length (rc_packets (cy_clips s ! i)) \<le> 256"
    using ok assms(3) by (simp add: sys_ok_def clips_ok_def list_all_length clip_ok_def ringClipPacketBufferSize_def)
  moreover obtain n where "n \<le> length (rc_packets (cy_clips s ! i)) + 1" and n: "clip_at (clip_run init decode avcc ?t
      (replicate n (CDrain i now) @ [CFinish i, CSave i made free fails])) i ClipDone"
    using draining_clip_ends [OF t(1), of init decode avcc now made free fails] unfolding t(2) by blast
  ultimately have "n \<le> 257" by simp
  with n have "\<exists>n \<le> 257. clip_at (clip_run init decode avcc s
      (CSeeClosed i # replicate n (CDrain i now) @ [CFinish i, CSave i made free fails])) i ClipDone"
    unfolding clip_run_Cons by blast
  then show ?thesis using ok by (auto simp: sys_ok_def links_ok_def)
qed


section \<open>A clip of two seconds\<close>

text \<open>A depacketizer for packets that hold one NAL unit, and an encoder that joins them.\<close>

definition sample_decode :: "unit \<Rightarrow> Packet \<Rightarrow> unit \<times> decoded" where
  "sample_decode d p = (d, Decoded [pk_payload p])"

definition sample_avcc :: "bytes list \<Rightarrow> bytes option" where
  "sample_avcc ns = Some (concat ns)"

definition sample_packet :: "32 word \<Rightarrow> 8 word \<Rightarrow> Packet" where
  "sample_packet t b = \<lparr>pk_timestamp = t, pk_sequence = 0, pk_ssrc = 1, pk_payload = [b, 1]\<rparr>"

text \<open>Parameter sets, a keyframe right before the wrap-around of the timestamp, and a frame a second later.\<close>

definition sample_clip_inputs :: "clip_input list" where
  "sample_clip_inputs =
     [RStart ''door'', RStartRest 0,
      CVideo 0 (sample_packet 4294967295 0x67), CSend 0, CTake 0 5,
      CVideo 0 (sample_packet 4294967295 0x68), CSend 0, CTake 0 5,
      CVideo 0 (sample_packet 4294967295 0x65), CSend 0, CTake 0 7,
      CVideo 0 (sample_packet 89999 0x41), CClose 0, CSend 0]"

lemma sample_clip_path: "clip_path ''/d'' ''door'' = Some ''/d/clips/ring/door.mp4''"
proof -
  have "trim_space ''door'' = ''door''" by code_simp
  then have "entrypointFileName ''door'' = Some ''door''"
    by (simp add: entrypointFileName_def slash_def path_base_def trim_slashes_def after_last_slash_def)
  moreover have "path_join [''/d'', ''clips'', ''ring'', ''door.mp4''] = ''/d/clips/ring/door.mp4''" by code_simp
  ultimately show ?thesis by (simp add: clip_path_def)
qed


lemma sample_clip_writer:
  "clip_push sample_decode sample_avcc t1
     (fst (clip_push sample_decode sample_avcc 7
        (fst (clip_push sample_decode sample_avcc t2
           (fst (clip_push sample_decode sample_avcc t3 (newClipWriter ()) (sample_packet 4294967295 0x67)))
           (sample_packet 4294967295 0x68)))
        (sample_packet 4294967295 0x65)))
     (sample_packet 89999 0x41) =
   (\<lparr>cw_decoder = (), cw_sps = Some [0x67, 1], cw_pps = Some [0x68, 1], cw_started = True, cw_firstTimestamp = 4294967295,
     cw_recordedAt = 7, cw_samples = [\<lparr>cs_pts = 0, cs_payload = [0x65, 1], cs_idr = True\<rparr>, \<lparr>cs_pts = 90000, cs_payload = [0x41, 1], cs_idr = False\<rparr>],
     cw_size = 4, cw_rejectedPackets = 0, cw_droppedAccessUnits = 2\<rparr>, False)"
  by (simp add: clip_push_def sample_decode_def sample_packet_def accessUnit_def scan_nalus_def scan_nalu_def Let_def newClipWriter_def
      or_else_def add_sample_def append_sample_def drop_unit_def sample_avcc_def ringClipMaxTicks_eq ringClipMaxBytes_def)


lemma sample_clip_run:
  "clip_run (Some ()) sample_decode sample_avcc (newRingClipRecorder ''/d'' Map.empty) sample_clip_inputs =
     \<lparr>cy_dir = ''/d'', cy_active = Some 0,
      cy_clips = [\<lparr>rc_entrypointID = ''door'', rc_path = ''/d/clips/ring/door.mp4'', rc_packets = [sample_packet 89999 0x41],
        rc_closed = True, rc_phase = ClipReceiving,
        rc_writer = fst (clip_push sample_decode sample_avcc 7
           (fst (clip_push sample_decode sample_avcc 5
              (fst (clip_push sample_decode sample_avcc 5 (newClipWriter ()) (sample_packet 4294967295 0x67)))
              (sample_packet 4294967295 0x68)))
           (sample_packet 4294967295 0x65))\<rparr>],
      cy_starts = [], cy_sends = [], cy_files = Map.empty, cy_saved = 0\<rparr>"
proof -
  show ?thesis
  by (simp add: sample_clip_inputs_def clip_run_def recorder_Start_def sample_clip_path newRingClipRecorder_def
      clip_at_def upd_clip_def clip_send_def clip_take_def clip_Close_def recorder_Start_rest_def drop_nth_def ringClipPacketBufferSize_def
      clip_push_def sample_decode_def sample_packet_def accessUnit_def scan_nalus_def scan_nalu_def Let_def newClipWriter_def
      or_else_def add_sample_def append_sample_def drop_unit_def sample_avcc_def ringClipMaxTicks_eq ringClipMaxBytes_def)
qed


lemma sample_avcc_total: "\<forall>ns. sample_avcc ns \<noteq> None"
  by (simp add: sample_avcc_def)

definition sample_clip_end :: "clip_input list" where
  "sample_clip_end = [CSeeClosed 0, CDrain 0 9, CDrain 0 9, CFinish 0, CSave 0 True None (\<lambda>_. False)]"

lemma sample_clip_finished:
  "clip_run (Some ()) sample_decode sample_avcc
     (clip_run (Some ()) sample_decode sample_avcc (newRingClipRecorder ''/d'' Map.empty) sample_clip_inputs)
     [CSeeClosed 0, CDrain 0 9, CDrain 0 9, CFinish 0] =
     \<lparr>cy_dir = ''/d'', cy_active = None,
      cy_clips = [\<lparr>rc_entrypointID = ''door'', rc_path = ''/d/clips/ring/door.mp4'', rc_packets = [], rc_closed = True,
        rc_phase = ClipSaving,
        rc_writer = \<lparr>cw_decoder = (), cw_sps = Some [0x67, 1], cw_pps = Some [0x68, 1], cw_started = True, cw_firstTimestamp = 4294967295,
          cw_recordedAt = 7, cw_samples = [\<lparr>cs_pts = 0, cs_payload = [0x65, 1], cs_idr = True\<rparr>, \<lparr>cs_pts = 90000, cs_payload = [0x41, 1], cs_idr = False\<rparr>],
          cw_size = 4, cw_rejectedPackets = 0, cw_droppedAccessUnits = 2\<rparr>\<rparr>],
      cy_starts = [], cy_sends = [], cy_files = Map.empty, cy_saved = 0\<rparr>"
  unfolding sample_clip_run
  by (simp add: clip_run_def clip_at_def upd_clip_def clip_take_def clip_Close_def sample_clip_writer)

lemma sample_clip_saved:
  "cy_files (clip_run (Some ()) sample_decode sample_avcc (newRingClipRecorder ''/d'' Map.empty) (sample_clip_inputs @ sample_clip_end))
     ''/d/clips/ring/door.mp4'' \<noteq> None"
proof -
  have split: "sample_clip_inputs @ sample_clip_end =
      sample_clip_inputs @ [CSeeClosed 0, CDrain 0 9, CDrain 0 9, CFinish 0] @ [CSave 0 True None (\<lambda>_. False)]"
    by (simp add: sample_clip_end_def)
  show ?thesis
    unfolding split clip_run_append sample_clip_finished
    by (simp add: clip_run_def clip_at_def clip_save_def clip_duration_def sampleDuration_def ticksToDuration_def
        ringClipTimescale_def ringClipMinDuration_def second_def signed_divide_int_def hasRoomFor_def writeFileAtomicFunc_def
        atomic_steps_def is_zero_time_def Let_def)
qed


theorem clip_tracks_typed_witness:
  "cy_clips (clip_run (Some ()) sample_decode sample_avcc (newRingClipRecorder ''/d'' Map.empty) sample_clip_inputs) \<noteq> [] \<and>
   track_sound (clip_track (rc_writer (hd (cy_clips
     (clip_run (Some ()) sample_decode sample_avcc (newRingClipRecorder ''/d'' Map.empty) sample_clip_inputs)))))"
proof -
  have "cy_clips (clip_run (Some ()) sample_decode sample_avcc (newRingClipRecorder ''/d'' Map.empty) sample_clip_inputs) \<noteq> []"
    by (simp add: sample_clip_run)
  then show ?thesis
    using clip_tracks_typed [of "Some ()" sample_decode sample_avcc "''/d''" Map.empty sample_clip_inputs] by simp
qed

theorem closed_clip_ends_witness:
  "\<exists>n \<le> 257. clip_at (clip_run (Some ()) sample_decode sample_avcc
     (clip_run (Some ()) sample_decode sample_avcc (newRingClipRecorder ''/d'' Map.empty) sample_clip_inputs)
     (CSeeClosed 0 # replicate n (CDrain 0 9) @ [CFinish 0, CSave 0 True None (\<lambda>_. False)])) 0 ClipDone"
proof -
  let ?s = "clip_run (Some ()) sample_decode sample_avcc (newRingClipRecorder ''/d'' Map.empty) sample_clip_inputs"
  have "0 < length (cy_clips ?s)" "rc_closed (cy_clips ?s ! 0)" "rc_phase (cy_clips ?s ! 0) = ClipReceiving"
    by (simp_all add: sample_clip_run)
  from closed_clip_ends [OF sample_avcc_total refl this, of 9 True None "\<lambda>_. False"] show ?thesis by blast
qed

end
