(* ===== verification/Sig_Register.thy ===== *)
theory Sig_Register
  imports Go_Prelude
begin

text \<open>
  The endpoint half of the SIP dialer, \<^verbatim>\<open>src/internal/signaling/dialer.go\<close>: the addresses it dials and the loop that keeps the
  companion registered. \<open>split_host_port\<close> and \<open>join_host_port\<close> are the functions of package \<^verbatim>\<open>net\<close>; the parser of SIP URIs and
  that of IP addresses are parameters. A registration attempt is given by how long it took and whether it succeeded, the
  random number of a delay is an argument (\<open>None\<close> when the source of randomness fails), and the connection is a function of the
  number of the check. The lemmas show that a registration is renewed before it expires, that a lost connection is
  noticed at the next check, and that the delay after a failure stays between eight seconds and two minutes.
\<close>

section \<open>Package net\<close>

fun split_last :: "char \<Rightarrow> string \<Rightarrow> (string \<times> string) option" where
  "split_last c [] = None"
| "split_last c (x # xs) =
     (case split_last c xs of
        Some (a, b) \<Rightarrow> Some (x # a, b)
      | None \<Rightarrow> if x = c then Some ([], xs) else None)"

definition split_host_port :: "string \<Rightarrow> (string \<times> string) option" where
  "split_host_port s =
     (case split_last CHR '':'' s of
        None \<Rightarrow> None
      | Some (before, port) \<Rightarrow>
          if s \<noteq> [] \<and> hd s = CHR ''['' then
            (case cut '']'' s of
               None \<Rightarrow> None
             | Some (opened, after) \<Rightarrow>
                 if after = CHR '':'' # port \<and> CHR ''['' \<notin> set (tl s) \<and> CHR '']'' \<notin> set after
                 then Some (tl opened, port) else None)
          else if CHR '':'' \<in> set before \<or> CHR ''['' \<in> set s \<or> CHR '']'' \<in> set s then None
          else Some (before, port))"

definition join_host_port :: "string \<Rightarrow> string \<Rightarrow> string" where
  "join_host_port host port =
     (if CHR '':'' \<in> set host then ''['' @ host @ '']:'' @ port else host @ '':'' @ port)"

section \<open>Addresses\<close>

record Uri =
  uri_User :: string
  uri_Host :: string
  uri_Port :: int

record inviteTarget =
  it_URI :: Uri
  it_destination :: string

datatype target_error = ErrStreamTargetUnset | ErrParseTarget

text \<open>
  \<^verbatim>\<open>strconv.Atoi\<close> without its error: a number that does not fit an \<^verbatim>\<open>int\<close>, 32 bits wide on the intercom, comes back as the
  nearest one that does, and what is no number as 0.
\<close>

definition portNumber :: "string \<Rightarrow> int" where
  "portNumber raw = (case atoi raw of Some n \<Rightarrow> max (- (2 ^ 31)) (min (2 ^ 31 - 1) n) | None \<Rightarrow> 0)"

definition hostPort :: "string \<Rightarrow> string \<times> int" where
  "hostPort raw =
     (case split_host_port (trim_space raw) of None \<Rightarrow> ('''', 0) | Some (host, port) \<Rightarrow> (host, portNumber port))"

definition parseAddress :: "string \<Rightarrow> string \<times> string \<times> int" where
  "parseAddress raw =
     (case cut ''@'' (trim_prefix (trim_space raw) ''sip:'') of
        None \<Rightarrow> ('''', '''', 0)
      | Some (a, b) \<Rightarrow>
          (case split_host_port (trim_space b) of
             Some (host, port) \<Rightarrow> (trim_space a, host, portNumber port)
           | None \<Rightarrow> (trim_space a, trim_space b, 0)))"

definition uriHostPort :: "Uri \<Rightarrow> string" where
  "uriHostPort uri =
     (if uri_Host uri = '''' then ''''
      else if uri_Port uri = 0 then join_host_port (uri_Host uri) ''5060''
      else join_host_port (uri_Host uri) (fmt_d (uri_Port uri)))"

definition isIPAddressOrLocal :: "(string \<Rightarrow> bool) \<Rightarrow> string \<Rightarrow> bool" where
  "isIPAddressOrLocal isIP host =
     (let host = to_lower (trim_space host) in host = ''localhost'' \<or> host = ''0.0.0.0'' \<or> isIP host)"

definition normalizeTransport :: "string \<Rightarrow> string" where
  "normalizeTransport raw =
     (let t = to_lower (trim_space raw) in if t \<in> {''udp'', ''tcp'', ''ws'', ''wss'', ''tls''} then t else ''tcp'')"

fun firstNonEmpty :: "string list \<Rightarrow> string" where
  "firstNonEmpty [] = ''''"
| "firstNonEmpty (v # vs) = (if trim_space v \<noteq> '''' then trim_space v else firstNonEmpty vs)"

definition sip_target :: "string \<Rightarrow> string" where
  "sip_target raw = (if has_prefix (to_lower raw) ''sip:'' \<or> has_prefix (to_lower raw) ''sips:'' then raw else ''sip:'' @ raw)"

text \<open>\<^verbatim>\<open>resolveInviteTarget\<close>; \<open>domain\<close> is trimmed here as in the code.\<close>

definition resolveInviteTarget ::
  "(string \<Rightarrow> Uri option) \<Rightarrow> (string \<Rightarrow> bool) \<Rightarrow> string \<Rightarrow> string \<Rightarrow> (target_error, inviteTarget) result" where
  "resolveInviteTarget parseUri isIP rawTarget rawDomain =
     (let raw = trim_space rawTarget; domain = trim_space rawDomain in
      if raw = '''' then Err ErrStreamTargetUnset
      else
        case parseUri (sip_target raw) of
          None \<Rightarrow> Err ErrParseTarget
        | Some uri \<Rightarrow>
            let destination = uriHostPort uri;
                uri = (if CHR ''@'' \<notin> set raw \<and> uri_User uri = '''' \<and> uri_Host uri \<noteq> '''' \<and> domain \<noteq> ''''
                       then uri\<lparr>uri_User := uri_Host uri, uri_Host := domain\<rparr> else uri);
                uri = (if domain \<noteq> '''' \<and> isIPAddressOrLocal isIP (uri_Host uri) then uri\<lparr>uri_Host := domain\<rparr> else uri) in
            if uri_Host uri = '''' \<or> uri_User uri = '''' then Err ErrStreamTargetUnset
            else Ok \<lparr>it_URI = uri, it_destination = destination\<rparr>)"

section \<open>Registration\<close>

record registration =
  rn_refresh :: duration
  rn_check :: duration
  rn_timeout :: duration
  rn_retryMax :: duration

definition registerExpires :: duration where "registerExpires = 600 * second"

definition registrationLoop :: registration where
  "registrationLoop =
     \<lparr>rn_refresh = registerExpires - 10 * second, rn_check = 10 * second, rn_timeout = 4 * second, rn_retryMax = 2 * minute\<rparr>"

definition jitter :: "duration \<Rightarrow> duration \<Rightarrow> nat option \<Rightarrow> duration" where
  "jitter delay maximum random =
     (let percent = (case random of Some v \<Rightarrow> 80 + int v | None \<Rightarrow> 100) in min (delay * percent div 100) maximum)"

definition next_retry :: "registration \<Rightarrow> duration \<Rightarrow> nat option \<Rightarrow> duration" where
  "next_retry r retry random =
     jitter (if retry = 0 then rn_check r else min (retry * 2) (rn_retryMax r)) (rn_retryMax r) random"

text \<open>
  \<^verbatim>\<open>waitForRenewal\<close>: how long it waits, given whether the connection is open at each check. The ticks of the checker are at the
  multiples of its interval.
\<close>

function renewal_wait :: "registration \<Rightarrow> (nat \<Rightarrow> bool) \<Rightarrow> nat \<Rightarrow> duration" where
  "renewal_wait r connected k =
     (if rn_check r \<le> 0 \<or> rn_refresh r \<le> int k * rn_check r then rn_refresh r
      else if \<not> connected k then int k * rn_check r
      else renewal_wait r connected (Suc k))"
  by pat_completeness auto
termination
proof (relation "measure (\<lambda>(r, connected, k). nat (rn_refresh r - int k * rn_check r))", goal_cases)
  case (2 r connected k)
  then show ?case by (simp add: algebra_simps)
qed simp

declare renewal_wait.simps [simp del]

text \<open>A round of \<^verbatim>\<open>run\<close>: an attempt that began at \<open>now\<close>, and the state in which the next one begins.\<close>

datatype attempt = RegisterFailed duration "nat option" | RegisterOk duration "nat \<Rightarrow> bool"

record registrar =
  rr_now :: time
  rr_retry :: duration
  rr_failed :: bool

fun registration_round :: "registration \<Rightarrow> registrar \<Rightarrow> attempt \<Rightarrow> registrar" where
  "registration_round r s (RegisterFailed took random) =
     (let retry = next_retry r (rr_retry s) random in \<lparr>rr_now = rr_now s + took + retry, rr_retry = retry, rr_failed = True\<rparr>)"
| "registration_round r s (RegisterOk took connected) =
     \<lparr>rr_now = rr_now s + took + renewal_wait r connected 1, rr_retry = 0, rr_failed = False\<rparr>"

definition registration_run :: "registration \<Rightarrow> registrar \<Rightarrow> attempt list \<Rightarrow> registrar" where
  "registration_run r = foldl (registration_round r)"

text \<open>
  \<^verbatim>\<open>Register\<close>: the outcome of the request is the error of sending it, no response, or a response with its status and the address it
  came from. The result carries the new \<^verbatim>\<open>registrarAddr\<close>.
\<close>

datatype register_outcome = SendFailed | NoResponse | Response int string

datatype register_error = ErrRegistrationUnavailable | ErrSendRegister | ErrEmptyResponse | ErrRegisterStatus int

definition dialer_Register :: "bool \<Rightarrow> string \<Rightarrow> string \<Rightarrow> register_outcome \<Rightarrow> string \<times> register_error option" where
  "dialer_Register client host registrarAddr outcome =
     (if \<not> client \<or> host = '''' then (registrarAddr, Some ErrRegistrationUnavailable)
      else case outcome of
             SendFailed \<Rightarrow> (registrarAddr, Some ErrSendRegister)
           | NoResponse \<Rightarrow> (registrarAddr, Some ErrEmptyResponse)
           | Response status source \<Rightarrow>
               if 200 \<le> status \<and> status < 300 then (source, None) else (registrarAddr, Some (ErrRegisterStatus status)))"

definition registrarConnected :: "(string \<Rightarrow> string \<Rightarrow> bool) \<Rightarrow> string \<Rightarrow> string \<Rightarrow> bool" where
  "registrarConnected connectionOpen transport addr =
     (if transport \<noteq> ''tcp'' \<and> transport \<noteq> ''tls'' then True
      else if addr = '''' then True
      else connectionOpen transport addr)"

section \<open>The outgoing stream\<close>

text \<open>\<^verbatim>\<open>StartStream\<close> and the \<^verbatim>\<open>Bye\<close> of its dialog, given which calls of the SIP stack succeed.\<close>

datatype dial_effect = DialInvite | DialAck | DialClose | DialKeepalive string string | DialBye

datatype dial_error = ErrOutgoingInvite | ErrWaitAnswer | ErrAckInvite | ErrBye | ErrByeDeadline

definition dialer_StartStream ::
  "bool \<Rightarrow> bool \<Rightarrow> bool \<Rightarrow> string \<Rightarrow> string \<Rightarrow> dial_effect list \<times> (dial_error, unit) result" where
  "dialer_StartStream inviteOk answerOk ackOk answerSDP offer =
     (if \<not> inviteOk then ([DialInvite], Err ErrOutgoingInvite)
      else if \<not> answerOk then ([DialInvite, DialClose], Err ErrWaitAnswer)
      else if \<not> ackOk then ([DialInvite, DialAck, DialClose], Err ErrAckInvite)
      else ([DialInvite, DialAck, DialKeepalive answerSDP offer], Ok ()))"

definition observeStreamResponse :: "int \<Rightarrow> bool" where
  "observeStreamResponse status \<longleftrightarrow> 100 \<le> status \<and> status < 200 \<and> status \<noteq> 100"

definition outgoing_Bye :: "bool \<Rightarrow> bool \<Rightarrow> dial_effect list \<times> (dial_error, unit) result" where
  "outgoing_Bye byeOk endedInTime =
     (if \<not> byeOk then ([DialBye, DialClose], Err ErrBye)
      else if \<not> endedInTime then ([DialBye, DialClose], Err ErrByeDeadline)
      else ([DialBye, DialClose], Ok ()))"

section \<open>Lemmas\<close>

text \<open>A dialog that was opened is kept alive or closed, and a stream that failed keeps nothing.\<close>

lemma StartStream_closes:
  "dialer_StartStream i a k sdp offer = (effs, r) \<Longrightarrow> i \<Longrightarrow>
   (DialClose \<in> set effs) = (\<exists>e. r = Err e) \<and> (DialKeepalive sdp offer \<in> set effs) = (r = Ok ())"
  by (auto simp: dialer_StartStream_def split: if_splits)

lemma Register_error_keeps:
  "dialer_Register client host addr outcome = (addr', err) \<Longrightarrow> err \<noteq> None \<Longrightarrow> addr' = addr"
  by (auto simp: dialer_Register_def split: if_splits register_outcome.splits)

lemma split_last_append: "c \<notin> set b \<Longrightarrow> split_last c (a @ c # b) = Some (a, b)"
proof (induction a)
  case Nil
  then have "split_last c b = None" by (induction b) (auto split: option.splits)
  then show ?case by simp
qed simp

text \<open>Host and port come back from their join.\<close>

lemma split_join_host_port:
  assumes "CHR ''['' \<notin> set host" "CHR '']'' \<notin> set host" "list_all is_digit port"
  shows "split_host_port (join_host_port host port) = Some (host, port)"
proof -
  have port: "CHR '':'' \<notin> set port" "CHR ''['' \<notin> set port" "CHR '']'' \<notin> set port"
    using assms(3) by (auto simp: list_all_iff is_digit_def byte_of_def)
  show ?thesis
  proof (cases "CHR '':'' \<in> set host")
    case True
    have j: "join_host_port host port = CHR ''['' # host @ CHR '']'' # CHR '':'' # port" using True by (simp add: join_host_port_def)
    have "split_last CHR '':'' (join_host_port host port) = Some (CHR ''['' # host @ '']'', port)"
      using split_last_append [OF port(1), of "CHR ''['' # host @ '']''"] by (simp add: j)
    moreover have "cut '']'' (join_host_port host port) = Some (CHR ''['' # host, CHR '':'' # port)"
      using cut_single [of "CHR '']''" "CHR ''['' # host" "CHR '':'' # port"] assms(2) by (simp add: j)
    ultimately show ?thesis using assms port by (simp add: split_host_port_def j)
  next
    case False
    then have "split_last CHR '':'' (join_host_port host port) = Some (host, port)"
      using split_last_append [OF port(1), of host] by (simp add: join_host_port_def)
    then show ?thesis using False assms port by (cases host) (auto simp: split_host_port_def join_host_port_def)
  qed
qed

lemma hostPort_join:
  assumes "CHR ''['' \<notin> set host" "CHR '']'' \<notin> set host" "0 \<le> n" "n < 2 ^ 31" "list_all plain host"
  shows "hostPort (join_host_port host (fmt_d n)) = (host, n)"
proof -
  have "list_all plain (join_host_port host (fmt_d n))"
    using assms fmt_d_plain [OF assms(3)] by (auto simp: join_host_port_def) (simp_all add: plain_def byte_of_def)
  moreover have "list_all is_digit (fmt_d n)" using assms(3) fmt_nat_digits by (simp add: fmt_d_def)
  ultimately show ?thesis using split_join_host_port [OF assms(1,2)] atoi_fmt_d [of n] assms(3,4)
    by (simp add: hostPort_def trim_space_all_plain portNumber_def)
qed


lemma resolveInviteTarget_ok:
  assumes "resolveInviteTarget parseUri isIP rawTarget rawDomain = Ok t"
  shows "uri_User (it_URI t) \<noteq> '''' \<and> uri_Host (it_URI t) \<noteq> '''' \<and>
         (\<exists>uri. parseUri (sip_target (trim_space rawTarget)) = Some uri \<and> it_destination t = uriHostPort uri \<and>
            uri_Port (it_URI t) = uri_Port uri \<and> uri_Host (it_URI t) \<in> {uri_Host uri, trim_space rawDomain})"
  using assms
  by (auto simp: resolveInviteTarget_def Let_def split: if_splits option.splits)

text \<open>A local address stands for the domain when one is known: the URI never names it, only the destination does.\<close>

lemma resolveInviteTarget_domain:
  assumes "resolveInviteTarget parseUri isIP rawTarget rawDomain = Ok t" and "trim_space rawDomain \<noteq> ''''"
    and "\<not> isIPAddressOrLocal isIP (trim_space rawDomain)"
  shows "\<not> isIPAddressOrLocal isIP (uri_Host (it_URI t))"
  using assms
  by (auto simp: resolveInviteTarget_def Let_def split: if_splits option.splits)

section \<open>The companion stays registered\<close>

lemma renewal_wait_upper: "0 < rn_check r \<Longrightarrow> renewal_wait r connected k \<le> rn_refresh r"
  by (induction r connected k rule: renewal_wait.induct) (subst renewal_wait.simps, simp)

lemma renewal_wait_noticed:
  assumes "0 < rn_check r" and "k \<le> j" and "\<not> connected j"
  shows "renewal_wait r connected k \<le> int j * rn_check r"
  using assms
proof (induction r connected k rule: renewal_wait.induct)
  case (1 r connected k)
  have mono: "int k * rn_check r \<le> int j * rn_check r" using "1.prems"(1,2) by (simp add: mult_right_mono)
  have early: "rn_refresh r \<le> int k * rn_check r \<Longrightarrow> rn_refresh r \<le> int j * rn_check r" by (rule order_trans [OF _ mono])
  show ?case
  proof (cases "rn_refresh r \<le> int k * rn_check r \<or> \<not> connected k")
    case True
    then have "renewal_wait r connected k = rn_refresh r \<and> rn_refresh r \<le> int k * rn_check r \<or> renewal_wait r connected k = int k * rn_check r"
      using "1.prems"(1) by (subst (1 2) renewal_wait.simps) auto
    then show ?thesis using mono early by (elim disjE) simp_all
  next
    case False
    then have "Suc k \<le> j" using "1.prems"(2,3) by (metis le_neq_implies_less Suc_leI)
    then show ?thesis using "1.IH" False "1.prems" by (subst renewal_wait.simps) auto
  qed
qed

lemma next_retry_bounds:
  assumes "retry = 0 \<or> 8 * second \<le> retry \<and> retry \<le> 2 * minute" and "\<forall>v. random = Some v \<longrightarrow> v < 41"
  shows "8 * second \<le> next_retry registrationLoop retry random \<and> next_retry registrationLoop retry random \<le> 2 * minute"
proof -
  let ?d = "if retry = 0 then 10 * second else min (retry * 2) (2 * minute)"
  let ?p = "case random of Some v \<Rightarrow> 80 + int v | None \<Rightarrow> 100"
  have d: "10 * second \<le> ?d" using assms(1) by (auto simp: second_def minute_def)
  have p: "80 \<le> ?p" by (auto split: option.splits)
  have "10 * second * 80 \<le> ?d * ?p" using d p by (intro mult_mono) (auto simp: second_def)
  then have "10 * second * 80 div 100 \<le> ?d * ?p div 100" by (rule zdiv_mono1) simp
  moreover have "10 * second * 80 div 100 = 8 * second" "8 * second \<le> 2 * minute" by (simp_all add: second_def minute_def)
  moreover have "next_retry registrationLoop retry random = min (?d * ?p div 100) (2 * minute)"
    by (simp add: next_retry_def jitter_def registrationLoop_def Let_def)
  ultimately show ?thesis by (metis min.boundedI min.cobounded2)
qed

text \<open>The attempts the loop can see: they end by their timeout, and the random number is below 41.\<close>

fun attempt_ok :: "registration \<Rightarrow> attempt \<Rightarrow> bool" where
  "attempt_ok r (RegisterFailed took random) \<longleftrightarrow> 0 \<le> took \<and> took \<le> rn_timeout r \<and> (case random of Some v \<Rightarrow> v < 41 | None \<Rightarrow> True)"
| "attempt_ok r (RegisterOk took connected) \<longleftrightarrow> 0 \<le> took \<and> took \<le> rn_timeout r"

lemma registration_run_retry:
  assumes "list_all (attempt_ok registrationLoop) as"
  shows "rr_retry (registration_run registrationLoop \<lparr>rr_now = t, rr_retry = 0, rr_failed = False\<rparr> as) = 0 \<or>
    8 * second \<le> rr_retry (registration_run registrationLoop \<lparr>rr_now = t, rr_retry = 0, rr_failed = False\<rparr> as) \<and>
    rr_retry (registration_run registrationLoop \<lparr>rr_now = t, rr_retry = 0, rr_failed = False\<rparr> as) \<le> 2 * minute"
  using assms
proof (induction as rule: rev_induct)
  case (snoc a as)
  then show ?case
    using next_retry_bounds [of "rr_retry (registration_run registrationLoop \<lparr>rr_now = t, rr_retry = 0, rr_failed = False\<rparr> as)"]
    by (cases a) (auto simp: registration_run_def Let_def split: option.splits)
qed (simp add: registration_run_def)

text \<open>
  C9. After a successful registration the next attempt is over before the registration expires, and when the connection is lost it
  begins at the next check; after a failure it begins between eight seconds and two minutes later, however many
  failures came before and whatever the random numbers are.
\<close>

theorem registration_is_kept:
  assumes "s = registration_run registrationLoop \<lparr>rr_now = t, rr_retry = 0, rr_failed = False\<rparr> as"
    and "list_all (attempt_ok registrationLoop) (as @ [RegisterFailed took random, RegisterOk took' connected, next])"
  shows "rr_now (registration_round registrationLoop s (RegisterOk took' connected)) + rn_timeout registrationLoop
           < rr_now s + took' + registerExpires \<and>
         (\<forall>k \<ge> 1. \<not> connected k \<longrightarrow>
            rr_now (registration_round registrationLoop s (RegisterOk took' connected)) \<le> rr_now s + took' + int k * (10 * second)) \<and>
         8 * second \<le> rr_now (registration_round registrationLoop s (RegisterFailed took random)) - (rr_now s + took) \<and>
         rr_now (registration_round registrationLoop s (RegisterFailed took random)) - (rr_now s + took) \<le> 2 * minute"
proof -
  have "list_all (attempt_ok registrationLoop) as" using assms(2) by simp
  then have "rr_retry s = 0 \<or> 8 * second \<le> rr_retry s \<and> rr_retry s \<le> 2 * minute"
    using registration_run_retry [of as t] assms(1) by simp
  then have "8 * second \<le> next_retry registrationLoop (rr_retry s) random \<and> next_retry registrationLoop (rr_retry s) random \<le> 2 * minute"
    using next_retry_bounds assms(2) by (auto split: option.splits)
  moreover have "renewal_wait registrationLoop connected 1 \<le> 590 * second"
    using renewal_wait_upper [of registrationLoop connected 1] by (simp add: registrationLoop_def registerExpires_def second_def)
  moreover have "renewal_wait registrationLoop connected 1 \<le> int k * (10 * second)" if "k \<ge> 1" "\<not> connected k" for k
    using renewal_wait_noticed [of registrationLoop 1 k connected] that by (simp add: registrationLoop_def second_def)
  ultimately show ?thesis by (auto simp: Let_def registerExpires_def) (simp add: registrationLoop_def second_def)
qed

theorem registration_is_kept_witness:
  "rr_now (registration_round registrationLoop \<lparr>rr_now = 0, rr_retry = 0, rr_failed = False\<rparr> (RegisterOk second (\<lambda>k. k < 3)))
     \<le> second + 30 * second"
proof -
  have "list_all (attempt_ok registrationLoop)
      ([] @ [RegisterFailed 0 (Some 40), RegisterOk second (\<lambda>k. k < 3), RegisterOk 0 (\<lambda>_. True)])"
    by (simp add: registrationLoop_def second_def)
  from registration_is_kept [of _ 0 "[]", OF _ this] have
    "\<forall>k \<ge> 1. \<not> k < 3 \<longrightarrow> rr_now (registration_round registrationLoop \<lparr>rr_now = 0, rr_retry = 0, rr_failed = False\<rparr> (RegisterOk second (\<lambda>k. k < 3)))
      \<le> 0 + second + int k * (10 * second)"
    by (simp add: registration_run_def)
  from this [rule_format, of 3] show ?thesis by simp
qed

end
