(* ===== verification/Claim_Once.thy ===== *)
theory Claim_Once
  imports Go_Prelude
begin

text \<open>
  The contract of a thing that is claimed once: the final response of a SIP dialog, a public address announced to a peer.
  \<open>step\<close> is a step of the component and its effects, \<open>claim\<close> tells the effects that claim the thing, \<open>taken\<close> the states in
  which it is gone. Inside the locale, no run claims it twice.
\<close>

fun run_effects :: "('s \<Rightarrow> 'i \<Rightarrow> 's \<times> 'e list) \<Rightarrow> 's \<Rightarrow> 'i list \<Rightarrow> 's \<times> 'e list" where
  "run_effects step s [] = (s, [])"
| "run_effects step s (i # is) =
     (case step s i of (s', es) \<Rightarrow> (case run_effects step s' is of (s'', fs) \<Rightarrow> (s'', es @ fs)))"

lemma run_effects_append:
  "run_effects step s (is @ js) =
     (case run_effects step s is of (s', es) \<Rightarrow> (case run_effects step s' js of (s'', fs) \<Rightarrow> (s'', es @ fs)))"
  by (induction "is" arbitrary: s) (auto split: prod.splits)

lemma run_effects_snoc:
  "fst (run_effects step s (is @ [i])) = fst (step (fst (run_effects step s is)) i)"
  "snd (run_effects step s (is @ [i])) = snd (run_effects step s is) @ snd (step (fst (run_effects step s is)) i)"
  by (auto simp: run_effects_append split: prod.splits)

lemma run_effects_invariant:
  assumes "J s" and "\<And>s i. J s \<Longrightarrow> J (fst (step s i))"
  shows "J (fst (run_effects step s is))"
  by (induction "is" rule: rev_induct) (simp_all add: run_effects_snoc assms)

locale claim_once =
  fixes step :: "'s \<Rightarrow> 'i \<Rightarrow> 's \<times> 'e list"
    and claim :: "'e \<Rightarrow> bool"
    and taken :: "'s \<Rightarrow> bool"
  assumes taken_stays: "taken s \<Longrightarrow> taken (fst (step s i)) \<and> filter claim (snd (step s i)) = []"
    and claim_takes: "filter claim (snd (step s i)) \<noteq> [] \<Longrightarrow> taken (fst (step s i))"
    and one_claim: "length (filter claim (snd (step s i))) \<le> 1"
begin

lemma claims_counted:
  "length (filter claim (snd (run_effects step s is))) \<le> 1 \<and>
   (filter claim (snd (run_effects step s is)) \<noteq> [] \<longrightarrow> taken (fst (run_effects step s is)))"
proof (induction "is" rule: rev_induct)
  case (snoc i "is")
  let ?t = "fst (run_effects step s is)" and ?c = "filter claim (snd (run_effects step s is))"
  show ?case
  proof (cases "?c = []")
    case True
    then show ?thesis using one_claim [of ?t i] claim_takes [of ?t i] by (simp add: run_effects_snoc)
  next
    case False
    then have "taken ?t" using snoc.IH by simp
    then show ?thesis using taken_stays [of ?t i] snoc.IH by (simp add: run_effects_snoc)
  qed
qed simp

lemma claimed_once: "length (filter claim (snd (run_effects step s is))) \<le> 1"
  using claims_counted by simp

lemma two_claims_equal:
  assumes "e \<in> set (snd (run_effects step s is))" "claim e" "f \<in> set (snd (run_effects step s is))" "claim f"
  shows "e = f"
proof -
  let ?c = "filter claim (snd (run_effects step s is))"
  have "e \<in> set ?c" "f \<in> set ?c" using assms by simp_all
  then show ?thesis using claimed_once [of s "is"] by (cases ?c) auto
qed

end

end
