(* ===== verification/Sig_Dialer.thy ===== *)
theory Sig_Dialer
  imports Claim_Once Core_State
begin

text \<open>
  The inbound half of the SIP dialer, \<^verbatim>\<open>src/internal/signaling/dialer.go\<close>: the dialogs of inbound calls with the
  responses on them, the handler goroutine of every INVITE, CANCELs and BYEs, and the closing of the dialer.

  The SIP stack is third-party. What the code uses of it is part of the state and of the inputs: the state of a session, which
  becomes established when a 2xx is written and not before, may become confirmed by an ACK and may end at any time;
  whether a request matches, is read or is written without an error. The calls into the manager and the media are effects.

  Every goroutine is cut where it waits or calls out: the handler of an INVITE between storing the dialog, its hooks, the call of
  the manager, the wait and the teardown; a BYE between reading the state of the session, accepting the request and telling the
  manager; a final response between the claim, the write and its end. Sessions are numbered in the order of the INVITEs.
\<close>

section \<open>An inbound dialog\<close>

datatype DialogState = DialogStateEarly | DialogStateEstablished | DialogStateConfirmed | DialogStateEnded

definition answered_state :: "DialogState \<Rightarrow> bool" where
  "answered_state st \<longleftrightarrow> st = DialogStateEstablished \<or> st = DialogStateConfirmed"

datatype invite_phase = InviteStored | InviteHooked | InviteHandling | InviteWaiting | InviteLeaving | InviteReturned

text \<open>The dialog, its session and the goroutine of \<^verbatim>\<open>onInvite\<close> that serves it.\<close>

record incomingDialog =
  di_ID :: DialogID
  di_ringing :: bool
  di_concluded :: bool
  di_sdp :: string
  di_withdrawn :: bool
  di_state :: DialogState
  di_sessionClosed :: bool
  di_keptAlive :: bool
  di_handler :: invite_phase

definition newIncomingDialog :: "DialogID \<Rightarrow> incomingDialog" where
  "newIncomingDialog i =
     \<lparr>di_ID = i, di_ringing = False, di_concluded = False, di_sdp = '''', di_withdrawn = False,
      di_state = DialogStateEarly, di_sessionClosed = False, di_keptAlive = False, di_handler = InviteStored\<rparr>"

datatype respond_outcome = ErrDialogConcluded | ProvisionalSent | ProvisionalFailed | FinalClaimed

text \<open>\<^verbatim>\<open>Respond\<close> up to the write of a final response; \<open>written\<close> says whether the session took a provisional one.\<close>

definition dialog_Respond :: "incomingDialog \<Rightarrow> nat \<Rightarrow> string \<Rightarrow> bool \<Rightarrow> incomingDialog \<times> respond_outcome" where
  "dialog_Respond d status body written =
     (if di_concluded d then (d, ErrDialogConcluded)
      else if status < 200 then
        (if written then (d\<lparr>di_ringing := True\<rparr>, ProvisionalSent) else (d, ProvisionalFailed))
      else ((if status < 300 then d\<lparr>di_concluded := True, di_sdp := body\<rparr> else d\<lparr>di_concluded := True\<rparr>), FinalClaimed))"

text \<open>
  What \<^verbatim>\<open>answer\<close> and \<^verbatim>\<open>reject\<close> return: \<open>early\<close> is the result of the write when it came before the caller's deadline, \<open>st\<close> the
  state of the session at the deadline and \<open>late\<close> the result of the write that is waited for without evidence of an answer.
\<close>

definition dialog_answer :: "bool option \<Rightarrow> DialogState \<Rightarrow> bool \<Rightarrow> bool" where
  "dialog_answer early st late =
     (case early of Some ok \<Rightarrow> ok | None \<Rightarrow> if st = DialogStateEarly then late else True)"

definition dialog_reject :: "bool option \<Rightarrow> bool" where
  "dialog_reject early = (case early of Some ok \<Rightarrow> ok | None \<Rightarrow> True)"

text \<open>\<^verbatim>\<open>endPending\<close>; \<open>None\<close> is the panic of closing the channel \<^verbatim>\<open>withdrawn\<close> twice.\<close>

definition endPending :: "incomingDialog \<Rightarrow> (incomingDialog \<times> bool) option" where
  "endPending d =
     (if \<not> di_ringing d \<or> di_concluded d then Some (d, False)
      else if di_withdrawn d then None
      else Some (d\<lparr>di_concluded := True, di_withdrawn := True\<rparr>, True))"

definition contains_str :: "string \<Rightarrow> string \<Rightarrow> bool" where
  "contains_str s sub \<longleftrightarrow> cut sub s \<noteq> None"

definition cancelReason :: "string option \<Rightarrow> CallEndReason" where
  "cancelReason header =
     (case header of
        Some v \<Rightarrow> if contains_str v ''cause=200'' then CallEndReasonElsewhere else CallEndReasonCancelled
      | None \<Rightarrow> CallEndReasonCancelled)"

section \<open>The dialer\<close>

datatype dialer_effect =
    Reply nat
  | ManagerOnInvite nat
  | ManagerEndIncoming nat CallEndReason
  | ManagerRemoteDialogEnded nat
  | NotifyRemoteDialogEnded
  | WroteProvisional nat nat
  | ClaimedFinal nat nat
  | RespondRefused nat
  | SessionBye nat
  | KeepDialogAlive nat string
  | WithdrawnPanic nat

text \<open>
  The dialer with its inbound sessions, the keys of the map \<^verbatim>\<open>inboundDialogs\<close>, the count of \<^verbatim>\<open>inboundWG\<close>, and its goroutines: the CANCELs
  before they reach the dialog, the BYEs before they are accepted and before they tell the manager, and the final
  responses before and after the session has taken them.
\<close>

record Dialer =
  dl_inbound :: bool
  dl_in :: bool
  dl_closing :: bool
  dl_wg :: nat
  dl_dialogs :: "incomingDialog list"
  dl_map :: "nat list"
  dl_cancels :: "(nat \<times> CallEndReason) list"
  dl_byes :: "(nat \<times> bool \<times> bool) list"
  dl_ended :: "(nat \<times> bool \<times> bool \<times> CallEndReason) list"
  dl_writes :: "(nat \<times> nat) list"
  dl_written :: "(nat \<times> nat) list"

definition newDialer :: "bool \<Rightarrow> bool \<Rightarrow> Dialer" where
  "newDialer handler inbound =
     \<lparr>dl_inbound = handler, dl_in = inbound, dl_closing = False, dl_wg = 0, dl_dialogs = [], dl_map = [], dl_cancels = [],
      dl_byes = [], dl_ended = [], dl_writes = [], dl_written = []\<rparr>"

definition upd_dialog :: "nat \<Rightarrow> (incomingDialog \<Rightarrow> incomingDialog) \<Rightarrow> Dialer \<Rightarrow> Dialer" where
  "upd_dialog i f s =
     (if i < length (dl_dialogs s) then s\<lparr>dl_dialogs := (dl_dialogs s)[i := f (dl_dialogs s ! i)]\<rparr> else s)"

definition dialog_at :: "Dialer \<Rightarrow> nat \<Rightarrow> invite_phase \<Rightarrow> bool" where
  "dialog_at s i ph \<longleftrightarrow> i < length (dl_dialogs s) \<and> di_handler (dl_dialogs s ! i) = ph"

definition hooked :: "invite_phase \<Rightarrow> bool" where "hooked ph \<longleftrightarrow> ph \<noteq> InviteStored"

definition trackInbound :: "Dialer \<Rightarrow> Dialer option" where
  "trackInbound s = (if dl_closing s then None else Some (s\<lparr>dl_wg := dl_wg s + 1\<rparr>))"

definition wg_done :: "Dialer \<Rightarrow> Dialer" where
  "wg_done s = s\<lparr>dl_wg := dl_wg s - 1\<rparr>"

text \<open>The SIP stack moves a session, and calls the hook of \<^verbatim>\<open>onInvite\<close> once it is registered.\<close>

definition set_state :: "nat \<Rightarrow> DialogState \<Rightarrow> Dialer \<Rightarrow> Dialer \<times> dialer_effect list" where
  "set_state i st s =
     (if i < length (dl_dialogs s) then
        let d = dl_dialogs s ! i; s = upd_dialog i (di_state_update (\<lambda>_. st)) s in
        if \<not> hooked (di_handler d) then (s, [])
        else if st = DialogStateEnded then (s\<lparr>dl_map := removeAll i (dl_map s)\<rparr>, [])
        else if st = DialogStateConfirmed \<and> \<not> di_keptAlive d then
          (upd_dialog i (di_keptAlive_update (\<lambda>_. True)) s, [KeepDialogAlive i (di_sdp d)])
        else (s, [])
      else (s, []))"

text \<open>\<^verbatim>\<open>endPendingIncoming\<close>: whether it ended the call.\<close>

definition endPendingIncoming :: "nat \<Rightarrow> CallEndReason \<Rightarrow> Dialer \<Rightarrow> Dialer \<times> dialer_effect list \<times> bool" where
  "endPendingIncoming i reason s =
     (if \<not> dl_inbound s \<or> \<not> i < length (dl_dialogs s) then (s, [], False)
      else case endPending (dl_dialogs s ! i) of
             None \<Rightarrow> (s, [WithdrawnPanic i], False)
           | Some (d, False) \<Rightarrow> (s, [], False)
           | Some (d, True) \<Rightarrow> (upd_dialog i (\<lambda>_. d) s, [ManagerEndIncoming i reason], True))"

datatype dialer_input =
    DInvite DialogID bool
  | DHookState nat
  | DHookCancel nat bool
  | DHandled nat bool
  | DWake nat
  | DLeave nat
  | DState nat DialogState
  | DCancel nat "string option"
  | DCancelRun nat
  | DBye bool "nat option"
  | DByeRead nat bool "string option"
  | DByeTell nat
  | DRespond nat nat string bool
  | DWrite nat
  | DWritten nat
  | DLocalBye nat
  | DUnmatchedCancel
  | DClose

definition onInvite_begin :: "Dialer \<Rightarrow> DialogID \<Rightarrow> bool \<Rightarrow> Dialer \<times> dialer_effect list" where
  "onInvite_begin s callID readOk =
     (if \<not> dl_inbound s \<or> \<not> dl_in s then (s, [Reply 503])
      else case trackInbound s of
             None \<Rightarrow> (s, [Reply 503])
           | Some t \<Rightarrow>
               if \<not> readOk then (wg_done t, [Reply 500])
               else (t\<lparr>dl_dialogs := dl_dialogs t @ [newIncomingDialog callID], dl_map := dl_map t @ [length (dl_dialogs t)]\<rparr>, []))"

text \<open>The deferred teardown at the end of \<^verbatim>\<open>onInvite\<close>.\<close>

definition onInvite_leave :: "nat \<Rightarrow> Dialer \<Rightarrow> Dialer" where
  "onInvite_leave i s =
     wg_done (upd_dialog i (di_handler_update (\<lambda>_. InviteReturned))
       (if answered_state (di_state (dl_dialogs s ! i)) then s
        else (upd_dialog i (di_sessionClosed_update (\<lambda>_. True)) s)\<lparr>dl_map := removeAll i (dl_map s)\<rparr>))"

definition onBye :: "Dialer \<Rightarrow> bool \<Rightarrow> nat option \<Rightarrow> Dialer \<times> dialer_effect list" where
  "onBye s outbound match =
     (if outbound then (s, [NotifyRemoteDialogEnded])
      else if \<not> dl_in s then (s, [])
      else case trackInbound s of
             None \<Rightarrow> (s, [])
           | Some t \<Rightarrow>
               (case match of
                  None \<Rightarrow> (wg_done t, [])
                | Some i \<Rightarrow>
                    if i < length (dl_dialogs t)
                    then (t\<lparr>dl_byes := dl_byes t @ [(i, answered_state (di_state (dl_dialogs t ! i)), i \<in> set (dl_map t))]\<rparr>, [])
                    else (wg_done t, [])))"

text \<open>The end of \<^verbatim>\<open>onInboundBye\<close>: \<open>known\<close> says whether the dialog was in the map.\<close>

definition onInboundBye_tell :: "nat \<Rightarrow> bool \<Rightarrow> bool \<Rightarrow> CallEndReason \<Rightarrow> Dialer \<Rightarrow> Dialer \<times> dialer_effect list" where
  "onInboundBye_tell i answered known reason s =
     (case (if known then endPendingIncoming i reason s else (s, [], False)) of
        (t, effs, True) \<Rightarrow> (wg_done t, effs)
      | (t, effs, False) \<Rightarrow>
          (wg_done t,
           effs @ (if answered
                   then (if dl_inbound s then [ManagerRemoteDialogEnded i] else []) @ [NotifyRemoteDialogEnded] else [])))"

definition dialog_Bye :: "nat \<Rightarrow> Dialer \<Rightarrow> Dialer \<times> dialer_effect list" where
  "dialog_Bye i s =
     (if i < length (dl_dialogs s) then
        (upd_dialog i (\<lambda>d. d\<lparr>di_concluded := True, di_sessionClosed := True\<rparr>) s,
         if di_state (dl_dialogs s ! i) = DialogStateEarly then [] else [SessionBye i])
      else (s, []))"

definition respond_step :: "nat \<Rightarrow> nat \<Rightarrow> string \<Rightarrow> bool \<Rightarrow> Dialer \<Rightarrow> Dialer \<times> dialer_effect list" where
  "respond_step i status body written s =
     (if i < length (dl_dialogs s) then
        case dialog_Respond (dl_dialogs s ! i) status body written of
          (d, ErrDialogConcluded) \<Rightarrow> (s, [RespondRefused i])
        | (d, ProvisionalFailed) \<Rightarrow> (s, [])
        | (d, ProvisionalSent) \<Rightarrow> (upd_dialog i (\<lambda>_. d) s, [WroteProvisional i status])
        | (d, FinalClaimed) \<Rightarrow> ((upd_dialog i (\<lambda>_. d) s)\<lparr>dl_writes := dl_writes s @ [(i, status)]\<rparr>, [ClaimedFinal i status])
      else (s, []))"

text \<open>\<^verbatim>\<open>writeAnswer\<close> reaches the session: it is marked established before the response goes out.\<close>

definition write_step :: "nat \<times> nat \<Rightarrow> Dialer \<Rightarrow> Dialer" where
  "write_step w s =
     (if snd w < 300 \<and> fst w < length (dl_dialogs s) \<and> di_state (dl_dialogs s ! fst w) = DialogStateEarly
      then upd_dialog (fst w) (di_state_update (\<lambda>_. DialogStateEstablished)) s else s)"

text \<open>The end of a write: \<^verbatim>\<open>writeRejection\<close> closes the session.\<close>

definition written_step :: "nat \<times> nat \<Rightarrow> Dialer \<Rightarrow> Dialer" where
  "written_step w s =
     (if snd w < 300 then s else upd_dialog (fst w) (di_sessionClosed_update (\<lambda>_. True)) s)"

fun dialer_step :: "Dialer \<Rightarrow> dialer_input \<Rightarrow> Dialer \<times> dialer_effect list" where
  "dialer_step s (DInvite c ok) = onInvite_begin s c ok"
| "dialer_step s (DHookState i) =
     (if dialog_at s i InviteStored then (upd_dialog i (di_handler_update (\<lambda>_. InviteHooked)) s, []) else (s, []))"
| "dialer_step s (DHookCancel i ok) =
     (if dialog_at s i InviteHooked
      then (if ok then (upd_dialog i (di_handler_update (\<lambda>_. InviteHandling)) s, [ManagerOnInvite i])
            else (upd_dialog i (di_handler_update (\<lambda>_. InviteLeaving)) s, []))
      else (s, []))"
| "dialer_step s (DHandled i ok) =
     (if dialog_at s i InviteHandling
      then (upd_dialog i (di_handler_update (\<lambda>_. if ok then InviteWaiting else InviteLeaving)) s, []) else (s, []))"
| "dialer_step s (DWake i) =
     (if dialog_at s i InviteWaiting then (upd_dialog i (di_handler_update (\<lambda>_. InviteLeaving)) s, []) else (s, []))"
| "dialer_step s (DLeave i) = (if dialog_at s i InviteLeaving then (onInvite_leave i s, []) else (s, []))"
| "dialer_step s (DState i st) =
     (if i < length (dl_dialogs s) \<and>
         (st = DialogStateEnded \<or> st = DialogStateConfirmed \<and> di_state (dl_dialogs s ! i) = DialogStateEstablished)
      then set_state i st s else (s, []))"
| "dialer_step s (DCancel i header) =
     (if i < length (dl_dialogs s) \<and> di_handler (dl_dialogs s ! i) \<notin> {InviteStored, InviteHooked}
      then (case trackInbound s of None \<Rightarrow> (s, []) | Some t \<Rightarrow> (t\<lparr>dl_cancels := dl_cancels t @ [(i, cancelReason header)]\<rparr>, []))
      else (s, []))"
| "dialer_step s (DCancelRun k) =
     (if k < length (dl_cancels s)
      then (case endPendingIncoming (fst (dl_cancels s ! k)) (snd (dl_cancels s ! k)) (s\<lparr>dl_cancels := drop_nth k (dl_cancels s)\<rparr>) of
              (t, effs, _) \<Rightarrow> (wg_done t, effs))
      else (s, []))"
| "dialer_step s (DBye outbound match) = onBye s outbound match"
| "dialer_step s (DByeRead k ok header) =
     (if k < length (dl_byes s)
      then (case dl_byes s ! k of
              (i, answered, known) \<Rightarrow>
                let s = s\<lparr>dl_byes := drop_nth k (dl_byes s)\<rparr> in
                if \<not> ok then (wg_done s, [])
                else set_state i DialogStateEnded (s\<lparr>dl_ended := dl_ended s @ [(i, answered, known, cancelReason header)]\<rparr>))
      else (s, []))"
| "dialer_step s (DByeTell k) =
     (if k < length (dl_ended s)
      then (case dl_ended s ! k of
              (i, answered, known, reason) \<Rightarrow>
                onInboundBye_tell i answered known reason (s\<lparr>dl_ended := drop_nth k (dl_ended s)\<rparr>))
      else (s, []))"
| "dialer_step s (DRespond i status body written) = respond_step i status body written s"
| "dialer_step s (DWrite k) =
     (if k < length (dl_writes s)
      then ((write_step (dl_writes s ! k) s)\<lparr>dl_writes := drop_nth k (dl_writes s), dl_written := dl_written s @ [dl_writes s ! k]\<rparr>, [])
      else (s, []))"
| "dialer_step s (DWritten k) =
     (if k < length (dl_written s)
      then ((written_step (dl_written s ! k) s)\<lparr>dl_written := drop_nth k (dl_written s)\<rparr>, []) else (s, []))"
| "dialer_step s (DLocalBye i) = dialog_Bye i s"
| "dialer_step s DUnmatchedCancel = (s, [Reply 481])"
| "dialer_step s DClose = (s\<lparr>dl_closing := True\<rparr>, [])"


section \<open>Lemmas on the steps\<close>

lemma upd_dialog_fields [simp]:
  "dl_inbound (upd_dialog i f s) = dl_inbound s" "dl_in (upd_dialog i f s) = dl_in s" "dl_closing (upd_dialog i f s) = dl_closing s"
  "dl_wg (upd_dialog i f s) = dl_wg s" "dl_map (upd_dialog i f s) = dl_map s" "dl_cancels (upd_dialog i f s) = dl_cancels s"
  "dl_byes (upd_dialog i f s) = dl_byes s" "dl_ended (upd_dialog i f s) = dl_ended s" "dl_writes (upd_dialog i f s) = dl_writes s"
  "dl_written (upd_dialog i f s) = dl_written s" "length (dl_dialogs (upd_dialog i f s)) = length (dl_dialogs s)"
  by (simp_all add: upd_dialog_def)

lemma upd_dialog_nth [simp]:
  "j < length (dl_dialogs s) \<Longrightarrow>
   dl_dialogs (upd_dialog i f s) ! j = (if i = j then f (dl_dialogs s ! j) else dl_dialogs s ! j)"
  by (simp add: upd_dialog_def)

lemma wg_done_fields [simp]:
  "dl_inbound (wg_done s) = dl_inbound s" "dl_closing (wg_done s) = dl_closing s" "dl_dialogs (wg_done s) = dl_dialogs s"
  "dl_map (wg_done s) = dl_map s" "dl_cancels (wg_done s) = dl_cancels s" "dl_byes (wg_done s) = dl_byes s"
  "dl_ended (wg_done s) = dl_ended s" "dl_writes (wg_done s) = dl_writes s" "dl_written (wg_done s) = dl_written s"
  "dl_wg (wg_done s) = dl_wg s - 1"
  by (simp_all add: wg_done_def)

lemma trackInbound_SomeD:
  "trackInbound s = Some t \<Longrightarrow> \<not> dl_closing s \<and> t = s\<lparr>dl_wg := dl_wg s + 1\<rparr>"
  by (simp add: trackInbound_def split: if_splits)

text \<open>What a step may do to one dialog; the effects of a step are about one dialog too.\<close>

definition concluded_at :: "nat \<Rightarrow> Dialer \<Rightarrow> bool" where
  "concluded_at i s \<longleftrightarrow> i < length (dl_dialogs s) \<and> di_concluded (dl_dialogs s ! i)"

fun is_claim :: "nat \<Rightarrow> dialer_effect \<Rightarrow> bool" where
  "is_claim i (ClaimedFinal j _) = (i = j)"
| "is_claim i (ManagerEndIncoming j _) = (i = j)"
| "is_claim i _ = False"

text \<open>A step keeps the claims: nothing that was concluded is claimed again, and what is claimed is concluded.\<close>

definition keeps_claims :: "nat \<Rightarrow> Dialer \<Rightarrow> Dialer \<times> dialer_effect list \<Rightarrow> bool" where
  "keeps_claims i s r \<longleftrightarrow>
     (concluded_at i s \<longrightarrow> concluded_at i (fst r) \<and> filter (is_claim i) (snd r) = []) \<and>
     (filter (is_claim i) (snd r) \<noteq> [] \<longrightarrow> concluded_at i (fst r)) \<and> length (filter (is_claim i) (snd r)) \<le> 1"

lemma keeps_claims_quiet:
  assumes "\<And>e. e \<in> set effs \<Longrightarrow> \<not> is_claim i e" and "concluded_at i s \<Longrightarrow> concluded_at i t"
  shows "keeps_claims i s (t, effs)"
  using assms by (auto simp: keeps_claims_def filter_empty_conv)

lemma concluded_at_upd:
  "(\<And>d. di_concluded d \<Longrightarrow> di_concluded (f d)) \<Longrightarrow> concluded_at i s \<Longrightarrow> concluded_at i (upd_dialog j f s)"
  by (auto simp: concluded_at_def)

lemma concluded_at_wg_done [simp]: "concluded_at i (wg_done s) = concluded_at i s"
  by (simp add: concluded_at_def)

lemma concluded_at_same:
  "dl_dialogs t = dl_dialogs s \<Longrightarrow> concluded_at i t = concluded_at i s"
  by (simp add: concluded_at_def)

lemma set_state_claims: "dl_dialogs s = dl_dialogs r \<Longrightarrow> keeps_claims i r (set_state j st s)"
  by (auto simp: set_state_def Let_def keeps_claims_def concluded_at_def)

lemma endPendingIncoming_claims:
  assumes "endPendingIncoming j reason s = (t, effs, ended)" and "dl_dialogs s = dl_dialogs r"
  shows "keeps_claims i r (t, effs)"
  using assms
  by (auto simp: endPendingIncoming_def endPending_def keeps_claims_def concluded_at_def split: if_splits option.splits prod.splits bool.splits)

lemma keeps_claims_wg_done: "keeps_claims i s (t, effs) \<Longrightarrow> keeps_claims i s (wg_done t, effs)"
  by (simp add: keeps_claims_def)

lemma keeps_claims_append:
  "keeps_claims i s (t, effs) \<Longrightarrow> filter (is_claim i) fs = [] \<Longrightarrow> keeps_claims i s (t, effs @ fs)"
  by (simp add: keeps_claims_def)

lemma respond_claims: "keeps_claims i s (respond_step j status body written s)"
  by (auto simp: respond_step_def dialog_Respond_def keeps_claims_def concluded_at_def)

lemma tell_claims:
  assumes "dl_dialogs s = dl_dialogs r" shows "keeps_claims i r (onInboundBye_tell j answered known reason s)"
proof -
  obtain t effs ended where e: "(if known then endPendingIncoming j reason s else (s, [], False)) = (t, effs, ended)"
    by (cases "if known then endPendingIncoming j reason s else (s, [], False)") auto
  then have "keeps_claims i r (t, effs)"
    using endPendingIncoming_claims [of j reason s t effs ended r] assms
    by (auto simp: keeps_claims_def concluded_at_def split: if_splits)
  then show ?thesis
    unfolding onInboundBye_tell_def e by (cases ended) (auto intro: keeps_claims_wg_done keeps_claims_append)
qed

lemma dialer_step_claims: "keeps_claims i s (dialer_step s x)"
proof (cases x)
  case (DInvite c ok)
  then show ?thesis
    by (auto simp: onInvite_begin_def keeps_claims_def concluded_at_def nth_append split: option.splits dest!: trackInbound_SomeD)
next
  case (DLeave j)
  then show ?thesis by (auto simp: onInvite_leave_def keeps_claims_def concluded_at_def)
next
  case (DState j st)
  then show ?thesis using set_state_claims [of s s] by (auto simp: keeps_claims_def)
next
  case (DCancel j h)
  then show ?thesis by (auto simp: keeps_claims_def concluded_at_def split: option.splits dest!: trackInbound_SomeD)
next
  case (DCancelRun k)
  obtain t effs ended where "endPendingIncoming (fst (dl_cancels s ! k)) (snd (dl_cancels s ! k)) (s\<lparr>dl_cancels := drop_nth k (dl_cancels s)\<rparr>) = (t, effs, ended)"
    by (cases "endPendingIncoming (fst (dl_cancels s ! k)) (snd (dl_cancels s ! k)) (s\<lparr>dl_cancels := drop_nth k (dl_cancels s)\<rparr>)") auto
  then show ?thesis using DCancelRun endPendingIncoming_claims [of _ _ "s\<lparr>dl_cancels := drop_nth k (dl_cancels s)\<rparr>" t effs ended s]
    by (auto intro: keeps_claims_wg_done keeps_claims_quiet)
next
  case (DBye outbound m)
  then show ?thesis by (auto simp: onBye_def keeps_claims_def concluded_at_def split: option.splits dest!: trackInbound_SomeD)
next
  case (DByeRead k ok h)
  obtain j a n where "dl_byes s ! k = (j, a, n)" by (cases "dl_byes s ! k") auto
  then show ?thesis using DByeRead
    by (auto simp: Let_def intro!: set_state_claims keeps_claims_quiet) (simp add: concluded_at_def)
next
  case (DByeTell k)
  obtain j a n r where "dl_ended s ! k = (j, a, n, r)" by (cases "dl_ended s ! k") auto
  then show ?thesis using DByeTell by (auto intro!: tell_claims keeps_claims_quiet)
next
  case (DRespond j status body written)
  then show ?thesis using respond_claims by simp
qed (auto simp: keeps_claims_def concluded_at_def dialog_Bye_def write_step_def written_step_def)

interpretation final: claim_once dialer_step "is_claim i" "concluded_at i" for i
proof
  fix s x
  show "concluded_at i s \<Longrightarrow> concluded_at i (fst (dialer_step s x)) \<and> filter (is_claim i) (snd (dialer_step s x)) = []"
    "filter (is_claim i) (snd (dialer_step s x)) \<noteq> [] \<Longrightarrow> concluded_at i (fst (dialer_step s x))"
    "length (filter (is_claim i) (snd (dialer_step s x))) \<le> 1"
    using dialer_step_claims [of i s x] by (simp_all add: keeps_claims_def)
qed


section \<open>Two ways a call ends\<close>

text \<open>The call of dialog \<open>i\<close> was answered by a 2xx of this side.\<close>

definition answered_in :: "dialer_effect list \<Rightarrow> nat \<Rightarrow> bool" where
  "answered_in es i \<longleftrightarrow> (\<exists>status. 200 \<le> status \<and> status < 300 \<and> ClaimedFinal i status \<in> set es)"

definition rang_in :: "dialer_effect list \<Rightarrow> nat \<Rightarrow> bool" where
  "rang_in es i \<longleftrightarrow> (\<exists>status. WroteProvisional i status \<in> set es)"

text \<open>What the dialer and its goroutines remember agrees with what was sent.\<close>

definition dialog_traced :: "dialer_effect list \<Rightarrow> nat \<Rightarrow> incomingDialog \<Rightarrow> bool" where
  "dialog_traced es i d \<longleftrightarrow>
     (di_ringing d \<longrightarrow> rang_in es i) \<and> (answered_state (di_state d) \<longrightarrow> answered_in es i) \<and> (di_withdrawn d \<longrightarrow> di_concluded d)"

definition dialogs_traced :: "dialer_effect list \<Rightarrow> Dialer \<Rightarrow> bool" where
  "dialogs_traced es s \<longleftrightarrow> (\<forall>i < length (dl_dialogs s). dialog_traced es i (dl_dialogs s ! i))"

definition pools_traced :: "dialer_effect list \<Rightarrow> Dialer \<Rightarrow> bool" where
  "pools_traced es s \<longleftrightarrow>
     (\<forall>(i, status) \<in> set (dl_writes s). 200 \<le> status \<and> ClaimedFinal i status \<in> set es) \<and>
     (\<forall>(i, answered, known) \<in> set (dl_byes s). answered \<longrightarrow> answered_in es i) \<and>
     (\<forall>(i, answered, known, reason) \<in> set (dl_ended s). answered \<longrightarrow> answered_in es i)"

definition effects_traced :: "dialer_effect list \<Rightarrow> bool" where
  "effects_traced es \<longleftrightarrow>
     (\<forall>i. ManagerRemoteDialogEnded i \<in> set es \<longrightarrow> answered_in es i) \<and>
     (\<forall>i reason. ManagerEndIncoming i reason \<in> set es \<longrightarrow> rang_in es i) \<and> (\<forall>i. WithdrawnPanic i \<notin> set es)"

definition dialer_traced :: "dialer_effect list \<Rightarrow> Dialer \<Rightarrow> bool" where
  "dialer_traced es s \<longleftrightarrow> dialogs_traced es s \<and> pools_traced es s \<and> effects_traced es"

lemma traced_append [simp]:
  "answered_in es i \<Longrightarrow> answered_in (es @ fs) i" "rang_in es i \<Longrightarrow> rang_in (es @ fs) i"
  by (auto simp: answered_in_def rang_in_def)

lemma dialog_traced_append: "dialog_traced es i d \<Longrightarrow> dialog_traced (es @ fs) i d"
  by (auto simp: dialog_traced_def)

lemma dialogs_traced_upd:
  assumes "dialogs_traced es s" and "\<And>d. dialog_traced (es @ fs) i d \<Longrightarrow> d = dl_dialogs s ! i \<Longrightarrow> dialog_traced (es @ fs) i (f d)"
    and "dl_dialogs t = dl_dialogs (upd_dialog i f s)"
  shows "dialogs_traced (es @ fs) t"
  using assms dialog_traced_append [of es _ _ fs] by (auto simp: dialogs_traced_def)

lemma dialogs_traced_same:
  "dialogs_traced es s \<Longrightarrow> dl_dialogs t = dl_dialogs s \<Longrightarrow> dialogs_traced (es @ fs) t"
  using dialog_traced_append by (auto simp: dialogs_traced_def)

lemma pools_traced_mono:
  assumes "pools_traced es s" and "set (dl_writes t) \<subseteq> set (dl_writes s)" "set (dl_byes t) \<subseteq> set (dl_byes s)" "set (dl_ended t) \<subseteq> set (dl_ended s)"
  shows "pools_traced (es @ fs) t"
  using assms unfolding pools_traced_def by fastforce

lemma pools_traced_same:
  "pools_traced es s \<Longrightarrow> dl_writes t = dl_writes s \<Longrightarrow> dl_byes t = dl_byes s \<Longrightarrow> dl_ended t = dl_ended s \<Longrightarrow> pools_traced (es @ fs) t"
  by (rule pools_traced_mono) auto

fun plain_effect :: "dialer_effect \<Rightarrow> bool" where
  "plain_effect (ManagerRemoteDialogEnded i) = False"
| "plain_effect (ManagerEndIncoming i r) = False"
| "plain_effect (WithdrawnPanic i) = False"
| "plain_effect _ = True"

lemma effects_traced_plain: "effects_traced es \<Longrightarrow> list_all plain_effect fs \<Longrightarrow> effects_traced (es @ fs)"
  by (auto simp: effects_traced_def list_all_iff)

text \<open>A step of a goroutine that has no more to tell keeps everything.\<close>

lemma traced_quiet:
  assumes "dialer_traced es s" and "dialogs_traced (es @ fs) t" and "list_all plain_effect fs"
    and "set (dl_writes t) \<subseteq> set (dl_writes s)" "set (dl_byes t) \<subseteq> set (dl_byes s)" "set (dl_ended t) \<subseteq> set (dl_ended s)"
  shows "dialer_traced (es @ fs) t"
  using assms pools_traced_mono [of es s t fs] effects_traced_plain [of es fs] by (simp add: dialer_traced_def)

lemma set_state_traced:
  assumes "dialogs_traced es s" and "st = DialogStateEnded \<or> answered_in es i"
  shows "dialogs_traced (es @ snd (set_state i st s)) (fst (set_state i st s)) \<and> list_all plain_effect (snd (set_state i st s)) \<and>
    dl_writes (fst (set_state i st s)) = dl_writes s \<and> dl_byes (fst (set_state i st s)) = dl_byes s \<and> dl_ended (fst (set_state i st s)) = dl_ended s"
  using assms by (auto simp: set_state_def Let_def dialogs_traced_def dialog_traced_def answered_state_def)

lemma endPendingIncoming_traced:
  assumes "dialogs_traced es s" and "effects_traced es" and "endPendingIncoming i reason s = (t, effs, ended)"
  shows "dialogs_traced (es @ effs) t \<and> effects_traced (es @ effs) \<and>
    dl_writes t = dl_writes s \<and> dl_byes t = dl_byes s \<and> dl_ended t = dl_ended s \<and> dl_inbound t = dl_inbound s"
proof (cases "effs = []")
  case True
  then have "t = s" using assms(3)
    by (auto simp: endPendingIncoming_def endPending_def split: if_splits option.splits prod.splits bool.splits)
  then show ?thesis using assms True by simp
next
  case False
  then have i: "i < length (dl_dialogs s)" and d: "di_ringing (dl_dialogs s ! i)" "\<not> di_concluded (dl_dialogs s ! i)"
    using assms(3) by (auto simp: endPendingIncoming_def endPending_def split: if_splits)
  then have tr: "rang_in es i" "\<not> di_withdrawn (dl_dialogs s ! i)"
    using assms(1) by (auto simp: dialogs_traced_def dialog_traced_def)
  have t: "t = upd_dialog i (\<lambda>_. (dl_dialogs s ! i)\<lparr>di_concluded := True, di_withdrawn := True\<rparr>) s" "effs = [ManagerEndIncoming i reason]"
    using assms(3) d i tr False by (auto simp: endPendingIncoming_def endPending_def split: if_splits)
  have "dialogs_traced (es @ effs) t"
    unfolding t(1) by (rule dialogs_traced_upd [OF assms(1) _ refl]) (auto simp: dialog_traced_def)
  moreover have "effects_traced (es @ effs)" using assms(2) tr(1) by (auto simp: effects_traced_def t(2))
  ultimately show ?thesis by (simp add: t(1))
qed

lemma respond_traced:
  assumes "dialer_traced es s" and "respond_step i status body written s = (t, effs)"
  shows "dialer_traced (es @ effs) t"
proof -
  have plain: "list_all plain_effect effs"
    using assms(2) by (auto simp: respond_step_def dialog_Respond_def split: if_splits)
  consider "t = s" | "effs = [WroteProvisional i status]" "t = upd_dialog i (di_ringing_update (\<lambda>_. True)) s"
    | f where "effs = [ClaimedFinal i status]" "200 \<le> status" "t = (upd_dialog i f s)\<lparr>dl_writes := dl_writes s @ [(i, status)]\<rparr>"
        "\<And>d es. dialog_traced es i d \<Longrightarrow> d = dl_dialogs s ! i \<Longrightarrow> dialog_traced es i (f d)"
    using assms(2)
    by (force simp: respond_step_def dialog_Respond_def dialog_traced_def upd_dialog_def split: if_splits)
  then show ?thesis
  proof cases
    case 1
    then show ?thesis using assms(1) plain dialogs_traced_same [of es s s effs] traced_quiet [of es s effs s]
      by (auto simp: dialer_traced_def)
  next
    case 2
    have "dialogs_traced (es @ effs) t"
      using assms(1) 2 by (intro dialogs_traced_upd [of es s effs i]) (auto simp: dialer_traced_def dialog_traced_def rang_in_def)
    then show ?thesis using assms(1) plain 2 by (auto intro: traced_quiet)
  next
    case 3
    have "dialogs_traced (es @ effs) t"
      using assms(1) 3(3,4) by (intro dialogs_traced_upd [of es s effs i f]) (auto simp: dialer_traced_def)
    moreover have "pools_traced (es @ effs) t"
      using assms(1) 3(1,2,3) unfolding dialer_traced_def pools_traced_def by fastforce
    ultimately show ?thesis using assms(1) plain effects_traced_plain by (simp add: dialer_traced_def)
  qed
qed


lemma set_state_dialer:
  assumes "dialer_traced es s" and "st = DialogStateEnded \<or> answered_in es i"
  shows "dialer_traced (es @ snd (set_state i st s)) (fst (set_state i st s))"
proof -
  have d: "dialogs_traced es s" using assms(1) by (simp add: dialer_traced_def)
  show ?thesis using set_state_traced [OF d assms(2)] by (intro traced_quiet [OF assms(1)]) auto
qed

text \<open>The steps of the handler of an INVITE change only where it stands.\<close>

lemma handler_traced:
  assumes "dialer_traced es s" and "list_all plain_effect fs"
    and "\<And>d es. dialog_traced es i (f d) = dialog_traced es i d"
  shows "dialer_traced (es @ fs) (upd_dialog i f s)"
proof (rule traced_quiet [OF assms(1) _ assms(2)])
  show "dialogs_traced (es @ fs) (upd_dialog i f s)"
    using assms(1,3) by (intro dialogs_traced_upd [of es s fs i f]) (simp_all add: dialer_traced_def)
qed auto

lemma handler_quiet:
  assumes "dialer_traced es s" and "\<And>d es. dialog_traced es i (f d) = dialog_traced es i d"
  shows "dialer_traced es (upd_dialog i f s)"
  using handler_traced [OF assms(1), of "[]" i f] assms(2) by simp

lemma handler_phase_traced:
  assumes "dialer_traced es s"
  shows "dialer_traced es (upd_dialog i (di_handler_update g) s)"
    and "dialer_traced (es @ [ManagerOnInvite i]) (upd_dialog i (di_handler_update g) s)"
proof -
  show "dialer_traced es (upd_dialog i (di_handler_update g) s)"
    by (rule handler_quiet [OF assms]) (simp add: dialog_traced_def)
  show "dialer_traced (es @ [ManagerOnInvite i]) (upd_dialog i (di_handler_update g) s)"
    by (rule handler_traced [OF assms]) (simp_all add: dialog_traced_def)
qed

lemma same_dialogs_traced:
  assumes "dialer_traced es s" and "list_all plain_effect fs" and "dl_dialogs t = dl_dialogs s"
    and "set (dl_writes t) \<subseteq> set (dl_writes s)" "set (dl_byes t) \<subseteq> set (dl_byes s)" "set (dl_ended t) \<subseteq> set (dl_ended s)"
  shows "dialer_traced (es @ fs) t"
  using assms dialogs_traced_same [of es s t fs] by (intro traced_quiet) (auto simp: dialer_traced_def)

lemma tell_traced:
  assumes "dialer_traced es s" and "dl_dialogs r = dl_dialogs s" "dl_writes r = dl_writes s" "dl_byes r = dl_byes s"
    and "set (dl_ended r) \<subseteq> set (dl_ended s)" and "answered \<Longrightarrow> answered_in es i"
    and "onInboundBye_tell i answered known reason r = (t, effs)"
  shows "dialer_traced (es @ effs) t"
proof -
  obtain u fs ended where e: "(if known then endPendingIncoming i reason r else (r, [], False)) = (u, fs, ended)"
    by (cases "if known then endPendingIncoming i reason r else (r, [], False)") auto
  have r: "dialogs_traced es r" "effects_traced es" "pools_traced (es @ effs) r"
    using assms(1-5) dialogs_traced_same [of es s r "[]"] pools_traced_mono [of es s r effs] by (auto simp: dialer_traced_def)
  have u: "dialogs_traced (es @ fs) u \<and> effects_traced (es @ fs) \<and>
    dl_writes u = dl_writes r \<and> dl_byes u = dl_byes r \<and> dl_ended u = dl_ended r"
  proof (cases known)
    case True
    then show ?thesis using endPendingIncoming_traced [OF r(1,2)] e by simp
  next
    case False
    then show ?thesis using e r(1,2) by auto
  qed
  let ?more = "if answered then (if dl_inbound r then [ManagerRemoteDialogEnded i] else []) @ [NotifyRemoteDialogEnded] else []"
  have t: "t = wg_done u" "effs = (if ended then fs else fs @ ?more)"
    using assms(7) e by (auto simp: onInboundBye_tell_def split: bool.splits if_splits)
  have "effects_traced (es @ fs @ ?more)" using u assms(6) by (auto simp: effects_traced_def answered_in_def rang_in_def)
  then have "effects_traced (es @ effs)" using u t(2) by auto
  moreover have "dialogs_traced (es @ effs) t"
    using u dialogs_traced_same [of "es @ fs" u t ?more] dialogs_traced_same [of "es @ fs" u t "[]"] t by auto
  moreover have "pools_traced (es @ effs) t" using r(3) u by (simp add: t(1) pools_traced_def)
  ultimately show ?thesis by (simp add: dialer_traced_def)
qed

lemma drop_nth_sub: "x \<in> set (drop_nth n xs) \<Longrightarrow> x \<in> set xs"
  using drop_nth_subset by fastforce

lemma dialer_step_traced:
  assumes "dialer_traced es s"
  shows "dialer_traced (es @ snd (dialer_step s x)) (fst (dialer_step s x))"
proof (cases x)
  case (DInvite c ok)
  have "dialogs_traced es (s\<lparr>dl_dialogs := dl_dialogs s @ [newIncomingDialog c]\<rparr>)"
    using assms by (auto simp: dialer_traced_def dialogs_traced_def dialog_traced_def newIncomingDialog_def answered_state_def nth_append less_Suc_eq)
  then have "dialer_traced es ((s\<lparr>dl_wg := dl_wg s + 1\<rparr>)\<lparr>dl_dialogs := dl_dialogs s @ [newIncomingDialog c], dl_map := m\<rparr>)" for m
    using assms by (simp add: dialer_traced_def dialogs_traced_def pools_traced_def)
  then show ?thesis using DInvite assms
    by (auto simp: onInvite_begin_def wg_done_def split: option.splits dest!: trackInbound_SomeD intro!: same_dialogs_traced)
next
  case (DState i st)
  show ?thesis
  proof (cases "i < length (dl_dialogs s) \<and> (st = DialogStateEnded \<or> st = DialogStateConfirmed \<and> di_state (dl_dialogs s ! i) = DialogStateEstablished)")
    case True
    then have "st = DialogStateEnded \<or> answered_in es i"
      using assms by (auto simp: dialer_traced_def dialogs_traced_def dialog_traced_def answered_state_def)
    then show ?thesis using set_state_dialer [OF assms, of st i] True DState by simp
  qed (use assms DState in auto)
next
  case (DLeave i)
  have "dialer_traced es (upd_dialog i (di_handler_update (\<lambda>_. InviteReturned)) s)"
    "dialer_traced es (upd_dialog i (di_handler_update (\<lambda>_. InviteReturned)) (upd_dialog i (di_sessionClosed_update (\<lambda>_. True)) s))"
    using assms by (auto intro!: handler_quiet simp: dialog_traced_def)
  then show ?thesis using DLeave assms
    by (auto simp: onInvite_leave_def wg_done_def upd_dialog_def dialer_traced_def dialogs_traced_def pools_traced_def)
next
  case (DCancel i h)
  then show ?thesis using assms same_dialogs_traced [OF assms, of "[]"]
    by (auto split: option.splits dest!: trackInbound_SomeD)
next
  case (DCancelRun k)
  let ?r = "s\<lparr>dl_cancels := drop_nth k (dl_cancels s)\<rparr>"
  obtain t effs ended where e: "endPendingIncoming (fst (dl_cancels s ! k)) (snd (dl_cancels s ! k)) ?r = (t, effs, ended)"
    by (cases "endPendingIncoming (fst (dl_cancels s ! k)) (snd (dl_cancels s ! k)) ?r") auto
  have "dialogs_traced es ?r" "effects_traced es" using assms by (simp_all add: dialer_traced_def dialogs_traced_def)
  then have "dialogs_traced (es @ effs) t \<and> effects_traced (es @ effs) \<and> dl_writes t = dl_writes s \<and> dl_byes t = dl_byes s \<and> dl_ended t = dl_ended s"
    using endPendingIncoming_traced [OF _ _ e, of es] by simp
  then have "dialer_traced (es @ effs) (wg_done t)"
    using assms pools_traced_same [of es s "wg_done t" effs] by (simp add: dialer_traced_def dialogs_traced_def)
  then show ?thesis using DCancelRun e assms by (cases "k < length (dl_cancels s)") simp_all
next
  case (DBye outbound m)
  show ?thesis
  proof (cases "\<exists>i. m = Some i \<and> i < length (dl_dialogs s) \<and> \<not> outbound \<and> dl_in s \<and> \<not> dl_closing s")
    case True
    then obtain i where i: "m = Some i" "i < length (dl_dialogs s)" "\<not> outbound" "dl_in s" "\<not> dl_closing s" by blast
    have "answered_state (di_state (dl_dialogs s ! i)) \<longrightarrow> answered_in es i"
      using assms i(2) by (simp add: dialer_traced_def dialogs_traced_def dialog_traced_def)
    then show ?thesis using DBye i assms
      by (auto simp: onBye_def trackInbound_def dialer_traced_def dialogs_traced_def pools_traced_def)
  next
    case False
    have "dialer_traced es (wg_done (s\<lparr>dl_wg := n\<rparr>))" "dialer_traced (es @ [NotifyRemoteDialogEnded]) s" for n
      using same_dialogs_traced [OF assms, of "[]"] same_dialogs_traced [OF assms, of "[NotifyRemoteDialogEnded]" s] by simp_all
    with False show ?thesis using DBye assms by (auto simp: onBye_def trackInbound_def split: option.splits if_splits)
  qed
next
  case (DByeRead k ok h)
  show ?thesis
  proof (cases "k < length (dl_byes s)")
    case True
    obtain i a n where b: "dl_byes s ! k = (i, a, n)" by (cases "dl_byes s ! k") auto
    have a: "a \<longrightarrow> answered_in es i" using assms nth_mem [OF True] b by (auto simp: dialer_traced_def pools_traced_def)
    let ?r = "s\<lparr>dl_byes := drop_nth k (dl_byes s)\<rparr>"
    let ?q = "?r\<lparr>dl_ended := dl_ended s @ [(i, a, n, cancelReason h)]\<rparr>"
    have r: "dialer_traced es ?r" using assms same_dialogs_traced [OF assms, of "[]" ?r] drop_nth_subset [of k "dl_byes s"] by simp
    then have q: "dialer_traced es ?q" using a by (simp add: dialer_traced_def dialogs_traced_def pools_traced_def)
    have "dialer_traced (es @ snd (set_state i DialogStateEnded ?q)) (fst (set_state i DialogStateEnded ?q))"
      by (rule set_state_dialer [OF q]) simp
    moreover have "dialer_traced es (wg_done ?r)" using same_dialogs_traced [OF r, of "[]" "wg_done ?r"] by simp
    ultimately show ?thesis using DByeRead True b by (simp add: Let_def)
  qed (use assms DByeRead in simp)
next
  case (DByeTell k)
  show ?thesis
  proof (cases "k < length (dl_ended s)")
    case True
    obtain i a n r where b: "dl_ended s ! k = (i, a, n, r)" by (cases "dl_ended s ! k") auto
    have a: "a \<Longrightarrow> answered_in es i" using assms nth_mem [OF True] b by (auto simp: dialer_traced_def pools_traced_def)
    let ?r = "s\<lparr>dl_ended := drop_nth k (dl_ended s)\<rparr>"
    obtain t effs where t: "onInboundBye_tell i a n r ?r = (t, effs)" by (cases "onInboundBye_tell i a n r ?r")
    have "dialer_traced (es @ effs) t"
      by (rule tell_traced [OF assms _ _ _ _ _ t]) (simp_all add: drop_nth_subset a)
    then show ?thesis using DByeTell True b t by simp
  qed (use assms DByeTell in simp)
next
  case (DRespond i status body written)
  then show ?thesis using respond_traced [OF assms, of i status body written] by (cases "respond_step i status body written s") simp
next
  case (DWrite k)
  show ?thesis
  proof (cases "k < length (dl_writes s)")
    case True
    obtain i status where w: "dl_writes s ! k = (i, status)" by (cases "dl_writes s ! k")
    have c: "200 \<le> status \<and> ClaimedFinal i status \<in> set es"
      using assms nth_mem [OF True] w by (auto simp: dialer_traced_def pools_traced_def)
    let ?t = "(write_step (i, status) s)\<lparr>dl_writes := drop_nth k (dl_writes s), dl_written := dl_written s @ [(i, status)]\<rparr>"
    have "dialogs_traced (es @ []) (write_step (i, status) s)"
      using assms c by (auto simp: write_step_def dialer_traced_def dialogs_traced_def dialog_traced_def answered_in_def answered_state_def)
    then have "dialogs_traced (es @ []) ?t" by (simp add: dialogs_traced_def)
    then have "dialer_traced (es @ []) ?t"
      by (rule traced_quiet [OF assms]) (auto simp: write_step_def drop_nth_sub)
    then show ?thesis using DWrite True w by simp
  qed (use assms DWrite in simp)
next
  case (DWritten k)
  show ?thesis
  proof (cases "k < length (dl_written s)")
    case True
    have "dialer_traced es (written_step (dl_written s ! k) s)"
      using assms unfolding written_step_def by (auto intro!: handler_quiet simp: dialog_traced_def)
    then show ?thesis using DWritten True by (simp add: dialer_traced_def dialogs_traced_def pools_traced_def)
  qed (use assms DWritten in simp)
next
  case (DLocalBye i)
  have "dialogs_traced (es @ fs) (upd_dialog i (\<lambda>d. d\<lparr>di_concluded := True, di_sessionClosed := True\<rparr>) s)" for fs
    using assms by (intro dialogs_traced_upd [of es s fs i]) (auto simp: dialer_traced_def dialog_traced_def)
  then have "dialer_traced (es @ fs) (upd_dialog i (\<lambda>d. d\<lparr>di_concluded := True, di_sessionClosed := True\<rparr>) s)"
    if "list_all plain_effect fs" for fs
    using that by (intro traced_quiet [OF assms]) auto
  from this [of "[]"] this [of "[SessionBye i]"] show ?thesis using DLocalBye assms by (simp add: dialog_Bye_def)
next
  case DUnmatchedCancel
  then show ?thesis using same_dialogs_traced [OF assms, of "[Reply 481]" s] by simp
next
  case DClose
  then show ?thesis using same_dialogs_traced [OF assms, of "[]" "s\<lparr>dl_closing := True\<rparr>"] by simp
qed (use assms handler_phase_traced [OF assms] in \<open>simp_all\<close>)


lemma dialer_run_traced:
  "dialer_traced (snd (run_effects dialer_step (newDialer handler inbound) xs)) (fst (run_effects dialer_step (newDialer handler inbound) xs))"
proof (induction xs rule: rev_induct)
  case Nil
  show ?case by (simp add: newDialer_def dialer_traced_def dialogs_traced_def pools_traced_def effects_traced_def)
next
  case (snoc x xs)
  then show ?case using dialer_step_traced [of _ _ x] by (simp add: run_effects_snoc)
qed

text \<open>
  C7. However INVITEs, CANCELs, BYEs, answers, rejections, hangups and the steps of the SIP stack interleave: a dialog is concluded once, by
  one final response or by one withdrawal; the manager is told that a pending call ended only for a dialog that has
  rung, and that an active call ended only for one this side has answered, so no dialog ends both ways; and
  the channel of the withdrawal is never closed twice.
\<close>

theorem call_ends_one_way:
  assumes "es = snd (run_effects dialer_step (newDialer handler inbound) xs)"
  shows "length (filter (is_claim i) es) \<le> 1 \<and>
         (ManagerEndIncoming i reason \<in> set es \<longrightarrow>
            (\<exists>status. WroteProvisional i status \<in> set es) \<and> ManagerRemoteDialogEnded i \<notin> set es) \<and>
         (ManagerRemoteDialogEnded i \<in> set es \<longrightarrow> (\<exists>status. 200 \<le> status \<and> status < 300 \<and> ClaimedFinal i status \<in> set es)) \<and>
         WithdrawnPanic i \<notin> set es"
proof -
  have tr: "effects_traced es" using dialer_run_traced [of handler inbound xs] assms by (simp add: dialer_traced_def)
  have "ManagerRemoteDialogEnded i \<notin> set es" if m: "ManagerEndIncoming i reason \<in> set es"
  proof
    assume "ManagerRemoteDialogEnded i \<in> set es"
    then obtain status where "ClaimedFinal i status \<in> set es" using tr by (auto simp: effects_traced_def answered_in_def)
    then show False
      using final.two_claims_equal [of "ClaimedFinal i status" "newDialer handler inbound" xs i "ManagerEndIncoming i reason"] m
      by (simp add: assms)
  qed
  then show ?thesis
    using tr final.claimed_once [of i "newDialer handler inbound" xs]
    by (auto simp: effects_traced_def answered_in_def rang_in_def assms)
qed

section \<open>The map of dialogs and the goroutines\<close>

definition map_ok :: "Dialer \<Rightarrow> bool" where
  "map_ok s \<longleftrightarrow>
     (\<forall>i \<in> set (dl_map s). i < length (dl_dialogs s)) \<and>
     (\<forall>i < length (dl_dialogs s).
        (di_handler (dl_dialogs s ! i) \<noteq> InviteReturned \<and> di_state (dl_dialogs s ! i) \<noteq> DialogStateEnded \<longrightarrow> i \<in> set (dl_map s)) \<and>
        (di_handler (dl_dialogs s ! i) = InviteReturned \<and> i \<in> set (dl_map s) \<longrightarrow> answered_state (di_state (dl_dialogs s ! i))))"

definition running :: "Dialer \<Rightarrow> nat" where
  "running s =
     length (filter (\<lambda>d. di_handler d \<noteq> InviteReturned) (dl_dialogs s)) + length (dl_cancels s) + length (dl_byes s) + length (dl_ended s)"

definition counted :: "Dialer \<Rightarrow> bool" where
  "counted s \<longleftrightarrow> dl_wg s = running s"

lemma answered_not_ended [simp]: "\<not> answered_state DialogStateEnded" "\<not> answered_state DialogStateEarly"
  "answered_state DialogStateEstablished" "answered_state DialogStateConfirmed"
  by (simp_all add: answered_state_def)

lemma map_ok_cong:
  assumes "map_ok s" and "set (dl_map t) = set (dl_map s)" and "length (dl_dialogs t) = length (dl_dialogs s)"
    and "\<And>i. i < length (dl_dialogs s) \<Longrightarrow> di_handler (dl_dialogs t ! i) = di_handler (dl_dialogs s ! i) \<or>
           di_handler (dl_dialogs t ! i) \<noteq> InviteReturned \<and> di_handler (dl_dialogs s ! i) \<noteq> InviteReturned"
    and "\<And>i. i < length (dl_dialogs s) \<Longrightarrow> di_state (dl_dialogs t ! i) = di_state (dl_dialogs s ! i) \<or>
           answered_state (di_state (dl_dialogs t ! i)) \<and> di_state (dl_dialogs s ! i) \<noteq> DialogStateEnded"
  shows "map_ok t"
proof -
  have "(di_handler (dl_dialogs t ! i) \<noteq> InviteReturned \<and> di_state (dl_dialogs t ! i) \<noteq> DialogStateEnded \<longrightarrow> i \<in> set (dl_map t)) \<and>
        (di_handler (dl_dialogs t ! i) = InviteReturned \<and> i \<in> set (dl_map t) \<longrightarrow> answered_state (di_state (dl_dialogs t ! i)))"
    if i: "i < length (dl_dialogs s)" for i
  proof -
    have "di_handler (dl_dialogs s ! i) \<noteq> InviteReturned \<and> di_state (dl_dialogs s ! i) \<noteq> DialogStateEnded \<longrightarrow> i \<in> set (dl_map s)"
      "di_handler (dl_dialogs s ! i) = InviteReturned \<and> i \<in> set (dl_map s) \<longrightarrow> answered_state (di_state (dl_dialogs s ! i))"
      using assms(1) i by (auto simp: map_ok_def)
    then show ?thesis using assms(4) [OF i] assms(5) [OF i] answered_not_ended(1) unfolding assms(2) by metis
  qed
  moreover have "\<forall>i \<in> set (dl_map s). i < length (dl_dialogs s)" using assms(1) by (simp add: map_ok_def)
  ultimately show ?thesis unfolding map_ok_def assms(2,3) by blast
qed


lemma map_ok_upd:
  assumes "map_ok s" and "\<And>d. di_state (f d) = di_state d" and "\<And>d. di_handler (f d) = di_handler d"
    and "dl_dialogs t = dl_dialogs (upd_dialog i f s)" and "set (dl_map t) = set (dl_map s)"
  shows "map_ok t"
  using assms(2-5) by (intro map_ok_cong [OF assms(1)]) auto

lemma map_ok_same: "map_ok s \<Longrightarrow> dl_dialogs t = dl_dialogs s \<Longrightarrow> dl_map t = dl_map s \<Longrightarrow> map_ok t"
  by (simp add: map_ok_def)

lemma map_ok_phase:
  "map_ok s \<Longrightarrow> \<not> dialog_at s i InviteReturned \<Longrightarrow> g \<noteq> InviteReturned \<Longrightarrow> map_ok (upd_dialog i (di_handler_update (\<lambda>_. g)) s)"
  by (rule map_ok_cong) (auto simp: dialog_at_def split: if_splits)

lemma set_state_map_ok:
  assumes "map_ok s" and "i < length (dl_dialogs s)"
    and "st = DialogStateEnded \<or> st = DialogStateConfirmed \<and> di_state (dl_dialogs s ! i) = DialogStateEstablished"
  shows "map_ok (fst (set_state i st s))"
proof (cases "st = DialogStateEnded")
  case True
  then show ?thesis using assms(1,2) by (auto simp: set_state_def map_ok_def hooked_def Let_def)
next
  case False
  then have "st = DialogStateConfirmed" "di_state (dl_dialogs s ! i) = DialogStateEstablished" using assms(3) by auto
  then show ?thesis using assms(2) by (intro map_ok_cong [OF assms(1)]) (auto simp: set_state_def Let_def)
qed

lemma onInvite_leave_map_ok:
  assumes "map_ok s" and "i < length (dl_dialogs s)" shows "map_ok (onInvite_leave i s)"
proof (cases "answered_state (di_state (dl_dialogs s ! i))")
  case True
  then show ?thesis using assms by (auto simp: onInvite_leave_def map_ok_def)
next
  case False
  then show ?thesis using assms by (auto simp: onInvite_leave_def map_ok_def)
qed

lemma endPendingIncoming_map_ok:
  "map_ok s \<Longrightarrow> endPendingIncoming i reason s = (t, effs, ended) \<Longrightarrow> map_ok t"
  by (auto simp: endPendingIncoming_def endPending_def split: if_splits option.splits prod.splits bool.splits)
    (rule map_ok_cong, assumption, auto split: if_splits)

lemma dialer_step_map_ok:
  assumes "map_ok s" shows "map_ok (fst (dialer_step s x))"
proof (cases x)
  case (DInvite c ok)
  have "map_ok (s\<lparr>dl_wg := n, dl_dialogs := dl_dialogs s @ [newIncomingDialog c], dl_map := dl_map s @ [length (dl_dialogs s)]\<rparr>)" for n
    using assms by (auto simp: map_ok_def nth_append newIncomingDialog_def less_Suc_eq)
  then show ?thesis using DInvite assms
    by (auto simp: onInvite_begin_def intro: map_ok_same split: option.splits dest!: trackInbound_SomeD)
next
  case (DState i st)
  then show ?thesis using assms set_state_map_ok by auto
next
  case (DLeave i)
  then show ?thesis using assms onInvite_leave_map_ok by (simp add: dialog_at_def)
next
  case (DCancel i h)
  then show ?thesis using assms by (auto intro: map_ok_same split: option.splits dest!: trackInbound_SomeD)
next
  case (DCancelRun k)
  let ?r = "s\<lparr>dl_cancels := drop_nth k (dl_cancels s)\<rparr>"
  obtain t effs ended where e: "endPendingIncoming (fst (dl_cancels s ! k)) (snd (dl_cancels s ! k)) ?r = (t, effs, ended)"
    by (cases "endPendingIncoming (fst (dl_cancels s ! k)) (snd (dl_cancels s ! k)) ?r") auto
  have "map_ok ?r" using assms by (rule map_ok_same) simp_all
  then have "map_ok (wg_done t)" using endPendingIncoming_map_ok [OF _ e] by (auto intro: map_ok_same)
  then show ?thesis using DCancelRun e assms by (cases "k < length (dl_cancels s)") simp_all
next
  case (DBye outbound m)
  then show ?thesis using assms by (auto simp: onBye_def intro: map_ok_same split: option.splits dest!: trackInbound_SomeD)
next
  case (DByeRead k ok h)
  obtain i a n where b: "dl_byes s ! k = (i, a, n)" by (cases "dl_byes s ! k") auto
  let ?r = "s\<lparr>dl_byes := drop_nth k (dl_byes s)\<rparr>"
  let ?q = "?r\<lparr>dl_ended := dl_ended s @ [(i, a, n, cancelReason h)]\<rparr>"
  have "map_ok ?q" "map_ok (wg_done ?r)" using assms by (auto intro: map_ok_same)
  moreover have "map_ok (fst (set_state i DialogStateEnded ?q))"
    using calculation(1) set_state_map_ok [of ?q i DialogStateEnded] by (cases "i < length (dl_dialogs s)") (simp_all add: set_state_def)
  ultimately show ?thesis using DByeRead assms b by (simp add: Let_def)
next
  case (DByeTell k)
  obtain i a n r where b: "dl_ended s ! k = (i, a, n, r)" by (cases "dl_ended s ! k") auto
  let ?r = "s\<lparr>dl_ended := drop_nth k (dl_ended s)\<rparr>"
  have r: "map_ok ?r" using assms by (rule map_ok_same) simp_all
  obtain t effs ended where e: "endPendingIncoming i r ?r = (t, effs, ended)" by (cases "endPendingIncoming i r ?r") auto
  have "map_ok (wg_done t)" "map_ok (wg_done ?r)" using endPendingIncoming_map_ok [OF r e] r by (auto intro: map_ok_same)
  then show ?thesis using DByeTell assms b e by (auto simp: onInboundBye_tell_def split: bool.splits)
next
  case (DRespond i status body written)
  then show ?thesis using assms
    by (auto simp: respond_step_def dialog_Respond_def intro!: map_ok_cong [OF assms] split: if_splits)
next
  case (DWrite k)
  then show ?thesis using assms by (auto simp: write_step_def intro!: map_ok_cong [OF assms] split: if_splits)
next
  case (DWritten k)
  then show ?thesis using assms by (auto simp: written_step_def intro!: map_ok_cong [OF assms] split: if_splits)
next
  case (DLocalBye i)
  then show ?thesis using assms by (auto simp: dialog_Bye_def intro!: map_ok_cong [OF assms] split: if_splits)
qed (use assms in \<open>auto simp: dialog_at_def intro!: map_ok_phase intro: map_ok_same\<close>)


text \<open>The count of \<^verbatim>\<open>inboundWG\<close> is the number of goroutines.\<close>

lemma length_filter_update:
  assumes "i < length xs"
  shows "length (filter P (xs[i := y])) + (if P (xs ! i) then 1 else 0) = length (filter P xs) + (if P y then 1 else 0)"
proof -
  have "xs = take i xs @ xs ! i # drop (Suc i) xs" "xs[i := y] = take i xs @ y # drop (Suc i) xs"
    using assms by (simp_all add: id_take_nth_drop upd_conv_take_nth_drop)
  then have "length (filter P xs) = length (filter P (take i xs @ xs ! i # drop (Suc i) xs))"
    "length (filter P (xs[i := y])) = length (filter P (take i xs @ y # drop (Suc i) xs))"
    by metis+
  then show ?thesis by simp
qed

lemma length_drop_nth: "k < length xs \<Longrightarrow> length (drop_nth k xs) = length xs - 1"
  by (auto simp: drop_nth_def)

definition handlers :: "Dialer \<Rightarrow> nat" where
  "handlers s = length (filter (\<lambda>d. di_handler d \<noteq> InviteReturned) (dl_dialogs s))"

lemma running_eq: "running s = handlers s + length (dl_cancels s) + length (dl_byes s) + length (dl_ended s)"
  by (simp add: running_def handlers_def)

lemma handlers_upd:
  assumes "\<And>d. i < length (dl_dialogs s) \<Longrightarrow> d = dl_dialogs s ! i \<Longrightarrow> (di_handler (f d) = InviteReturned) = (di_handler d = InviteReturned)"
  shows "handlers (upd_dialog i f s) = handlers s"
proof (cases "i < length (dl_dialogs s)")
  case True
  then show ?thesis
    using length_filter_update [of i "dl_dialogs s" "\<lambda>d. di_handler d \<noteq> InviteReturned" "f (dl_dialogs s ! i)"] assms
    by (auto simp: handlers_def upd_dialog_def split: if_splits)
qed (simp add: upd_dialog_def)

lemma handlers_return:
  assumes "i < length (dl_dialogs s)" and "di_handler (dl_dialogs s ! i) \<noteq> InviteReturned"
  shows "handlers (upd_dialog i (di_handler_update (\<lambda>_. InviteReturned)) s) + 1 = handlers s"
  using length_filter_update [of i "dl_dialogs s" "\<lambda>d. di_handler d \<noteq> InviteReturned" "(dl_dialogs s ! i)\<lparr>di_handler := InviteReturned\<rparr>"] assms
  by (simp add: handlers_def upd_dialog_def)

lemma handlers_same: "dl_dialogs t = dl_dialogs s \<Longrightarrow> handlers t = handlers s"
  by (simp add: handlers_def)

lemma set_state_counts:
  "dl_wg (fst (set_state i st s)) = dl_wg s \<and> handlers (fst (set_state i st s)) = handlers s \<and>
   dl_cancels (fst (set_state i st s)) = dl_cancels s \<and> dl_byes (fst (set_state i st s)) = dl_byes s \<and>
   dl_ended (fst (set_state i st s)) = dl_ended s \<and> dl_closing (fst (set_state i st s)) = dl_closing s"
proof -
  have "handlers (s\<lparr>dl_map := m\<rparr>) = handlers s" for m and s :: Dialer by (rule handlers_same) simp
  then show ?thesis by (simp add: set_state_def Let_def handlers_upd)
qed

lemma endPendingIncoming_counts:
  "endPendingIncoming i reason s = (t, effs, ended) \<Longrightarrow>
   dl_wg t = dl_wg s \<and> handlers t = handlers s \<and> dl_cancels t = dl_cancels s \<and> dl_byes t = dl_byes s \<and> dl_ended t = dl_ended s \<and>
   dl_closing t = dl_closing s"
  by (auto simp: endPendingIncoming_def endPending_def intro!: handlers_upd split: if_splits option.splits prod.splits bool.splits)

lemma handlers_wg_done [simp]: "handlers (wg_done s) = handlers s"
  by (simp add: handlers_def)

lemma handlers_fields [simp]:
  "handlers (s\<lparr>dl_wg := n\<rparr>) = handlers s" "handlers (s\<lparr>dl_map := m\<rparr>) = handlers s" "handlers (s\<lparr>dl_cancels := c\<rparr>) = handlers s"
  "handlers (s\<lparr>dl_byes := b\<rparr>) = handlers s" "handlers (s\<lparr>dl_ended := e\<rparr>) = handlers s" "handlers (s\<lparr>dl_writes := w\<rparr>) = handlers s"
  "handlers (s\<lparr>dl_written := w\<rparr>) = handlers s" "handlers (s\<lparr>dl_closing := x\<rparr>) = handlers s"
  by (simp_all add: handlers_def)

text \<open>A step keeps the count, and while the dialer closes the count does not grow.\<close>

definition step_counted :: "Dialer \<Rightarrow> Dialer \<Rightarrow> bool" where
  "step_counted s t \<longleftrightarrow> dl_wg t = running t \<and> (dl_closing s \<longrightarrow> dl_closing t \<and> dl_wg t \<le> dl_wg s)"

lemma step_counted_same:
  "dl_wg s = running s \<Longrightarrow> dl_wg t = dl_wg s \<Longrightarrow> handlers t = handlers s \<Longrightarrow> length (dl_cancels t) = length (dl_cancels s) \<Longrightarrow>
   length (dl_byes t) = length (dl_byes s) \<Longrightarrow> length (dl_ended t) = length (dl_ended s) \<Longrightarrow> (dl_closing s \<longrightarrow> dl_closing t) \<Longrightarrow> step_counted s t"
  by (simp add: step_counted_def running_eq)

lemma step_counted_done:
  assumes "dl_wg s = running s" and "dl_wg t = dl_wg s - 1" and "running t + 1 = running s" and "dl_closing t = dl_closing s"
  shows "step_counted s t"
  using assms by (simp add: step_counted_def)


lemma write_counts [simp]:
  "handlers (write_step w s) = handlers s" "dl_wg (write_step w s) = dl_wg s" "dl_cancels (write_step w s) = dl_cancels s"
  "dl_byes (write_step w s) = dl_byes s" "dl_ended (write_step w s) = dl_ended s" "dl_closing (write_step w s) = dl_closing s"
  "handlers (written_step w s) = handlers s" "dl_wg (written_step w s) = dl_wg s" "dl_cancels (written_step w s) = dl_cancels s"
  "dl_byes (written_step w s) = dl_byes s" "dl_ended (written_step w s) = dl_ended s" "dl_closing (written_step w s) = dl_closing s"
  by (simp_all add: write_step_def written_step_def handlers_upd)

lemma dialer_step_counted:
  assumes "dl_wg s = running s"
  shows "step_counted s (fst (dialer_step s x))"
proof -
  have quiet: "step_counted s s" using assms by (simp add: step_counted_def)
  have phase: "step_counted s (upd_dialog i (di_handler_update (\<lambda>_. g)) s)"
    if "dialog_at s i p" "p \<noteq> InviteReturned" "g \<noteq> InviteReturned" for i p g
    using that by (intro step_counted_same [OF assms]) (auto simp: dialog_at_def intro!: handlers_upd)
  show ?thesis
  proof (cases x)
    case (DInvite c ok)
    have "handlers (s\<lparr>dl_wg := n, dl_dialogs := dl_dialogs s @ [newIncomingDialog c], dl_map := m\<rparr>) = handlers s + 1" for n m
      by (simp add: handlers_def newIncomingDialog_def)
    then show ?thesis using DInvite quiet assms
      by (auto simp: onInvite_begin_def trackInbound_def step_counted_def running_eq wg_done_def)
  next
    case (DState i st)
    then show ?thesis using quiet set_state_counts [of i st s] assms by (auto intro: step_counted_same)
  next
    case (DLeave i)
    show ?thesis
    proof (cases "dialog_at s i InviteLeaving")
      case True
      let ?u = "if answered_state (di_state (dl_dialogs s ! i)) then s
        else (upd_dialog i (di_sessionClosed_update (\<lambda>_. True)) s)\<lparr>dl_map := removeAll i (dl_map s)\<rparr>"
      have u: "handlers ?u = handlers s" "i < length (dl_dialogs ?u)" "di_handler (dl_dialogs ?u ! i) \<noteq> InviteReturned"
        using True by (auto simp: dialog_at_def intro!: handlers_upd)
      then have "running (onInvite_leave i s) + 1 = running s"
        using handlers_return [OF u(2,3)] by (simp add: onInvite_leave_def running_eq split: if_splits)
      then show ?thesis using DLeave True assms by (auto intro!: step_counted_done simp: onInvite_leave_def)
    qed (use DLeave quiet in simp)
  next
    case (DCancel i h)
    then show ?thesis using quiet assms by (auto simp: trackInbound_def step_counted_def running_eq)
  next
    case (DCancelRun k)
    let ?r = "s\<lparr>dl_cancels := drop_nth k (dl_cancels s)\<rparr>"
    obtain t effs ended where e: "endPendingIncoming (fst (dl_cancels s ! k)) (snd (dl_cancels s ! k)) ?r = (t, effs, ended)"
      by (cases "endPendingIncoming (fst (dl_cancels s ! k)) (snd (dl_cancels s ! k)) ?r") auto
    show ?thesis
    proof (cases "k < length (dl_cancels s)")
      case True
      then have "step_counted s (wg_done t)"
        using endPendingIncoming_counts [OF e] length_drop_nth [OF True] assms
        by (intro step_counted_done) (auto simp: running_eq)
      then show ?thesis using DCancelRun e True by simp
    qed (use DCancelRun quiet in simp)
  next
    case (DBye outbound m)
    then show ?thesis using quiet assms by (auto simp: onBye_def trackInbound_def step_counted_def running_eq wg_done_def split: option.splits)
  next
    case (DByeRead k ok h)
    obtain i a n where b: "dl_byes s ! k = (i, a, n)" by (cases "dl_byes s ! k") auto
    let ?r = "s\<lparr>dl_byes := drop_nth k (dl_byes s)\<rparr>"
    let ?q = "?r\<lparr>dl_ended := dl_ended s @ [(i, a, n, cancelReason h)]\<rparr>"
    show ?thesis
    proof (cases "k < length (dl_byes s)")
      case True
      have "step_counted s (wg_done ?r)"
        using length_drop_nth [OF True] True assms by (intro step_counted_done) (auto simp: running_eq)
      moreover have "step_counted s (fst (set_state i DialogStateEnded ?q))"
        using set_state_counts [of i DialogStateEnded ?q] length_drop_nth [OF True] True assms
        by (auto simp: step_counted_def running_eq)
      ultimately show ?thesis using DByeRead True b by (simp add: Let_def)
    qed (use DByeRead quiet in simp)
  next
    case (DByeTell k)
    obtain i a n r where b: "dl_ended s ! k = (i, a, n, r)" by (cases "dl_ended s ! k") auto
    let ?r = "s\<lparr>dl_ended := drop_nth k (dl_ended s)\<rparr>"
    obtain t effs ended where e: "endPendingIncoming i r ?r = (t, effs, ended)" by (cases "endPendingIncoming i r ?r") auto
    show ?thesis
    proof (cases "k < length (dl_ended s)")
      case True
      have "step_counted s (wg_done t)" "step_counted s (wg_done ?r)"
        using endPendingIncoming_counts [OF e] length_drop_nth [OF True] True assms
        by (auto intro!: step_counted_done simp: running_eq)
      then show ?thesis using DByeTell True b e by (auto simp: onInboundBye_tell_def split: bool.splits)
    qed (use DByeTell quiet in simp)
  next
    case (DRespond i status body written)
    have "handlers (upd_dialog i (\<lambda>_. fst (dialog_Respond (dl_dialogs s ! i) status body written)) s) = handlers s"
      by (rule handlers_upd) (simp add: dialog_Respond_def)
    then show ?thesis using DRespond quiet assms
      by (auto simp: respond_step_def dialog_Respond_def intro!: step_counted_same split: if_splits)
  next
    case (DWrite k)
    then show ?thesis using quiet by (simp add: step_counted_same [OF assms])
  next
    case (DWritten k)
    then show ?thesis using quiet by (simp add: step_counted_same [OF assms])
  next
    case (DLocalBye i)
    then show ?thesis using quiet assms by (auto simp: dialog_Bye_def handlers_upd intro!: step_counted_same)
  next
    case DUnmatchedCancel
    then show ?thesis using quiet by simp
  next
    case DClose
    then show ?thesis using assms by (auto intro!: step_counted_same)
  qed (use quiet phase in auto)
qed

text \<open>
  C8. In every state of the dialer the count that its closing waits for is the number of goroutines that may still call the manager,
  and once the closing has begun it never grows. A dialog whose handler runs is in the map until it ends, and when
  the handler has returned only a live answered call is still there: no dialog that is over stays in the map.
\<close>

theorem dialer_bookkeeping:
  assumes "s = fst (run_effects dialer_step (newDialer handler inbound) xs)"
  shows "dl_wg s = running s \<and> (dl_closing s \<longrightarrow> dl_wg (fst (dialer_step s x)) \<le> dl_wg s \<and> dl_closing (fst (dialer_step s x))) \<and>
         (\<forall>i < length (dl_dialogs s).
            (di_handler (dl_dialogs s ! i) \<noteq> InviteReturned \<and> di_state (dl_dialogs s ! i) \<noteq> DialogStateEnded \<longrightarrow> i \<in> set (dl_map s)) \<and>
            (di_handler (dl_dialogs s ! i) = InviteReturned \<and> i \<in> set (dl_map s) \<longrightarrow> answered_state (di_state (dl_dialogs s ! i))))"
proof -
  have wg: "dl_wg s = running s"
    unfolding assms
  proof (induction xs rule: rev_induct)
    case Nil
    show ?case by (simp add: newDialer_def running_def)
  next
    case (snoc y ys)
    then show ?case using dialer_step_counted [OF snoc.IH, of y] by (simp add: run_effects_snoc step_counted_def)
  qed
  have "map_ok (newDialer handler inbound)" by (simp add: newDialer_def map_ok_def)
  then have "map_ok s" unfolding assms by (rule run_effects_invariant) (rule dialer_step_map_ok)
  then have "\<forall>i < length (dl_dialogs s).
      (di_handler (dl_dialogs s ! i) \<noteq> InviteReturned \<and> di_state (dl_dialogs s ! i) \<noteq> DialogStateEnded \<longrightarrow> i \<in> set (dl_map s)) \<and>
      (di_handler (dl_dialogs s ! i) = InviteReturned \<and> i \<in> set (dl_map s) \<longrightarrow> answered_state (di_state (dl_dialogs s ! i)))"
    unfolding map_ok_def by blast
  then show ?thesis using wg dialer_step_counted [OF wg, of x] unfolding step_counted_def by blast
qed

section \<open>A call that is answered and hung up\<close>

definition sample_call :: "dialer_input list" where
  "sample_call =
     [DInvite ''c1'' True, DHookState 0, DHookCancel 0 True, DRespond 0 180 '''' True, DHandled 0 True, DRespond 0 200 ''v=0'' True,
      DCancel 0 None, DWrite 0, DCancelRun 0, DState 0 DialogStateConfirmed, DWake 0, DLeave 0, DBye False (Some 0), DClose,
      DByeRead 0 True None, DByeTell 0]"

lemmas sample_call_defs =
  sample_call_def newDialer_def onInvite_begin_def trackInbound_def newIncomingDialog_def dialog_at_def upd_dialog_def respond_step_def
  dialog_Respond_def write_step_def drop_nth_def set_state_def hooked_def endPendingIncoming_def endPending_def wg_done_def
  onInvite_leave_def onBye_def onInboundBye_tell_def

theorem call_ends_one_way_witness:
  "ManagerRemoteDialogEnded 0 \<in> set (snd (run_effects dialer_step (newDialer True True) sample_call)) \<and>
   (\<exists>status. 200 \<le> status \<and> status < 300 \<and> ClaimedFinal 0 status \<in> set (snd (run_effects dialer_step (newDialer True True) sample_call)))"
proof -
  have "ManagerRemoteDialogEnded 0 \<in> set (snd (run_effects dialer_step (newDialer True True) sample_call))"
    by (simp add: sample_call_defs)
  then show ?thesis using call_ends_one_way [of _ True True sample_call 0, OF refl] by blast
qed

theorem dialer_bookkeeping_witness:
  "dl_closing (fst (run_effects dialer_step (newDialer True True) sample_call)) \<and>
   dl_wg (fst (run_effects dialer_step (newDialer True True) sample_call)) = running (fst (run_effects dialer_step (newDialer True True) sample_call))"
proof -
  have "dl_closing (fst (run_effects dialer_step (newDialer True True) sample_call))" by (simp add: sample_call_defs)
  then show ?thesis using dialer_bookkeeping [of _ True True sample_call DClose, OF refl] by blast
qed

end
