(* ===== verification/Media_Snapshot.thy ===== *)
theory Media_Snapshot
  imports Media_Clip Claim_Once
begin

text \<open>
  The pictures of \<^verbatim>\<open>src/internal/media/snapshot.go\<close>: the manager with the capture of every source generation, the access units
  a capture hands to its decoder, the published pictures, and the goroutines that write them to their files.

  The depacketizer is the \<open>decode\<close> of \<open>Media_Clip\<close>; \<open>annexb\<close> is the third-party encoder of access units, \<open>None\<close> its error. The decoder
  is a child process: what it does (a picture, an exit, a failing start) is an input, what it is fed an effect. A
  capture is cut at every receive, the arming between the exchange of the active capture and the close of the one before, and a
  file write between its lock, the look at the newest picture and the write itself. Captures are numbered by \<^verbatim>\<open>nextID\<close>, counted from
  zero, so a number is also the place of the capture in the list. The check and the send of \<^verbatim>\<open>Consume\<close> are one step: a packet sent
  behind the end would lie in a queue nobody reads. Reads of a picture file that fail for another reason than a missing file are left out.
\<close>

section \<open>JPEG files\<close>

fun bytes_index :: "bytes \<Rightarrow> bytes \<Rightarrow> nat option" where
  "bytes_index [] sep = (if sep = [] then Some 0 else None)"
| "bytes_index (b # bs) sep =
     (if take (length sep) (b # bs) = sep then Some 0 else map_option Suc (bytes_index bs sep))"

definition firstJPEG :: "bytes \<Rightarrow> bytes option" where
  "firstJPEG data =
     (case bytes_index data [0xff, 0xd8] of
        None \<Rightarrow> None
      | Some start \<Rightarrow>
          (case bytes_index (drop (start + 2) data) [0xff, 0xd9] of
             None \<Rightarrow> None
           | Some stop \<Rightarrow> Some (take (stop + 4) (drop start data))))"

datatype read_result = Chunk bytes | ChunkEOF bytes | ChunkError bytes

datatype jpeg_error = ErrTooMuchOutput | ErrReadOutput

definition snapshotMaxOutput :: nat where "snapshotMaxOutput = 4194304"

text \<open>The loop of \<^verbatim>\<open>readFirstJPEG\<close> over the reads of the output; a reader that has no more reads is at its end.\<close>

fun read_jpeg :: "bytes \<Rightarrow> read_result list \<Rightarrow> (jpeg_error, bytes option) result" where
  "read_jpeg data [] =
     (if snapshotMaxOutput \<le> length data then Err ErrTooMuchOutput
      else case firstJPEG data of Some jpeg \<Rightarrow> Ok (Some jpeg) | None \<Rightarrow> Ok None)"
| "read_jpeg data (r # rs) =
     (if snapshotMaxOutput \<le> length data then Err ErrTooMuchOutput
      else case r of
             Chunk c \<Rightarrow> (case firstJPEG (data @ c) of Some jpeg \<Rightarrow> Ok (Some jpeg) | None \<Rightarrow> read_jpeg (data @ c) rs)
           | ChunkEOF c \<Rightarrow> (case firstJPEG (data @ c) of Some jpeg \<Rightarrow> Ok (Some jpeg) | None \<Rightarrow> Ok None)
           | ChunkError c \<Rightarrow> (case firstJPEG (data @ c) of Some jpeg \<Rightarrow> Ok (Some jpeg) | None \<Rightarrow> Err ErrReadOutput))"

definition readFirstJPEG :: "read_result list \<Rightarrow> (jpeg_error, bytes option) result" where
  "readFirstJPEG = read_jpeg []"

section \<open>Access units\<close>

definition snapshotMaxSkippedTypes :: nat where "snapshotMaxSkippedTypes = 32"
definition snapshotPacketBufferSize :: nat where "snapshotPacketBufferSize = 256"
definition snapshotMaxDecoders :: nat where "snapshotMaxDecoders = 3"
definition snapshotAccessUnitDelimiter :: bytes where "snapshotAccessUnitDelimiter = [0x09, 0xf0]"

record 'd snapshotAccessUnits =
  au_decoder :: 'd
  au_sps :: "bytes option"
  au_pps :: "bytes option"
  au_started :: bool
  au_skipped :: nat
  au_skippedTypes :: "8 word list list"
  au_broken :: nat

definition newSnapshotAccessUnits :: "'d \<Rightarrow> 'd snapshotAccessUnits" where
  "newSnapshotAccessUnits d =
     \<lparr>au_decoder = d, au_sps = None, au_pps = None, au_started = False, au_skipped = 0, au_skippedTypes = [], au_broken = 0\<rparr>"

text \<open>The NAL unit types the loop of \<^verbatim>\<open>push\<close> collects for the log.\<close>

definition nalu_types :: "bytes list \<Rightarrow> 8 word list" where
  "nalu_types nalus = map (\<lambda>n. hd n AND 0x1f) (filter (\<lambda>n. n \<noteq> []) nalus)"

text \<open>
  \<^verbatim>\<open>push\<close>: the NAL units of the access unit it returns, with their encoding. The loop sets the parameter sets of the stream itself,
  so it is the scan of \<open>Media_Clip\<close> from those.
\<close>

definition push_unit ::
  "(bytes list \<Rightarrow> bytes option) \<Rightarrow> 'd snapshotAccessUnits \<Rightarrow> bytes list \<Rightarrow> 'd snapshotAccessUnits \<times> (bytes list \<times> bytes) option" where
  "push_unit annexb u nalus =
     (let s = foldl scan_nalu \<lparr>ns_sps = au_sps u, ns_pps = au_pps u, ns_idr = False, ns_nalus = []\<rparr> nalus;
          u = u\<lparr>au_sps := ns_sps s, au_pps := ns_pps s\<rparr>;
          u = (if \<not> au_started u \<and> length (au_skippedTypes u) < snapshotMaxSkippedTypes
               then u\<lparr>au_skippedTypes := au_skippedTypes u @ [nalu_types nalus]\<rparr> else u) in
      if ns_nalus s = [] then (u, None)
      else if \<not> au_started u \<and> (\<not> ns_idr s \<or> au_sps u = None \<or> au_pps u = None)
        then (u\<lparr>au_skipped := au_skipped u + 1\<rparr>, None)
      else
        let unit = (if ns_idr s
                    then (case au_sps u of Some p \<Rightarrow> p | None \<Rightarrow> []) # (case au_pps u of Some p \<Rightarrow> p | None \<Rightarrow> []) # ns_nalus s
                    else ns_nalus s) in
        case annexb (unit @ [snapshotAccessUnitDelimiter]) of
          None \<Rightarrow> (u, None)
        | Some encoded \<Rightarrow> (u\<lparr>au_started := True\<rparr>, Some (unit, encoded)))"

definition snapshot_push ::
  "('d \<Rightarrow> Packet \<Rightarrow> 'd \<times> decoded) \<Rightarrow> (bytes list \<Rightarrow> bytes option) \<Rightarrow> 'd snapshotAccessUnits \<Rightarrow> Packet \<Rightarrow>
   'd snapshotAccessUnits \<times> (bytes list \<times> bytes) option" where
  "snapshot_push decode annexb u packet =
     (case decode (au_decoder u) packet of
        (d, MorePacketsNeeded) \<Rightarrow> (u\<lparr>au_decoder := d\<rparr>, None)
      | (d, DecodeError) \<Rightarrow> (u\<lparr>au_decoder := d, au_broken := au_broken u + 1\<rparr>, None)
      | (d, Decoded nalus) \<Rightarrow> push_unit annexb (u\<lparr>au_decoder := d\<rparr>) nalus)"

definition units_restart :: "'d snapshotAccessUnits \<Rightarrow> 'd snapshotAccessUnits" where
  "units_restart u = u\<lparr>au_started := False\<rparr>"

section \<open>The manager and its captures\<close>

datatype attempt_phase = AttemptArmed | AttemptStarting | AttemptRunning | AttemptFinishing | AttemptDone

record 'd snapshotAttempt =
  sa_entrypointID :: string
  sa_cancelled :: bool
  sa_packets :: "Packet list"
  sa_ring :: bool
  sa_done :: bool
  sa_phase :: attempt_phase
  sa_units :: "'d snapshotAccessUnits"
  sa_decoders :: nat
  sa_fed :: nat
  sa_ended :: bool

record snapshotPicture =
  sp_image :: bytes
  sp_takenAt :: time

text \<open>
  The manager: \<open>sm_closing\<close> are the calls of \<^verbatim>\<open>Arm\<close> that still have to close the capture before, \<open>sm_persists\<close> the write goroutines
  waiting for \<^verbatim>\<open>writeMu\<close>, \<open>sm_writing\<close> the one that has it, with the paths still to write and the picture it has looked up for the
  first of them. \<open>sm_captured\<close> counts the calls of \<^verbatim>\<open>onCaptured\<close>.
\<close>

record 'd SnapshotManager =
  sm_dir :: string
  sm_active :: "nat option"
  sm_attempts :: "'d snapshotAttempt list"
  sm_closing :: "nat list"
  sm_pictures :: "string \<Rightarrow> snapshotPicture option"
  sm_files :: "string \<Rightarrow> bytes stored option"
  sm_persists :: "string list list"
  sm_writing :: "(string list \<times> snapshotPicture option) option"
  sm_captured :: nat

definition newSnapshotManager :: "string \<Rightarrow> (string \<Rightarrow> bytes stored option) \<Rightarrow> 'd SnapshotManager" where
  "newSnapshotManager dir files =
     \<lparr>sm_dir = dir, sm_active = None, sm_attempts = [], sm_closing = [], sm_pictures = Map.empty, sm_files = files,
      sm_persists = [], sm_writing = None, sm_captured = 0\<rparr>"

datatype snapshot_effect =
    Published nat string snapshotPicture
  | FedDecoder nat nat "bytes list" bytes
  | StartedDecoder nat nat

definition upd_attempt :: "nat \<Rightarrow> ('d snapshotAttempt \<Rightarrow> 'd snapshotAttempt) \<Rightarrow> 'd SnapshotManager \<Rightarrow> 'd SnapshotManager" where
  "upd_attempt i f s =
     (if i < length (sm_attempts s) then s\<lparr>sm_attempts := (sm_attempts s)[i := f (sm_attempts s ! i)]\<rparr> else s)"

definition attempt_at :: "'d SnapshotManager \<Rightarrow> nat \<Rightarrow> attempt_phase \<Rightarrow> bool" where
  "attempt_at s i ph \<longleftrightarrow> i < length (sm_attempts s) \<and> sa_phase (sm_attempts s ! i) = ph"

text \<open>\<^verbatim>\<open>Arm\<close> up to its unlock.\<close>

definition manager_Arm :: "'d \<Rightarrow> string \<Rightarrow> 'd SnapshotManager \<Rightarrow> 'd SnapshotManager" where
  "manager_Arm decoder entrypointID s =
     (if entrypointID = '''' then s
      else
        s\<lparr>sm_attempts := sm_attempts s @
            [\<lparr>sa_entrypointID = entrypointID, sa_cancelled = False, sa_packets = [], sa_ring = False, sa_done = False,
              sa_phase = AttemptArmed, sa_units = newSnapshotAccessUnits decoder, sa_decoders = 0, sa_fed = 0, sa_ended = False\<rparr>],
          sm_active := Some (length (sm_attempts s)),
          sm_closing := (case sm_active s of None \<Rightarrow> sm_closing s | Some p \<Rightarrow> sm_closing s @ [p])\<rparr>)"

text \<open>\<^verbatim>\<open>finish\<close>.\<close>

definition attempt_finish :: "nat \<Rightarrow> 'd SnapshotManager \<Rightarrow> 'd SnapshotManager" where
  "attempt_finish i s =
     (upd_attempt i (\<lambda>a. a\<lparr>sa_done := True, sa_packets := [], sa_phase := AttemptDone\<rparr>) s)
       \<lparr>sm_active := (if sm_active s = Some i then None else sm_active s)\<rparr>"

text \<open>\<^verbatim>\<open>Close\<close>: \<^verbatim>\<open>startOnce\<close> runs \<^verbatim>\<open>finish\<close> for a capture that never started.\<close>

definition attempt_Close :: "nat \<Rightarrow> 'd SnapshotManager \<Rightarrow> 'd SnapshotManager" where
  "attempt_Close i s =
     (let t = upd_attempt i (sa_cancelled_update (\<lambda>_. True)) s in
      if attempt_at s i AttemptArmed then attempt_finish i t else t)"

definition attempt_Consume :: "Packet \<Rightarrow> 'd snapshotAttempt \<Rightarrow> 'd snapshotAttempt" where
  "attempt_Consume p a =
     (if sa_done a then a
      else if length (sa_packets a) < snapshotPacketBufferSize then a\<lparr>sa_packets := sa_packets a @ [p]\<rparr> else a)"

text \<open>\<^verbatim>\<open>publish\<close> with the goroutine it starts. The doorbell picture has a path of its own.\<close>

definition publish_paths :: "string \<Rightarrow> 'd snapshotAttempt \<Rightarrow> string list" where
  "publish_paths dir a =
     (case snapshot_path dir (sa_entrypointID a) of
        None \<Rightarrow> []
      | Some path \<Rightarrow>
          path # (if sa_ring a
                  then (case snapshot_ringPath dir (sa_entrypointID a) of Some r \<Rightarrow> [r] | None \<Rightarrow> []) else []))"

definition manager_publish :: "nat \<Rightarrow> bytes \<Rightarrow> time \<Rightarrow> 'd SnapshotManager \<Rightarrow> 'd SnapshotManager \<times> snapshot_effect list" where
  "manager_publish i jpeg now s =
     (let a = sm_attempts s ! i; paths = publish_paths (sm_dir s) a; picture = \<lparr>sp_image = jpeg, sp_takenAt = now\<rparr> in
      if sm_active s \<noteq> Some i \<or> sa_cancelled a then (s, [])
      else if paths = [] then (s, [])
      else
        (s\<lparr>sm_pictures := (\<lambda>p. if p \<in> set paths then Some picture else sm_pictures s p),
           sm_persists := sm_persists s @ [paths], sm_captured := sm_captured s + 1\<rparr>,
         [Published i (hd paths) picture]))"

text \<open>\<^verbatim>\<open>persist\<close>: the lock, the look at the newest picture of the first path, and the write of it.\<close>

definition persist_lock :: "nat \<Rightarrow> 'd SnapshotManager \<Rightarrow> 'd SnapshotManager" where
  "persist_lock k s =
     (if sm_writing s = None \<and> k < length (sm_persists s)
      then s\<lparr>sm_persists := drop_nth k (sm_persists s), sm_writing := Some (sm_persists s ! k, None)\<rparr> else s)"

definition persist_look :: "'d SnapshotManager \<Rightarrow> 'd SnapshotManager" where
  "persist_look s =
     (case sm_writing s of
        Some (p # ps, None) \<Rightarrow> s\<lparr>sm_writing := Some (p # ps, sm_pictures s p)\<rparr>
      | Some ([], _) \<Rightarrow> s\<lparr>sm_writing := None\<rparr>
      | _ \<Rightarrow> s)"

definition persist_write :: "(atomic_step \<Rightarrow> bool) \<Rightarrow> 'd SnapshotManager \<Rightarrow> 'd SnapshotManager" where
  "persist_write fails s =
     (case sm_writing s of
        Some (p # ps, Some picture) \<Rightarrow>
          s\<lparr>sm_files := (sm_files s)(p := pl_target (fst (writeFileAtomicFunc fails (sp_takenAt picture) (sp_image picture)
                \<lparr>pl_target = sm_files s p, pl_temporary = None\<rparr>))),
            sm_writing := Some (ps, None)\<rparr>
      | _ \<Rightarrow> s)"

datatype snapshot_input =
    SArm string
  | SArmClose nat
  | SConsume nat Packet
  | SStart nat
  | SClose nat
  | SMarkRing nat
  | SRunnerStart nat bool
  | STake nat
  | SPicture nat "read_result list" time
  | SExit nat bool
  | SExpire nat
  | SFinish nat
  | SPersistLock nat
  | SPersistLook
  | SPersistWrite "atomic_step \<Rightarrow> bool"

text \<open>
  \<^verbatim>\<open>Write\<close> of the decoder process, as the input that reaches it and the flag \<^verbatim>\<open>ended\<close>: the first access unit closes its input.
\<close>

definition process_Write :: "bool \<Rightarrow> bytes \<Rightarrow> bool \<times> bytes option" where
  "process_Write ended data = (if ended then (ended, None) else (True, Some data))"

text \<open>A packet of the capture's queue: an access unit it completes goes to the decoder.\<close>

definition attempt_take ::
  "('d \<Rightarrow> Packet \<Rightarrow> 'd \<times> decoded) \<Rightarrow> (bytes list \<Rightarrow> bytes option) \<Rightarrow> nat \<Rightarrow> 'd SnapshotManager \<Rightarrow> 'd SnapshotManager \<times> snapshot_effect list" where
  "attempt_take decode annexb i s =
     (let a = sm_attempts s ! i in
      case sa_packets a of
        [] \<Rightarrow> (s, [])
      | p # ps \<Rightarrow>
          (case snapshot_push decode annexb (sa_units a) p of
             (u, None) \<Rightarrow> (upd_attempt i (\<lambda>a. a\<lparr>sa_packets := ps, sa_units := u\<rparr>) s, [])
           | (u, Some (unit, encoded)) \<Rightarrow>
               (case process_Write (sa_ended a) encoded of
                  (ended, written) \<Rightarrow>
                    (upd_attempt i (\<lambda>a. a\<lparr>sa_packets := ps, sa_units := u, sa_fed := sa_fed a + 1, sa_ended := ended\<rparr>) s,
                     (case written of None \<Rightarrow> [] | Some w \<Rightarrow> [FedDecoder i (sa_decoders a) unit w])))))"

text \<open>The decoder is gone without a picture; \<open>restartOk\<close> says whether a new one starts.\<close>

definition attempt_exit :: "nat \<Rightarrow> bool \<Rightarrow> 'd SnapshotManager \<Rightarrow> 'd SnapshotManager \<times> snapshot_effect list" where
  "attempt_exit i restartOk s =
     (let a = sm_attempts s ! i in
      if sa_fed a = 0 \<or> snapshotMaxDecoders \<le> sa_decoders a \<or> sa_cancelled a \<or> \<not> restartOk
      then (upd_attempt i (sa_phase_update (\<lambda>_. AttemptFinishing)) s, [])
      else (upd_attempt i (\<lambda>a. a\<lparr>sa_decoders := sa_decoders a + 1, sa_fed := 0, sa_ended := False, sa_units := units_restart (sa_units a)\<rparr>) s,
            [StartedDecoder i (sa_decoders a + 1)]))"

text \<open>
  A step of the system. \<open>SPicture\<close> carries the reads of the decoder's output; when they hold no picture the goroutine that reads them
  sends none, and the capture sees the exit of the decoder instead.
\<close>

fun snapshot_step ::
  "'d \<Rightarrow> ('d \<Rightarrow> Packet \<Rightarrow> 'd \<times> decoded) \<Rightarrow> (bytes list \<Rightarrow> bytes option) \<Rightarrow> 'd SnapshotManager \<Rightarrow> snapshot_input \<Rightarrow>
   'd SnapshotManager \<times> snapshot_effect list" where
  "snapshot_step init decode annexb s (SArm e) = (manager_Arm init e s, [])"
| "snapshot_step init decode annexb s (SArmClose k) =
     (if k < length (sm_closing s)
      then (attempt_Close (sm_closing s ! k) (s\<lparr>sm_closing := drop_nth k (sm_closing s)\<rparr>), []) else (s, []))"
| "snapshot_step init decode annexb s (SConsume i p) = (upd_attempt i (attempt_Consume p) s, [])"
| "snapshot_step init decode annexb s (SStart i) =
     (if attempt_at s i AttemptArmed then (upd_attempt i (sa_phase_update (\<lambda>_. AttemptStarting)) s, []) else (s, []))"
| "snapshot_step init decode annexb s (SClose i) = (attempt_Close i s, [])"
| "snapshot_step init decode annexb s (SMarkRing i) = (upd_attempt i (sa_ring_update (\<lambda>_. True)) s, [])"
| "snapshot_step init decode annexb s (SRunnerStart i ok) =
     (if attempt_at s i AttemptStarting
      then (if ok then (upd_attempt i (\<lambda>a. a\<lparr>sa_phase := AttemptRunning, sa_decoders := 1\<rparr>) s, [StartedDecoder i 1])
            else (upd_attempt i (sa_phase_update (\<lambda>_. AttemptFinishing)) s, []))
      else (s, []))"
| "snapshot_step init decode annexb s (STake i) =
     (if attempt_at s i AttemptRunning then attempt_take decode annexb i s else (s, []))"
| "snapshot_step init decode annexb s (SPicture i reads now) =
     (if attempt_at s i AttemptRunning
      then (case readFirstJPEG reads of
              Ok (Some jpeg) \<Rightarrow>
                (case manager_publish i jpeg now s of
                   (t, effs) \<Rightarrow> (upd_attempt i (sa_phase_update (\<lambda>_. AttemptFinishing)) t, effs))
            | _ \<Rightarrow> (s, []))
      else (s, []))"
| "snapshot_step init decode annexb s (SExit i restartOk) =
     (if attempt_at s i AttemptRunning then attempt_exit i restartOk s else (s, []))"
| "snapshot_step init decode annexb s (SExpire i) =
     (if attempt_at s i AttemptRunning then (upd_attempt i (sa_phase_update (\<lambda>_. AttemptFinishing)) s, []) else (s, []))"
| "snapshot_step init decode annexb s (SFinish i) =
     (if attempt_at s i AttemptFinishing then (attempt_finish i s, []) else (s, []))"
| "snapshot_step init decode annexb s (SPersistLock k) = (persist_lock k s, [])"
| "snapshot_step init decode annexb s SPersistLook = (persist_look s, [])"
| "snapshot_step init decode annexb s (SPersistWrite fails) = (persist_write fails s, [])"

section \<open>What clients read\<close>

datatype snapshot_error = ErrSnapshotUnavailable | ErrSnapshotNotFound

text \<open>\<^verbatim>\<open>read\<close> for the path of a picture or of a doorbell picture; a file whose content is not complete does not occur.\<close>

definition manager_read :: "'d SnapshotManager \<Rightarrow> string option \<Rightarrow> (snapshot_error, bytes) result" where
  "manager_read s located =
     (if sm_dir s = '''' then Err ErrSnapshotUnavailable
      else case located of
             None \<Rightarrow> Err ErrSnapshotUnavailable
           | Some path \<Rightarrow>
               (case sm_pictures s path of
                  Some picture \<Rightarrow> Ok (sp_image picture)
                | None \<Rightarrow>
                    (case sm_files s path of
                       None \<Rightarrow> Err ErrSnapshotNotFound
                     | Some f \<Rightarrow>
                         (case f_content f of
                            None \<Rightarrow> Err ErrSnapshotNotFound
                          | Some jpeg \<Rightarrow> if firstJPEG jpeg = None then Err ErrSnapshotNotFound else Ok jpeg))))"

definition manager_Latest :: "'d SnapshotManager \<Rightarrow> string \<Rightarrow> (snapshot_error, bytes) result" where
  "manager_Latest s entrypointID = manager_read s (snapshot_path (sm_dir s) entrypointID)"

definition manager_LatestRing :: "'d SnapshotManager \<Rightarrow> string \<Rightarrow> (snapshot_error, bytes) result" where
  "manager_LatestRing s entrypointID = manager_read s (snapshot_ringPath (sm_dir s) entrypointID)"

text \<open>\<^verbatim>\<open>takenAt\<close>; 0 is the zero time, also that of a file the file system dated.\<close>

definition manager_takenAt :: "'d SnapshotManager \<Rightarrow> string option \<Rightarrow> time" where
  "manager_takenAt s located =
     (case located of
        None \<Rightarrow> 0
      | Some path \<Rightarrow>
          (case sm_pictures s path of
             Some picture \<Rightarrow> sp_takenAt picture
           | None \<Rightarrow> (case sm_files s path of Some f \<Rightarrow> (case f_mtime f of Some t \<Rightarrow> t | None \<Rightarrow> 0) | None \<Rightarrow> 0)))"

definition manager_UpdatedAt :: "'d SnapshotManager \<Rightarrow> string \<Rightarrow> time \<times> time" where
  "manager_UpdatedAt s entrypointID =
     (if sm_dir s = '''' then (0, 0)
      else (manager_takenAt s (snapshot_path (sm_dir s) entrypointID), manager_takenAt s (snapshot_ringPath (sm_dir s) entrypointID)))"

section \<open>Lemmas on JPEG files\<close>

lemma bytes_index_SomeD:
  "bytes_index d sep = Some n \<Longrightarrow> take (length sep) (drop n d) = sep \<and> n \<le> length d"
proof (induction d arbitrary: n)
  case (Cons b d)
  then show ?case by (cases n) (auto split: if_splits)
qed (auto split: if_splits)

text \<open>What is found is found again in anything that begins with it.\<close>

lemma bytes_index_take:
  "bytes_index d sep = Some n \<Longrightarrow> n + length sep \<le> m \<Longrightarrow> bytes_index (take m d) sep = Some n"
proof (induction d arbitrary: n m)
  case (Cons b d)
  show ?case
  proof (cases "take (length sep) (b # d) = sep")
    case True
    then have "n = 0" using Cons.prems(1) by simp
    then show ?thesis using True Cons.prems(2) by (cases m) (auto simp: min_absorb1 take_Cons' split: if_splits)
  next
    case False
    then obtain k where k: "n = Suc k" "bytes_index d sep = Some k" using Cons.prems(1) by auto
    then obtain m' where m: "m = Suc m'" using Cons.prems(2) by (cases m) auto
    have "take (length sep) (b # take m' d) \<noteq> sep"
      using False Cons.prems(2) k m by (cases "length sep") (auto simp: min_absorb1)
    then show ?thesis using Cons.IH [OF k(2), of m'] Cons.prems(2) k m by simp
  qed
qed (auto split: if_splits)

lemma bytes_index_append:
  "bytes_index d sep = Some n \<Longrightarrow> bytes_index (d @ e) sep = Some n"
proof (induction d arbitrary: n)
  case (Cons b d)
  show ?case
  proof (cases "take (length sep) (b # d) = sep")
    case True
    then have len: "length sep \<le> length (b # d)" by (metis length_take min.cobounded1)
    then have "take (length sep) ((b # d) @ e) = sep" using True by (metis append_Nil2 diff_is_0_eq take0 take_append)
    then show ?thesis using True Cons.prems by simp
  next
    case False
    then obtain k where k: "n = Suc k" "bytes_index d sep = Some k" using Cons.prems by auto
    have "take (length sep) (b # d @ e) \<noteq> sep"
    proof
      assume a: "take (length sep) (b # d @ e) = sep"
      have "length sep \<le> length (b # d)"
        using bytes_index_SomeD [OF k(2)] by (metis drop_eq_Nil le_SucI length_Cons length_drop length_take min.cobounded1 min.coboundedI1 nle_le diff_le_self)
      then show False using a False by (metis append_Cons append_Nil2 diff_is_0_eq take0 take_append)
    qed
    then show ?thesis using Cons.IH [OF k(2)] k by simp
  qed
next
  case Nil
  then show ?case by (cases e) (auto split: if_splits)
qed

lemma firstJPEG_append: "firstJPEG d = Some jpeg \<Longrightarrow> firstJPEG (d @ e) = Some jpeg"
proof -
  assume "firstJPEG d = Some jpeg"
  then obtain n m where n: "bytes_index d [0xff, 0xd8] = Some n" and m: "bytes_index (drop (n + 2) d) [0xff, 0xd9] = Some m"
    and jpeg: "jpeg = take (m + 4) (drop n d)"
    by (auto simp: firstJPEG_def split: option.splits)
  have t: "take 2 (drop n d) = [0xff, 0xd8]" "take 2 (drop m (drop (n + 2) d)) = [0xff, 0xd9]"
    using bytes_index_SomeD [OF n] bytes_index_SomeD [OF m] by (simp_all add: numeral_2_eq_2)
  have "length (take 2 (drop m (drop (n + 2) d))) = 2" using t(2) by simp
  then have len: "n + m + 4 \<le> length d" by simp
  have "bytes_index (drop (n + 2) (d @ e)) [0xff, 0xd9] = Some m"
    using bytes_index_append [OF m, of e] len by simp
  then show ?thesis using bytes_index_append [OF n, of e] len by (simp add: firstJPEG_def jpeg)
qed

lemma firstJPEG_idem: "firstJPEG d = Some jpeg \<Longrightarrow> firstJPEG jpeg = Some jpeg"
proof -
  assume "firstJPEG d = Some jpeg"
  then obtain n m where n: "bytes_index d [0xff, 0xd8] = Some n" and m: "bytes_index (drop (n + 2) d) [0xff, 0xd9] = Some m"
    and jpeg: "jpeg = take (m + 4) (drop n d)"
    by (auto simp: firstJPEG_def split: option.splits)
  have "take 2 jpeg = [0xff, 0xd8]"
    using bytes_index_SomeD [OF n] by (simp add: jpeg numeral_2_eq_2)
  then obtain rest where "jpeg = 0xff # 0xd8 # rest" by (cases jpeg; cases "tl jpeg") auto
  then have "bytes_index jpeg [0xff, 0xd8] = Some 0" by simp
  moreover have "drop 2 jpeg = take (m + 2) (drop (n + 2) d)" by (simp add: jpeg drop_take add.commute)
  then have "bytes_index (drop (0 + 2) jpeg) [0xff, 0xd9] = Some m"
    using bytes_index_take [OF m, of "m + 2"] by (simp del: add_2_eq_Suc add_2_eq_Suc')
  ultimately show ?thesis by (simp add: firstJPEG_def jpeg)
qed

text \<open>
  However the output of the decoder is cut into reads, the picture is the first one in all of it.
\<close>

definition chunk_bytes :: "read_result \<Rightarrow> bytes" where
  "chunk_bytes r = (case r of Chunk c \<Rightarrow> c | ChunkEOF c \<Rightarrow> c | ChunkError c \<Rightarrow> c)"

lemma read_jpeg_first:
  assumes "read_jpeg data rs = Ok (Some jpeg)"
  shows "firstJPEG (data @ concat (map chunk_bytes rs)) = Some jpeg"
  using assms
proof (induction rs arbitrary: data)
  case (Cons r rs)
  have found: "firstJPEG (data @ chunk_bytes r) = Some x \<Longrightarrow> firstJPEG (data @ concat (map chunk_bytes (r # rs))) = Some x" for x
    using firstJPEG_append [of "data @ chunk_bytes r" x "concat (map chunk_bytes rs)"] by simp
  show ?case
  proof (cases "firstJPEG (data @ chunk_bytes r)")
    case None
    then show ?thesis using Cons.prems Cons.IH [of "data @ chunk_bytes r"]
      by (cases r) (auto simp: chunk_bytes_def split: if_splits)
  next
    case (Some x)
    then have "x = jpeg" using Cons.prems by (cases r) (auto simp: chunk_bytes_def split: if_splits)
    then show ?thesis using found Some by simp
  qed
qed (auto split: if_splits option.splits)

lemma readFirstJPEG_picture: "readFirstJPEG rs = Ok (Some jpeg) \<Longrightarrow> firstJPEG jpeg = Some jpeg"
  using read_jpeg_first [of "[]" rs jpeg] firstJPEG_idem by (simp add: readFirstJPEG_def)


section \<open>Files end with the newest pictures\<close>

definition persist_pending :: "'d SnapshotManager \<Rightarrow> string \<Rightarrow> bool" where
  "persist_pending s p \<longleftrightarrow> (\<exists>ps \<in> set (sm_persists s). p \<in> set ps)"

text \<open>The goroutine that holds the lock will still look \<open>p\<close> up.\<close>

definition will_look :: "'d SnapshotManager \<Rightarrow> string \<Rightarrow> bool" where
  "will_look s p \<longleftrightarrow>
     (case sm_writing s of
        None \<Rightarrow> False
      | Some (ps, None) \<Rightarrow> p \<in> set ps
      | Some (ps, Some _) \<Rightarrow> p \<in> set (tl ps))"

text \<open>It has looked \<open>p\<close> up and found \<open>picture\<close>.\<close>

definition has_looked :: "'d SnapshotManager \<Rightarrow> string \<Rightarrow> snapshotPicture \<Rightarrow> bool" where
  "has_looked s p picture \<longleftrightarrow> (\<exists>ps. sm_writing s = Some (p # ps, Some picture))"

definition on_disk :: "'d SnapshotManager \<Rightarrow> string \<Rightarrow> snapshotPicture \<Rightarrow> bool" where
  "on_disk s p picture \<longleftrightarrow> sm_files s p = Some (dated (sp_image picture) (sp_takenAt picture))"

definition files_follow :: "'d SnapshotManager \<Rightarrow> bool" where
  "files_follow s \<longleftrightarrow>
     (\<forall>p picture. sm_pictures s p = Some picture \<longrightarrow>
        persist_pending s p \<or> will_look s p \<or> has_looked s p picture \<or> on_disk s p picture) \<and>
     (\<forall>p old. has_looked s p old \<and> sm_pictures s p \<noteq> Some old \<longrightarrow> persist_pending s p \<or> will_look s p) \<and>
     (\<forall>p. persist_pending s p \<or> will_look s p \<longrightarrow> sm_pictures s p \<noteq> None) \<and>
     (\<forall>ps old. sm_writing s = Some (ps, Some old) \<longrightarrow> ps \<noteq> [])"

lemma files_follow_same:
  assumes "files_follow s" and "sm_pictures t = sm_pictures s" "sm_persists t = sm_persists s" "sm_writing t = sm_writing s" "sm_files t = sm_files s"
  shows "files_follow t"
  using assms by (simp add: files_follow_def persist_pending_def will_look_def has_looked_def on_disk_def)

lemma upd_attempt_fields [simp]:
  "sm_pictures (upd_attempt i f s) = sm_pictures s" "sm_persists (upd_attempt i f s) = sm_persists s"
  "sm_writing (upd_attempt i f s) = sm_writing s" "sm_files (upd_attempt i f s) = sm_files s" "sm_dir (upd_attempt i f s) = sm_dir s"
  "sm_active (upd_attempt i f s) = sm_active s" "length (sm_attempts (upd_attempt i f s)) = length (sm_attempts s)"
  "sm_closing (upd_attempt i f s) = sm_closing s"
  by (simp_all add: upd_attempt_def)

lemma upd_attempt_nth [simp]:
  "j < length (sm_attempts s) \<Longrightarrow>
   sm_attempts (upd_attempt i f s) ! j = (if i = j then f (sm_attempts s ! j) else sm_attempts s ! j)"
  by (simp add: upd_attempt_def)

lemma publish_follow:
  assumes "files_follow s" and "manager_publish i jpeg now s = (t, effs)"
  shows "files_follow t"
proof (cases "t = s")
  case False
  then obtain paths picture where t: "sm_pictures t = (\<lambda>p. if p \<in> set paths then Some picture else sm_pictures s p)"
    "sm_persists t = sm_persists s @ [paths]" "sm_writing t = sm_writing s" "sm_files t = sm_files s"
    using assms(2) by (auto simp: manager_publish_def Let_def split: if_splits)
  have pend: "persist_pending t p \<longleftrightarrow> persist_pending s p \<or> p \<in> set paths" for p
    by (auto simp: persist_pending_def t(2))
  have rest: "will_look t p = will_look s p" "has_looked t p x = has_looked s p x" "on_disk t p x = on_disk s p x" for p x
    by (simp_all add: will_look_def has_looked_def on_disk_def t)
  show ?thesis using assms(1) unfolding files_follow_def pend rest t(1,3) by auto
qed (use assms in simp)

lemma persist_lock_follow: "files_follow s \<Longrightarrow> files_follow (persist_lock k s)"
proof (cases "sm_writing s = None \<and> k < length (sm_persists s)")
  case True
  assume f: "files_follow s"
  let ?t = "persist_lock k s"
  have "set (sm_persists s) = insert (sm_persists s ! k) (set (drop_nth k (sm_persists s)))" using True by (simp add: set_drop_nth)
  then have pend: "persist_pending s p \<longleftrightarrow> persist_pending ?t p \<or> will_look ?t p" for p
    using True by (auto simp: persist_pending_def will_look_def persist_lock_def)
  have none: "\<not> will_look s p" "\<not> has_looked s p x" "\<not> has_looked ?t p x" "on_disk ?t p x = on_disk s p x" "sm_pictures ?t = sm_pictures s" for p x
    using True by (auto simp: will_look_def has_looked_def on_disk_def persist_lock_def)
  have "sm_writing ?t = Some (sm_persists s ! k, None)" using True by (simp add: persist_lock_def)
  then show ?thesis using f unfolding files_follow_def by (auto simp: none pend)
qed (auto simp: persist_lock_def)

text \<open>Where the goroutine with the lock stands.\<close>

lemma writing_cases:
  obtains (free) "sm_writing s = None" | (emptied) x where "sm_writing s = Some ([], x)"
  | (looking) p ps where "sm_writing s = Some (p # ps, None)" | (looked) p ps old where "sm_writing s = Some (p # ps, Some old)"
proof (cases "sm_writing s")
  case (Some w)
  then show ?thesis using emptied looking looked by (cases w; cases "fst w"; cases "snd w") auto
qed (rule free)

lemma persist_look_follow:
  assumes "files_follow s" shows "files_follow (persist_look s)"
proof -
  let ?t = "persist_look s"
  consider p ps where "sm_writing s = Some (p # ps, None)" | x where "sm_writing s = Some ([], x)" | "persist_look s = s"
    by (cases s rule: writing_cases) (auto simp: persist_look_def)
  then show ?thesis
  proof cases
    case (1 p ps)
    then obtain picture where pic: "sm_pictures s p = Some picture"
      using assms unfolding files_follow_def will_look_def by fastforce
    have t: "sm_writing ?t = Some (p # ps, Some picture)" "sm_persists ?t = sm_persists s" "sm_files ?t = sm_files s" "sm_pictures ?t = sm_pictures s"
      using 1 pic by (simp_all add: persist_look_def)
    have "will_look s q \<longleftrightarrow> q = p \<or> will_look ?t q" "\<not> has_looked s q x" "has_looked ?t q x \<longleftrightarrow> q = p \<and> x = picture"
      "persist_pending ?t q = persist_pending s q" "on_disk ?t q x = on_disk s q x" for q x
      by (auto simp: will_look_def has_looked_def persist_pending_def on_disk_def 1 t)
    then show ?thesis using assms pic t(1,4) unfolding files_follow_def by auto (metis option.inject)
  next
    case (2 x)
    then have t: "sm_writing ?t = None" "sm_persists ?t = sm_persists s" "sm_files ?t = sm_files s" "sm_pictures ?t = sm_pictures s"
      by (simp_all add: persist_look_def)
    have "x = None" using assms 2 by (cases x) (auto simp: files_follow_def)
    then have "\<not> will_look s q" "\<not> will_look ?t q" "\<not> has_looked s q y" "\<not> has_looked ?t q y"
      "persist_pending ?t q = persist_pending s q" "on_disk ?t q y = on_disk s q y" for q y
      by (auto simp: will_look_def has_looked_def persist_pending_def on_disk_def 2 t)
    then show ?thesis using assms t(1,4) unfolding files_follow_def by auto
  qed (use assms in simp)
qed

lemma persist_write_follow:
  assumes "files_follow s" and "\<And>w. \<not> fails w" shows "files_follow (persist_write fails s)"
proof -
  let ?t = "persist_write fails s"
  consider p ps old where "sm_writing s = Some (p # ps, Some old)" | "?t = s"
    by (cases s rule: writing_cases) (auto simp: persist_write_def)
  then show ?thesis
  proof cases
    case (1 p ps old)
    have "snd (writeFileAtomicFunc fails (sp_takenAt old) (sp_image old) \<lparr>pl_target = sm_files s p, pl_temporary = None\<rparr>) = None"
      using assms(2) by (simp add: writeFileAtomicFunc_def atomic_steps_def)
    then have "pl_target (fst (writeFileAtomicFunc fails (sp_takenAt old) (sp_image old) \<lparr>pl_target = sm_files s p, pl_temporary = None\<rparr>)) =
        Some (dated (sp_image old) (sp_takenAt old))"
      using media_file.write_ok [of fails "(sp_image old, sp_takenAt old)" "\<lparr>pl_target = sm_files s p, pl_temporary = None\<rparr>"] by simp
    then have t: "sm_writing ?t = Some (ps, None)" "sm_persists ?t = sm_persists s" "sm_pictures ?t = sm_pictures s"
      "sm_files ?t = (sm_files s)(p := Some (dated (sp_image old) (sp_takenAt old)))"
      using 1 by (simp_all add: persist_write_def)
    have same: "will_look ?t q = will_look s q" "has_looked ?t q x = False" "has_looked s q x \<longleftrightarrow> q = p \<and> x = old"
      "persist_pending ?t q = persist_pending s q" "on_disk ?t q x \<longleftrightarrow> (if q = p then dated (sp_image old) (sp_takenAt old) = dated (sp_image x) (sp_takenAt x) else on_disk s q x)" for q x
      by (auto simp: will_look_def has_looked_def persist_pending_def on_disk_def 1 t)
    show ?thesis using assms(1) unfolding files_follow_def same t(1,3) by (auto split: if_splits)
  qed (use assms in simp)
qed

fun writes_ok :: "snapshot_input \<Rightarrow> bool" where
  "writes_ok (SPersistWrite fails) = (\<forall>w. \<not> fails w)"
| "writes_ok _ = True"

lemma attempt_Close_fields [simp]:
  "sm_pictures (attempt_Close i s) = sm_pictures s" "sm_persists (attempt_Close i s) = sm_persists s"
  "sm_writing (attempt_Close i s) = sm_writing s" "sm_files (attempt_Close i s) = sm_files s" "sm_dir (attempt_Close i s) = sm_dir s"
  by (simp_all add: attempt_Close_def attempt_finish_def Let_def)

lemma attempt_take_fields [simp]:
  "sm_pictures (fst (attempt_take decode annexb i s)) = sm_pictures s" "sm_persists (fst (attempt_take decode annexb i s)) = sm_persists s"
  "sm_writing (fst (attempt_take decode annexb i s)) = sm_writing s" "sm_files (fst (attempt_take decode annexb i s)) = sm_files s"
  "sm_dir (fst (attempt_take decode annexb i s)) = sm_dir s"
  by (simp_all add: attempt_take_def Let_def split: list.splits prod.splits option.splits)

lemma attempt_exit_fields [simp]:
  "sm_pictures (fst (attempt_exit i ok s)) = sm_pictures s" "sm_persists (fst (attempt_exit i ok s)) = sm_persists s"
  "sm_writing (fst (attempt_exit i ok s)) = sm_writing s" "sm_files (fst (attempt_exit i ok s)) = sm_files s"
  "sm_dir (fst (attempt_exit i ok s)) = sm_dir s"
  by (simp_all add: attempt_exit_def Let_def)

lemma manager_Arm_fields [simp]:
  "sm_pictures (manager_Arm d e s) = sm_pictures s" "sm_persists (manager_Arm d e s) = sm_persists s"
  "sm_writing (manager_Arm d e s) = sm_writing s" "sm_files (manager_Arm d e s) = sm_files s" "sm_dir (manager_Arm d e s) = sm_dir s"
  by (simp_all add: manager_Arm_def)

lemma snapshot_step_picture:
  "snapshot_step init decode annexb s (SPicture i reads now) = (s, []) \<or>
   (\<exists>jpeg. attempt_at s i AttemptRunning \<and> readFirstJPEG reads = Ok (Some jpeg) \<and>
      snapshot_step init decode annexb s (SPicture i reads now) =
        (upd_attempt i (sa_phase_update (\<lambda>_. AttemptFinishing)) (fst (manager_publish i jpeg now s)), snd (manager_publish i jpeg now s)))"
  by (auto split: option.splits sum.splits prod.splits)

lemma snapshot_step_follow:
  assumes "files_follow s" and "writes_ok x"
  shows "files_follow (fst (snapshot_step init decode annexb s x))"
proof (cases x)
  case (SPicture i reads now)
  have p: "files_follow (fst (manager_publish i jpeg now s))" for jpeg
    using publish_follow [OF assms(1), of i jpeg now] by (cases "manager_publish i jpeg now s") simp
  have "files_follow (upd_attempt i f (fst (manager_publish i jpeg now s)))" for jpeg f
    by (rule files_follow_same [OF p [of jpeg]]) simp_all
  then show ?thesis using SPicture assms(1) snapshot_step_picture [of init decode annexb s i reads now]
    by (auto simp del: snapshot_step.simps)
next
  case (SPersistWrite fails)
  then show ?thesis using persist_write_follow [OF assms(1)] assms(2) by simp
qed (use assms(1) persist_lock_follow persist_look_follow in \<open>auto simp: attempt_finish_def intro: files_follow_same\<close>)

text \<open>Only complete pictures are published.\<close>

definition all_jpegs :: "'d SnapshotManager \<Rightarrow> bool" where
  "all_jpegs s \<longleftrightarrow> (\<forall>p picture. sm_pictures s p = Some picture \<longrightarrow> firstJPEG (sp_image picture) \<noteq> None)"

lemma publish_fields:
  "sm_dir (fst (manager_publish i jpeg now s)) = sm_dir s" "sm_attempts (fst (manager_publish i jpeg now s)) = sm_attempts s"
  "sm_pictures (fst (manager_publish i jpeg now s)) p = sm_pictures s p \<or>
   sm_pictures (fst (manager_publish i jpeg now s)) p = Some \<lparr>sp_image = jpeg, sp_takenAt = now\<rparr>"
  by (auto simp: manager_publish_def Let_def)

lemma persist_fields [simp]:
  "sm_pictures (persist_lock k s) = sm_pictures s" "sm_dir (persist_lock k s) = sm_dir s" "sm_attempts (persist_lock k s) = sm_attempts s"
  "sm_pictures (persist_look s) = sm_pictures s" "sm_dir (persist_look s) = sm_dir s" "sm_attempts (persist_look s) = sm_attempts s"
  "sm_pictures (persist_write fails s) = sm_pictures s" "sm_dir (persist_write fails s) = sm_dir s"
  "sm_attempts (persist_write fails s) = sm_attempts s"
  by (auto simp: persist_lock_def)
    (cases s rule: writing_cases, auto simp: persist_look_def persist_write_def)+

text \<open>A step that is not the picture of a decoder leaves the pictures.\<close>

lemma snapshot_step_pictures:
  "(\<forall>i reads now. x \<noteq> SPicture i reads now) \<Longrightarrow> sm_pictures (fst (snapshot_step init decode annexb s x)) = sm_pictures s"
  by (cases x) (auto simp: attempt_finish_def)

lemma snapshot_step_dir: "sm_dir (fst (snapshot_step init decode annexb s x)) = sm_dir s"
proof (cases x)
  case (SPicture i reads now)
  then show ?thesis using snapshot_step_picture [of init decode annexb s i reads now] by (auto simp del: snapshot_step.simps simp: publish_fields)
qed (auto simp: attempt_finish_def)

lemma snapshot_step_jpegs:
  assumes "all_jpegs s"
  shows "all_jpegs (fst (snapshot_step init decode annexb s x))"
proof (cases "\<forall>i reads now. x \<noteq> SPicture i reads now")
  case True
  then show ?thesis using assms(1) snapshot_step_pictures [OF True, of init decode annexb s] by (simp add: all_jpegs_def)
next
  case False
  then obtain i reads now where x: "x = SPicture i reads now" by blast
  have "all_jpegs (upd_attempt i (sa_phase_update (\<lambda>_. AttemptFinishing)) (fst (manager_publish i jpeg now s)))"
    if "readFirstJPEG reads = Ok (Some jpeg)" for jpeg
    unfolding all_jpegs_def upd_attempt_fields using readFirstJPEG_picture [OF that] assms publish_fields(3) [of i jpeg now s]
    unfolding all_jpegs_def by (metis option.distinct(1) option.inject snapshotPicture.select_convs(1))
  then show ?thesis using assms(1) x snapshot_step_picture [of init decode annexb s i reads now] by (auto simp del: snapshot_step.simps)
qed

lemma snapshot_run_state:
  assumes "list_all writes_ok xs"
    and "s = fst (run_effects (snapshot_step init decode annexb) (newSnapshotManager dir files) xs)"
  shows "files_follow s \<and> all_jpegs s \<and> sm_dir s = dir"
  using assms
proof (induction xs arbitrary: s rule: rev_induct)
  case Nil
  then show ?case
    by (simp add: newSnapshotManager_def files_follow_def persist_pending_def will_look_def has_looked_def all_jpegs_def)
next
  case (snoc x xs)
  let ?s = "fst (run_effects (snapshot_step init decode annexb) (newSnapshotManager dir files) xs)"
  have "files_follow ?s \<and> all_jpegs ?s \<and> sm_dir ?s = dir" using snoc.IH snoc.prems(1) by simp
  then show ?case
    using snoc.prems snapshot_step_follow [of ?s x init decode annexb] snapshot_step_jpegs [of ?s init decode annexb x]
    by (simp add: run_effects_snoc snapshot_step_dir)
qed

text \<open>The manager of the next start, over the files this one leaves.\<close>

definition restarted :: "'d SnapshotManager \<Rightarrow> 'd SnapshotManager" where
  "restarted s = newSnapshotManager (sm_dir s) (sm_files s)"

lemma restart_reads:
  assumes "files_follow s" and "all_jpegs s" and "sm_persists s = []" and "sm_writing s = None"
  shows "manager_read (restarted s) l = manager_read s l \<and> manager_takenAt (restarted s) l = manager_takenAt s l"
proof (cases l)
  case (Some path)
  show ?thesis
  proof (cases "sm_pictures s path")
    case (Some picture)
    then have "sm_files s path = Some (dated (sp_image picture) (sp_takenAt picture))"
      using assms unfolding files_follow_def persist_pending_def will_look_def has_looked_def on_disk_def by fastforce
    moreover have "firstJPEG (sp_image picture) \<noteq> None" using assms(2) Some by (auto simp: all_jpegs_def)
    ultimately show ?thesis using Some \<open>l = Some path\<close>
      by (auto simp: manager_read_def manager_takenAt_def restarted_def newSnapshotManager_def dated_def is_zero_time_def)
  qed (use Some in \<open>simp add: manager_read_def manager_takenAt_def restarted_def newSnapshotManager_def\<close>)
qed (simp add: manager_read_def manager_takenAt_def restarted_def newSnapshotManager_def)

text \<open>
  C31. However captures, publications and the writes of the files interleave, when no write has failed and none is under way a restarted
  manager reads from the files exactly what the manager served from memory before: the same latest and the same
  doorbell picture of every entrypoint, with the same times.
\<close>

theorem pictures_survive_restart:
  assumes "list_all writes_ok xs"
    and "s = fst (run_effects (snapshot_step init decode annexb) (newSnapshotManager dir files) xs)"
    and "sm_persists s = []" and "sm_writing s = None"
  shows "manager_Latest (restarted s) e = manager_Latest s e \<and>
         manager_LatestRing (restarted s) e = manager_LatestRing s e \<and>
         manager_UpdatedAt (restarted s) e = manager_UpdatedAt s e"
proof -
  have s: "files_follow s" "all_jpegs s" using snapshot_run_state [OF assms(1,2)] by auto
  note r = restart_reads [OF s assms(3,4)]
  have "sm_dir (restarted s) = sm_dir s" by (simp add: restarted_def newSnapshotManager_def)
  then show ?thesis using r [of "snapshot_path (sm_dir s) e"] r [of "snapshot_ringPath (sm_dir s) e"]
    by (simp add: manager_Latest_def manager_LatestRing_def manager_UpdatedAt_def)
qed

section \<open>Who may publish\<close>

lemma publish_paths_None: "snapshot_path dir (sa_entrypointID a) = None \<Longrightarrow> publish_paths dir a = []"
  by (simp add: publish_paths_def)

lemma publish_paths_Some:
  "snapshot_path dir (sa_entrypointID a) = Some path \<Longrightarrow>
   set (publish_paths dir a) = insert path (if sa_ring a then set_option (snapshot_ringPath dir (sa_entrypointID a)) else {})"
proof -
  assume "snapshot_path dir (sa_entrypointID a) = Some path"
  then have "publish_paths dir a = path # (if sa_ring a then (case snapshot_ringPath dir (sa_entrypointID a) of Some r \<Rightarrow> [r] | None \<Rightarrow> []) else [])"
    by (simp only: publish_paths_def option.case)
  then show ?thesis by (cases "sa_ring a"; cases "snapshot_ringPath dir (sa_entrypointID a)") simp_all
qed

text \<open>
  C32. The doorbell picture of an entrypoint changes only by the picture of a capture of that entrypoint that was marked as a ring,
  is the active one and is not closed: a live view never looks like a ring. It becomes the first picture of the decoder's output.
\<close>

theorem ring_picture_from_ring:
  assumes "snapshot_ringPath (sm_dir s) e = Some r" and "t = fst (snapshot_step init decode annexb s x)"
    and "sm_pictures t r \<noteq> sm_pictures s r"
  shows "\<exists>i reads jpeg now. x = SPicture i reads now \<and> i < length (sm_attempts s) \<and> sa_ring (sm_attempts s ! i) \<and>
           trim_space (sa_entrypointID (sm_attempts s ! i)) = trim_space e \<and> sm_active s = Some i \<and> \<not> sa_cancelled (sm_attempts s ! i) \<and>
           sm_pictures t r = Some \<lparr>sp_image = jpeg, sp_takenAt = now\<rparr> \<and>
           firstJPEG (concat (map chunk_bytes reads)) = Some jpeg"
proof -
  obtain i reads now where x: "x = SPicture i reads now" using assms(2,3) snapshot_step_pictures [of x init decode annexb s] by metis
  let ?a = "sm_attempts s ! i"
  obtain jpeg where run: "attempt_at s i AttemptRunning" and jpeg: "readFirstJPEG reads = Ok (Some jpeg)"
    and u: "sm_pictures t = sm_pictures (fst (manager_publish i jpeg now s))"
    using assms(2,3) x snapshot_step_picture [of init decode annexb s i reads now] by (auto simp del: snapshot_step.simps)
  have pub: "sm_active s = Some i" "\<not> sa_cancelled ?a" "r \<in> set (publish_paths (sm_dir s) ?a)"
    "sm_pictures t r = Some \<lparr>sp_image = jpeg, sp_takenAt = now\<rparr>"
    using u assms(3) by (auto simp: manager_publish_def Let_def split: if_splits)
  have "snapshot_path (sm_dir s) (sa_entrypointID ?a) \<noteq> None"
    using pub(3) publish_paths_None [of "sm_dir s" ?a] by (metis empty_iff empty_set)
  then obtain path where path: "snapshot_path (sm_dir s) (sa_entrypointID ?a) = Some path" by blast
  obtain q where "snapshot_path (sm_dir s) e = Some q" using assms(1) by (auto simp: snapshot_ringPath_def split: option.splits)
  then have "r \<noteq> path" using pictures_stay_apart [OF _ assms(1) path] by blast
  then have ring: "sa_ring ?a" "snapshot_ringPath (sm_dir s) (sa_entrypointID ?a) = Some r"
    using pub(3) path publish_paths_Some [OF path] by (auto split: option.splits if_splits)
  have "trim_space (sa_entrypointID ?a) = trim_space e"
    using snapshot_ringPath_eq [OF ring(2)] snapshot_ringPath_eq [OF assms(1)] by simp
  moreover have "firstJPEG (concat (map chunk_bytes reads)) = Some jpeg"
    using jpeg read_jpeg_first [of "[]" reads jpeg] by (simp add: readFirstJPEG_def)
  ultimately show ?thesis using x run pub ring(1) by (auto simp: attempt_at_def)
qed

section \<open>What a decoder is given\<close>

definition nalu_is :: "8 word \<Rightarrow> bytes \<Rightarrow> bool" where
  "nalu_is kind n \<longleftrightarrow> n \<noteq> [] \<and> hd n AND 0x1f = kind"

text \<open>An access unit a decoder can start from: the parameter sets, then slices with a keyframe among them.\<close>

definition keyframe_unit :: "bytes list \<Rightarrow> bool" where
  "keyframe_unit unit \<longleftrightarrow>
     (\<exists>sps pps slices. unit = sps # pps # slices \<and> nalu_is 7 sps \<and> nalu_is 8 pps \<and> list_ex (nalu_is 5) slices)"

definition scan_ok :: "naluScan \<Rightarrow> bool" where
  "scan_ok s \<longleftrightarrow> pred_option (nalu_is 7) (ns_sps s) \<and> pred_option (nalu_is 8) (ns_pps s) \<and> (ns_idr s \<longrightarrow> list_ex (nalu_is 5) (ns_nalus s))"

lemma scan_nalu_ok: "scan_ok s \<Longrightarrow> scan_ok (scan_nalu s n)"
  by (cases n) (simp_all add: scan_ok_def scan_nalu_def nalu_is_def Let_def)

lemma scan_ok_foldl: "scan_ok s \<Longrightarrow> scan_ok (foldl scan_nalu s ns)"
  by (induction ns arbitrary: s) (simp_all add: scan_nalu_ok)

definition sets_ok :: "'d snapshotAccessUnits \<Rightarrow> bool" where
  "sets_ok u \<longleftrightarrow> pred_option (nalu_is 7) (au_sps u) \<and> pred_option (nalu_is 8) (au_pps u)"

lemma push_unit_cases:
  assumes "push_unit annexb u nalus = (v, w)" and "sets_ok u"
  shows "sets_ok v \<and> (w = None \<longrightarrow> au_started v = au_started u) \<and>
         (w \<noteq> None \<longrightarrow> au_started v \<and> (\<not> au_started u \<longrightarrow> keyframe_unit (fst (the w))))"
proof -
  let ?s = "foldl scan_nalu \<lparr>ns_sps = au_sps u, ns_pps = au_pps u, ns_idr = False, ns_nalus = []\<rparr> nalus"
  have ok: "scan_ok ?s" using assms(2) by (intro scan_ok_foldl) (simp add: scan_ok_def sets_ok_def)
  show ?thesis using assms(1) ok
    by (auto simp: push_unit_def Let_def sets_ok_def scan_ok_def keyframe_unit_def split: if_splits option.splits)
qed

lemma snapshot_push_cases:
  assumes "snapshot_push decode annexb u p = (v, w)" and "sets_ok u"
  shows "sets_ok v \<and> (w = None \<longrightarrow> au_started v = au_started u) \<and>
         (w \<noteq> None \<longrightarrow> au_started v \<and> (\<not> au_started u \<longrightarrow> keyframe_unit (fst (the w))))"
proof -
  have "sets_ok (u\<lparr>au_decoder := d\<rparr>)" for d using assms(2) by (simp add: sets_ok_def)
  then show ?thesis using assms push_unit_cases [of annexb "u\<lparr>au_decoder := d\<rparr>" _ v w for d]
    by (auto simp: snapshot_push_def sets_ok_def split: prod.splits decoded.splits)
qed

text \<open>A decoder has its input exactly when the stream has started for it.\<close>

definition attempt_ok :: "'d snapshotAttempt \<Rightarrow> bool" where
  "attempt_ok a \<longleftrightarrow> sets_ok (sa_units a) \<and> sa_ended a = au_started (sa_units a) \<and> (sa_fed a = 0 \<longleftrightarrow> \<not> sa_ended a) \<and>
     sa_decoders a \<le> snapshotMaxDecoders"

definition attempts_ok :: "'d SnapshotManager \<Rightarrow> bool" where
  "attempts_ok s \<longleftrightarrow> list_all attempt_ok (sm_attempts s)"

lemma upd_attempts_ok:
  "attempts_ok s \<Longrightarrow> (\<And>a. attempt_ok a \<Longrightarrow> attempt_ok (f a)) \<Longrightarrow> attempts_ok (upd_attempt i f s)"
  by (auto simp: attempts_ok_def upd_attempt_def list_all_length nth_list_update)

lemma attempts_ok_same: "sm_attempts t = sm_attempts s \<Longrightarrow> attempts_ok t = attempts_ok s"
  by (simp add: attempts_ok_def)

lemma attempt_finish_ok: "attempts_ok s \<Longrightarrow> attempts_ok (attempt_finish i s)"
proof -
  assume "attempts_ok s"
  then have "attempts_ok (upd_attempt i (\<lambda>a. a\<lparr>sa_done := True, sa_packets := [], sa_phase := AttemptDone\<rparr>) s)"
    by (rule upd_attempts_ok) (simp add: attempt_ok_def)
  then show ?thesis by (simp add: attempt_finish_def attempts_ok_def)
qed

lemma attempt_Close_ok: "attempts_ok s \<Longrightarrow> attempts_ok (attempt_Close i s)"
proof -
  assume "attempts_ok s"
  then have "attempts_ok (upd_attempt i (sa_cancelled_update (\<lambda>_. True)) s)"
    by (rule upd_attempts_ok) (simp add: attempt_ok_def)
  then show ?thesis by (simp add: attempt_Close_def Let_def attempt_finish_ok)
qed

lemma manager_Arm_ok: "attempts_ok s \<Longrightarrow> attempts_ok (manager_Arm init e s)"
  by (simp add: manager_Arm_def attempts_ok_def attempt_ok_def newSnapshotAccessUnits_def sets_ok_def)

text \<open>A packet: nothing, a unit the decoder ignores, or its one input, a keyframe.\<close>

lemma attempt_take_cases:
  assumes "i < length (sm_attempts s)" and "attempt_ok (sm_attempts s ! i)"
  obtains (idle) f where "attempt_take decode annexb i s = (upd_attempt i f s, [])"
      "attempt_ok (f (sm_attempts s ! i))" "sa_phase (f (sm_attempts s ! i)) = sa_phase (sm_attempts s ! i)"
      "sa_decoders (f (sm_attempts s ! i)) = sa_decoders (sm_attempts s ! i)" "sa_ended (f (sm_attempts s ! i)) = sa_ended (sm_attempts s ! i)"
  | (fed) f unit w where "attempt_take decode annexb i s = (upd_attempt i f s, [FedDecoder i (sa_decoders (sm_attempts s ! i)) unit w])"
      "attempt_ok (f (sm_attempts s ! i))" "sa_phase (f (sm_attempts s ! i)) = sa_phase (sm_attempts s ! i)"
      "sa_decoders (f (sm_attempts s ! i)) = sa_decoders (sm_attempts s ! i)" "sa_ended (f (sm_attempts s ! i))"
      "\<not> sa_ended (sm_attempts s ! i)" "keyframe_unit unit"
proof -
  let ?a = "sm_attempts s ! i"
  show ?thesis
  proof (cases "sa_packets ?a")
    case Nil
    have "upd_attempt i id s = s" by (simp add: upd_attempt_def)
    then show ?thesis using Nil idle [of id] assms(2) by (simp add: attempt_take_def)
  next
    case (Cons p ps)
    obtain u w where push: "snapshot_push decode annexb (sa_units ?a) p = (u, w)" by (cases "snapshot_push decode annexb (sa_units ?a) p")
    note u = snapshot_push_cases [OF push]
    show ?thesis
    proof (cases w)
      case None
      then show ?thesis using Cons push u assms(2)
        by (intro idle [of "\<lambda>a. a\<lparr>sa_packets := ps, sa_units := u\<rparr>"]) (auto simp: attempt_take_def attempt_ok_def)
    next
      case (Some x)
      obtain unit enc where x: "x = (unit, enc)" by (cases x)
      show ?thesis
      proof (cases "sa_ended ?a")
        case True
        then show ?thesis using Cons push u assms(2) Some x
          by (intro idle [of "\<lambda>a. a\<lparr>sa_packets := ps, sa_units := u, sa_fed := sa_fed a + 1, sa_ended := True\<rparr>"])
            (auto simp: attempt_take_def attempt_ok_def process_Write_def)
      next
        case False
        then show ?thesis using Cons push u assms(2) Some x
          by (intro fed [of "\<lambda>a. a\<lparr>sa_packets := ps, sa_units := u, sa_fed := sa_fed a + 1, sa_ended := True\<rparr>" unit enc])
            (auto simp: attempt_take_def attempt_ok_def process_Write_def)
      qed
    qed
  qed
qed

lemma upd_attempt_ok_at:
  "attempts_ok s \<Longrightarrow> (i < length (sm_attempts s) \<Longrightarrow> attempt_ok (f (sm_attempts s ! i))) \<Longrightarrow> attempts_ok (upd_attempt i f s)"
  by (auto simp: attempts_ok_def upd_attempt_def list_all_length nth_list_update)

lemma attempt_take_ok:
  assumes "attempts_ok s" and "i < length (sm_attempts s)"
  shows "attempts_ok (fst (attempt_take decode annexb i s))"
proof -
  have "attempt_ok (sm_attempts s ! i)" using assms by (simp add: attempts_ok_def list_all_length)
  from assms(2) this show ?thesis
    by (cases rule: attempt_take_cases [where decode = decode and annexb = annexb]) (simp_all add: upd_attempt_ok_at assms(1))
qed

lemma attempt_exit_ok: "attempts_ok s \<Longrightarrow> attempts_ok (fst (attempt_exit i ok s))"
  by (auto simp: attempt_exit_def Let_def units_restart_def attempt_ok_def sets_ok_def snapshotMaxDecoders_def
      attempts_ok_def upd_attempt_def list_all_length nth_list_update)

lemma snapshot_step_attempts:
  assumes "attempts_ok s" shows "attempts_ok (fst (snapshot_step init decode annexb s x))"
proof (cases x)
  case (SArmClose k)
  have "attempts_ok (s\<lparr>sm_closing := c\<rparr>)" for c using assms by (simp add: attempts_ok_def)
  then show ?thesis using SArmClose assms by (simp add: attempt_Close_ok)
next
  case (SConsume i p)
  then show ?thesis using assms by (auto intro!: upd_attempts_ok simp: attempt_Consume_def attempt_ok_def)
next
  case (STake i)
  then show ?thesis using assms by (simp add: attempt_at_def attempt_take_ok)
next
  case (SRunnerStart i ok)
  then show ?thesis using assms by (auto intro!: upd_attempts_ok simp: attempt_ok_def snapshotMaxDecoders_def)
next
  case (SPicture i reads now)
  have "attempts_ok (fst (manager_publish i jpeg now s))" for jpeg using assms by (simp add: attempts_ok_def publish_fields)
  then have "attempts_ok (upd_attempt i (sa_phase_update (\<lambda>_. AttemptFinishing)) (fst (manager_publish i jpeg now s)))" for jpeg
    by (rule upd_attempts_ok) (simp add: attempt_ok_def)
  then show ?thesis using SPicture assms snapshot_step_picture [of init decode annexb s i reads now] by (auto simp del: snapshot_step.simps)
qed (use assms in \<open>auto intro!: upd_attempts_ok simp: attempt_ok_def manager_Arm_ok attempt_Close_ok attempt_finish_ok attempt_exit_ok
      attempts_ok_same [of "persist_lock k s" s for k s] attempts_ok_same [of "persist_look s" s for s] attempts_ok_same [of "persist_write f s" s for f s]\<close>)

section \<open>One picture per capture, one input per decoder\<close>

definition begun :: "'d snapshotAttempt \<Rightarrow> bool" where
  "begun a \<longleftrightarrow> sa_phase a \<notin> {AttemptArmed, AttemptStarting}"

definition over :: "'d snapshotAttempt \<Rightarrow> bool" where
  "over a \<longleftrightarrow> sa_phase a \<in> {AttemptFinishing, AttemptDone}"

text \<open>How a capture moves: it never begins again, its decoders are counted up, and the input of each ends once.\<close>

definition progress :: "'d snapshotAttempt \<Rightarrow> 'd snapshotAttempt \<Rightarrow> bool" where
  "progress a b \<longleftrightarrow>
     (begun a \<longrightarrow> begun b \<and> sa_decoders a \<le> sa_decoders b \<and> (sa_decoders a = sa_decoders b \<and> sa_ended a \<longrightarrow> sa_ended b)) \<and>
     (over a \<longrightarrow> over b)"

definition attempts_move :: "'d SnapshotManager \<Rightarrow> 'd SnapshotManager \<Rightarrow> bool" where
  "attempts_move s t \<longleftrightarrow>
     length (sm_attempts s) \<le> length (sm_attempts t) \<and>
     (\<forall>j < length (sm_attempts s). progress (sm_attempts s ! j) (sm_attempts t ! j))"

lemma progress_refl [simp]: "progress a a"
  by (simp add: progress_def)

lemma progress_trans: "progress a b \<Longrightarrow> progress b c \<Longrightarrow> progress a c"
  by (auto simp: progress_def)

lemma move_same: "sm_attempts t = sm_attempts s \<Longrightarrow> attempts_move s t"
  by (simp add: attempts_move_def)

lemma move_trans: "attempts_move s t \<Longrightarrow> attempts_move t u \<Longrightarrow> attempts_move s u"
  by (auto simp: attempts_move_def intro: progress_trans)

lemma upd_move:
  "(i < length (sm_attempts s) \<Longrightarrow> progress (sm_attempts s ! i) (f (sm_attempts s ! i))) \<Longrightarrow> attempts_move s (upd_attempt i f s)"
  by (simp add: attempts_move_def)

lemma finish_move: "attempts_move s (attempt_finish i s)"
proof -
  have "attempts_move s (upd_attempt i (\<lambda>a. a\<lparr>sa_done := True, sa_packets := [], sa_phase := AttemptDone\<rparr>) s)"
    by (rule upd_move) (simp add: progress_def begun_def over_def)
  then show ?thesis by (simp add: attempts_move_def attempt_finish_def)
qed

lemma Close_move: "attempts_move s (attempt_Close i s)"
proof -
  have "attempts_move s (upd_attempt i (sa_cancelled_update (\<lambda>_. True)) s)"
    by (rule upd_move) (simp add: progress_def begun_def over_def)
  then show ?thesis using move_trans [OF _ finish_move, of s "upd_attempt i (sa_cancelled_update (\<lambda>_. True)) s" i]
    by (simp add: attempt_Close_def Let_def)
qed

lemma attempt_take_claims:
  assumes "i < length (sm_attempts s)"
  obtains f where "fst (attempt_take decode annexb i s) = upd_attempt i f s"
      "sa_phase (f (sm_attempts s ! i)) = sa_phase (sm_attempts s ! i)" "sa_decoders (f (sm_attempts s ! i)) = sa_decoders (sm_attempts s ! i)"
      "sa_ended (sm_attempts s ! i) \<longrightarrow> sa_ended (f (sm_attempts s ! i))"
      "snd (attempt_take decode annexb i s) = [] \<or>
       (\<exists>unit w. snd (attempt_take decode annexb i s) = [FedDecoder i (sa_decoders (sm_attempts s ! i)) unit w] \<and>
          \<not> sa_ended (sm_attempts s ! i) \<and> sa_ended (f (sm_attempts s ! i)))"
proof (cases "sa_packets (sm_attempts s ! i)")
  case Nil
  have "upd_attempt i id s = s" by (simp add: upd_attempt_def)
  then show ?thesis using Nil that [of id] by (simp add: attempt_take_def)
next
  case (Cons p ps)
  let ?a = "sm_attempts s ! i"
  obtain u w where push: "snapshot_push decode annexb (sa_units ?a) p = (u, w)" by (cases "snapshot_push decode annexb (sa_units ?a) p")
  show ?thesis
  proof (cases w)
    case None
    then show ?thesis using Cons push by (intro that [of "\<lambda>a. a\<lparr>sa_packets := ps, sa_units := u\<rparr>"]) (simp_all add: attempt_take_def)
  next
    case (Some x)
    then show ?thesis using Cons push
      by (intro that [of "\<lambda>a. a\<lparr>sa_packets := ps, sa_units := u, sa_fed := sa_fed a + 1, sa_ended := True\<rparr>"]; cases x)
        (auto simp: attempt_take_def process_Write_def Let_def)
  qed
qed

lemma exit_move: "i < length (sm_attempts s) \<Longrightarrow> attempts_move s (fst (attempt_exit i ok s))"
  by (auto simp: attempt_exit_def Let_def progress_def begun_def over_def intro!: upd_move)

lemma take_move:
  assumes "i < length (sm_attempts s)" shows "attempts_move s (fst (attempt_take decode annexb i s))"
proof -
  obtain f where "fst (attempt_take decode annexb i s) = upd_attempt i f s"
    "sa_phase (f (sm_attempts s ! i)) = sa_phase (sm_attempts s ! i)" "sa_decoders (f (sm_attempts s ! i)) = sa_decoders (sm_attempts s ! i)"
    "sa_ended (sm_attempts s ! i) \<longrightarrow> sa_ended (f (sm_attempts s ! i))"
    by (rule attempt_take_claims [OF assms])
  then show ?thesis by (simp add: upd_move progress_def begun_def over_def)
qed

lemma snapshot_step_moves: "attempts_move s (fst (snapshot_step init decode annexb s x))"
proof (cases x)
  case (SArm e)
  then show ?thesis by (simp add: manager_Arm_def attempts_move_def nth_append)
next
  case (SArmClose k)
  have "attempts_move s (s\<lparr>sm_closing := c\<rparr>)" for c by (rule move_same) simp
  then have "attempts_move s (attempt_Close j (s\<lparr>sm_closing := c\<rparr>))" for j c by (rule move_trans [OF _ Close_move])
  then show ?thesis using SArmClose by (simp add: move_same)
next
  case (SPicture i reads now)
  have "attempts_move s (upd_attempt i (sa_phase_update (\<lambda>_. AttemptFinishing)) (fst (manager_publish i jpeg now s)))"
    if "attempt_at s i AttemptRunning" for jpeg
    by (rule move_trans [OF move_same upd_move]) (simp_all add: publish_fields progress_def begun_def over_def)
  then show ?thesis using SPicture snapshot_step_picture [of init decode annexb s i reads now]
    by (auto simp del: snapshot_step.simps simp: move_same)
next
  case (STake i)
  then show ?thesis by (simp add: attempt_at_def take_move move_same)
next
  case (SExit i ok)
  then show ?thesis by (simp add: attempt_at_def exit_move move_same)
qed (auto simp: move_same Close_move finish_move attempt_at_def attempt_Consume_def progress_def begun_def over_def intro!: upd_move)

text \<open>The effects of a step: one at most, and what it says of the capture before and behind it.\<close>

lemma snapshot_step_effects:
  "snd (snapshot_step init decode annexb s x) = [] \<or>
   (\<exists>i d. snd (snapshot_step init decode annexb s x) = [StartedDecoder i d]) \<or>
   (\<exists>i path picture. snd (snapshot_step init decode annexb s x) = [Published i path picture] \<and> i < length (sm_attempts s) \<and>
      \<not> over (sm_attempts s ! i) \<and> over (sm_attempts (fst (snapshot_step init decode annexb s x)) ! i)) \<or>
   (\<exists>i unit w. x = STake i \<and> snd (snapshot_step init decode annexb s x) = [FedDecoder i (sa_decoders (sm_attempts s ! i)) unit w] \<and>
      i < length (sm_attempts s) \<and> \<not> sa_ended (sm_attempts s ! i) \<and>
      begun (sm_attempts (fst (snapshot_step init decode annexb s x)) ! i) \<and>
      sa_ended (sm_attempts (fst (snapshot_step init decode annexb s x)) ! i) \<and>
      sa_decoders (sm_attempts (fst (snapshot_step init decode annexb s x)) ! i) = sa_decoders (sm_attempts s ! i))"
proof (cases x)
  case (STake i)
  show ?thesis
  proof (cases "attempt_at s i AttemptRunning")
    case True
    then have i: "i < length (sm_attempts s)" and run: "sa_phase (sm_attempts s ! i) = AttemptRunning" by (simp_all add: attempt_at_def)
    obtain f where f: "fst (attempt_take decode annexb i s) = upd_attempt i f s"
      "sa_phase (f (sm_attempts s ! i)) = sa_phase (sm_attempts s ! i)" "sa_decoders (f (sm_attempts s ! i)) = sa_decoders (sm_attempts s ! i)"
      "snd (attempt_take decode annexb i s) = [] \<or>
       (\<exists>unit w. snd (attempt_take decode annexb i s) = [FedDecoder i (sa_decoders (sm_attempts s ! i)) unit w] \<and>
          \<not> sa_ended (sm_attempts s ! i) \<and> sa_ended (f (sm_attempts s ! i)))"
      by (rule attempt_take_claims [OF i])
    show ?thesis using f(4)
    proof (elim disjE exE)
      fix unit w
      assume "snd (attempt_take decode annexb i s) = [FedDecoder i (sa_decoders (sm_attempts s ! i)) unit w] \<and>
          \<not> sa_ended (sm_attempts s ! i) \<and> sa_ended (f (sm_attempts s ! i))"
      then show ?thesis using STake True i run f(1-3) by (simp add: begun_def)
    qed (simp add: STake True)
  qed (simp add: STake)
next
  case (SPicture i reads now)
  show ?thesis
  proof (cases "snd (snapshot_step init decode annexb s x) = []")
    case False
    then obtain jpeg where run: "attempt_at s i AttemptRunning"
      and eq: "snapshot_step init decode annexb s x =
        (upd_attempt i (sa_phase_update (\<lambda>_. AttemptFinishing)) (fst (manager_publish i jpeg now s)), snd (manager_publish i jpeg now s))"
      using SPicture snapshot_step_picture [of init decode annexb s i reads now] by (auto simp del: snapshot_step.simps)
    have "\<exists>path picture. snd (manager_publish i jpeg now s) = [Published i path picture]"
      using False eq by (auto simp: manager_publish_def Let_def split: if_splits)
    then show ?thesis using run unfolding eq by (auto simp: attempt_at_def over_def publish_fields)
  qed simp
qed (auto simp: attempt_exit_def Let_def)

definition fed_decoder :: "nat \<Rightarrow> nat \<Rightarrow> snapshot_effect \<Rightarrow> bool" where
  "fed_decoder i d e \<longleftrightarrow> (\<exists>unit w. e = FedDecoder i d unit w)"

definition published_by :: "nat \<Rightarrow> snapshot_effect \<Rightarrow> bool" where
  "published_by i e \<longleftrightarrow> (\<exists>path picture. e = Published i path picture)"

definition decoder_fed :: "nat \<Rightarrow> nat \<Rightarrow> 'd SnapshotManager \<Rightarrow> bool" where
  "decoder_fed i d s \<longleftrightarrow>
     i < length (sm_attempts s) \<and> begun (sm_attempts s ! i) \<and>
     (d < sa_decoders (sm_attempts s ! i) \<or> d = sa_decoders (sm_attempts s ! i) \<and> sa_ended (sm_attempts s ! i))"

definition capture_over :: "nat \<Rightarrow> 'd SnapshotManager \<Rightarrow> bool" where
  "capture_over i s \<longleftrightarrow> i < length (sm_attempts s) \<and> over (sm_attempts s ! i)"

lemma attempts_move_taken:
  assumes "attempts_move s t"
  shows "decoder_fed i d s \<Longrightarrow> decoder_fed i d t" "capture_over i s \<Longrightarrow> capture_over i t"
proof -
  have p: "i < length (sm_attempts s) \<Longrightarrow> i < length (sm_attempts t) \<and> progress (sm_attempts s ! i) (sm_attempts t ! i)"
    using assms by (auto simp: attempts_move_def)
  show "decoder_fed i d s \<Longrightarrow> decoder_fed i d t" "capture_over i s \<Longrightarrow> capture_over i t"
    using p by (auto simp: decoder_fed_def capture_over_def progress_def)
qed

lemma snapshot_step_length: "length (sm_attempts s) \<le> length (sm_attempts (fst (snapshot_step init decode annexb s x)))"
  using snapshot_step_moves [of s init decode annexb x] by (simp add: attempts_move_def)

interpretation decoder_input: claim_once "snapshot_step init decode annexb" "fed_decoder i d" "decoder_fed i d"
  for init :: 'd and decode annexb i d
proof
  fix s :: "'d SnapshotManager" and x
  let ?t = "fst (snapshot_step init decode annexb s x)" and ?e = "snd (snapshot_step init decode annexb s x)"
  note eff = snapshot_step_effects [of init decode annexb s x] and len = snapshot_step_length [of s init decode annexb x]
  show "decoder_fed i d s \<Longrightarrow> decoder_fed i d ?t \<and> filter (fed_decoder i d) ?e = []"
    by (intro conjI attempts_move_taken(1) [OF snapshot_step_moves], assumption)
      (use eff in \<open>auto simp: fed_decoder_def decoder_fed_def simp del: snapshot_step.simps\<close>)
  show "filter (fed_decoder i d) ?e \<noteq> [] \<Longrightarrow> decoder_fed i d ?t" "length (filter (fed_decoder i d) ?e) \<le> 1"
    using eff len by (auto simp: fed_decoder_def decoder_fed_def split: if_splits simp del: snapshot_step.simps)
qed

interpretation capture_picture: claim_once "snapshot_step init decode annexb" "published_by i" "capture_over i"
  for init :: 'd and decode annexb i
proof
  fix s :: "'d SnapshotManager" and x
  let ?t = "fst (snapshot_step init decode annexb s x)" and ?e = "snd (snapshot_step init decode annexb s x)"
  note eff = snapshot_step_effects [of init decode annexb s x] and len = snapshot_step_length [of s init decode annexb x]
  show "capture_over i s \<Longrightarrow> capture_over i ?t \<and> filter (published_by i) ?e = []"
    by (intro conjI attempts_move_taken(2) [OF snapshot_step_moves], assumption)
      (use eff in \<open>auto simp: published_by_def capture_over_def simp del: snapshot_step.simps\<close>)
  show "filter (published_by i) ?e \<noteq> [] \<Longrightarrow> capture_over i ?t" "length (filter (published_by i) ?e) \<le> 1"
    using eff len by (auto simp: published_by_def capture_over_def split: if_splits simp del: snapshot_step.simps)
qed

lemma fed_keyframe_step:
  assumes "attempts_ok s" and "FedDecoder i d unit w \<in> set (snd (snapshot_step init decode annexb s x))"
  shows "keyframe_unit unit \<and> d \<le> snapshotMaxDecoders"
proof -
  have x: "x = STake i" and i: "i < length (sm_attempts s)" and e: "d = sa_decoders (sm_attempts s ! i)"
    using assms(2) snapshot_step_effects [of init decode annexb s x] by (auto simp del: snapshot_step.simps)
  have ok: "attempt_ok (sm_attempts s ! i)" using assms(1) i by (simp add: attempts_ok_def list_all_length)
  then have "d \<le> snapshotMaxDecoders" by (simp add: e attempt_ok_def)
  moreover have "keyframe_unit unit"
    using i ok assms(2) unfolding x
    by (cases rule: attempt_take_cases [where decode = decode and annexb = annexb]) (auto split: if_splits)
  ultimately show ?thesis by simp
qed


section \<open>What the log keeps of a decoder's errors\<close>

definition cappedBuffer_Write :: "nat \<Rightarrow> bytes \<Rightarrow> bytes \<Rightarrow> bytes" where
  "cappedBuffer_Write mx b p = (if length b < mx then b @ take (min (length p) (mx - length b)) p else b)"

lemma cappedBuffer_keeps_first:
  "foldl (cappedBuffer_Write mx) (take mx b) ps = take mx (b @ concat ps)"
proof (induction ps arbitrary: b)
  case (Cons p ps)
  have "cappedBuffer_Write mx (take mx b) p = take mx (b @ p)"
    by (auto simp: cappedBuffer_Write_def min_def)
  then show ?case using Cons.IH [of "b @ p"] by simp
qed simp

section \<open>A ring with its picture\<close>

text \<open>Parameter sets and a keyframe, the picture in two reads, and both files written.\<close>

definition sample_snapshot_inputs :: "snapshot_input list" where
  "sample_snapshot_inputs =
     [SArm ''door'', SMarkRing 0, SStart 0, SRunnerStart 0 True,
      SConsume 0 (sample_packet 0 0x67), SConsume 0 (sample_packet 0 0x68), SConsume 0 (sample_packet 0 0x65),
      STake 0, STake 0, STake 0]"

definition sample_picture :: snapshot_input where
  "sample_picture = SPicture 0 [Chunk [1, 0xff, 0xd8], ChunkEOF [7, 0xff, 0xd9, 2]] 5"

definition sample_persist :: "snapshot_input list" where
  "sample_persist = [SPersistLock 0, SPersistLook, SPersistWrite (\<lambda>_. False), SPersistLook, SPersistWrite (\<lambda>_. False), SPersistLook]"

lemma sample_snapshot_paths:
  "snapshot_path ''/d'' ''door'' = Some ''/d/snapshots/door.jpg''" "snapshot_ringPath ''/d'' ''door'' = Some ''/d/snapshots/ring/door.jpg''"
proof -
  have t: "trim_space ''door'' = ''door''" by code_simp
  have j: "path_join [''/d'', ''snapshots''] = ''/d/snapshots''" by code_simp
  have "entrypointFileName ''door'' = Some ''door''"
    by (simp add: entrypointFileName_def t slash_def path_base_def trim_slashes_def after_last_slash_def)
  then obtain p r where p: "snapshot_path ''/d'' ''door'' = Some p" "snapshot_ringPath ''/d'' ''door'' = Some r"
    by (simp add: snapshot_path_def snapshot_ringPath_def)
  then show "snapshot_path ''/d'' ''door'' = Some ''/d/snapshots/door.jpg''" "snapshot_ringPath ''/d'' ''door'' = Some ''/d/snapshots/ring/door.jpg''"
    using snapshot_path_eq(1) [OF p(1)] snapshot_ringPath_eq [OF p(2)] by (simp_all add: t j)
qed

lemma sample_jpeg: "readFirstJPEG [Chunk [1, 0xff, 0xd8], ChunkEOF [7, 0xff, 0xd9, 2]] = Ok (Some [0xff, 0xd8, 7, 0xff, 0xd9])"
  by (simp add: readFirstJPEG_def firstJPEG_def snapshotMaxOutput_def)

lemma sample_snapshot_run:
  "run_effects (snapshot_step () sample_decode sample_avcc) (newSnapshotManager ''/d'' Map.empty) sample_snapshot_inputs =
     (\<lparr>sm_dir = ''/d'', sm_active = Some 0,
       sm_attempts = [\<lparr>sa_entrypointID = ''door'', sa_cancelled = False, sa_packets = [], sa_ring = True, sa_done = False,
         sa_phase = AttemptRunning,
         sa_units = \<lparr>au_decoder = (), au_sps = Some [0x67, 1], au_pps = Some [0x68, 1], au_started = True, au_skipped = 0,
           au_skippedTypes = [[7], [8], [5]], au_broken = 0\<rparr>,
         sa_decoders = 1, sa_fed = 1, sa_ended = True\<rparr>],
       sm_closing = [], sm_pictures = Map.empty, sm_files = Map.empty, sm_persists = [], sm_writing = None, sm_captured = 0\<rparr>,
      [StartedDecoder 0 1, FedDecoder 0 1 [[0x67, 1], [0x68, 1], [0x65, 1]] [0x67, 1, 0x68, 1, 0x65, 1, 0x09, 0xf0]])"
  by (simp add: sample_snapshot_inputs_def newSnapshotManager_def manager_Arm_def upd_attempt_def attempt_at_def attempt_Consume_def
      snapshotPacketBufferSize_def attempt_take_def snapshot_push_def push_unit_def sample_decode_def sample_packet_def scan_nalu_def
      nalu_types_def newSnapshotAccessUnits_def snapshotMaxSkippedTypes_def sample_avcc_def snapshotAccessUnitDelimiter_def process_Write_def Let_def)

text \<open>The state right before the picture, behind it and behind the writes.\<close>

definition sample_before :: "unit SnapshotManager" where
  "sample_before = fst (run_effects (snapshot_step () sample_decode sample_avcc) (newSnapshotManager ''/d'' Map.empty) sample_snapshot_inputs)"

definition sample_after :: "unit SnapshotManager" where
  "sample_after = fst (snapshot_step () sample_decode sample_avcc sample_before sample_picture)"

lemma sample_after_state:
  "sm_dir sample_after = ''/d''" "sm_active sample_after = Some 0" "sm_files sample_after = Map.empty" "sm_writing sample_after = None"
  "sm_persists sample_after = [[''/d/snapshots/door.jpg'', ''/d/snapshots/ring/door.jpg'']]"
  "sm_pictures sample_after = (\<lambda>p. if p = ''/d/snapshots/door.jpg'' \<or> p = ''/d/snapshots/ring/door.jpg''
      then Some \<lparr>sp_image = [0xff, 0xd8, 7, 0xff, 0xd9], sp_takenAt = 5\<rparr> else None)"
proof -
  have p: "publish_paths ''/d'' (sm_attempts sample_before ! 0) = [''/d/snapshots/door.jpg'', ''/d/snapshots/ring/door.jpg'']"
    by (simp add: publish_paths_def sample_before_def sample_snapshot_run sample_snapshot_paths)
  have b: "sm_dir sample_before = ''/d''" "sm_active sample_before = Some 0" "sm_files sample_before = Map.empty" "sm_writing sample_before = None"
    "sm_persists sample_before = []" "sm_pictures sample_before = Map.empty" "attempt_at sample_before 0 AttemptRunning"
    "\<not> sa_cancelled (sm_attempts sample_before ! 0)"
    by (simp_all add: sample_before_def sample_snapshot_run attempt_at_def)
  note defs = sample_after_def sample_picture_def snapshot_step.simps sample_jpeg manager_publish_def Let_def p b
  show "sm_dir sample_after = ''/d''" "sm_active sample_after = Some 0" "sm_files sample_after = Map.empty" "sm_writing sample_after = None"
    "sm_persists sample_after = [[''/d/snapshots/door.jpg'', ''/d/snapshots/ring/door.jpg'']]"
    by (simp_all add: defs)
  show "sm_pictures sample_after = (\<lambda>p. if p = ''/d/snapshots/door.jpg'' \<or> p = ''/d/snapshots/ring/door.jpg''
      then Some \<lparr>sp_image = [0xff, 0xd8, 7, 0xff, 0xd9], sp_takenAt = 5\<rparr> else None)"
    by (simp add: defs cong: if_cong)
qed

lemma sample_persisted:
  "let t = fst (run_effects (snapshot_step () sample_decode sample_avcc) sample_after sample_persist) in
   sm_persists t = [] \<and> sm_writing t = None \<and> sm_dir t = ''/d'' \<and> sm_pictures t = sm_pictures sample_after"
proof -
  have "let t = fst (run_effects (snapshot_step () sample_decode sample_avcc) s sample_persist) in
      sm_persists t = [] \<and> sm_writing t = None \<and> sm_dir t = sm_dir s \<and> sm_pictures t = sm_pictures s"
    if "sm_writing s = None" "sm_persists s = [[p, q]]" "sm_pictures s p = Some x" "sm_pictures s q = Some y" for s p q x y
    using that by (cases s) (simp add: sample_persist_def persist_lock_def persist_look_def persist_write_def drop_nth_def Let_def)
  from this [OF sample_after_state(4,5)] show ?thesis by (simp add: sample_after_state Let_def)
qed

lemma sample_run_split:
  "fst (run_effects (snapshot_step () sample_decode sample_avcc) (newSnapshotManager ''/d'' Map.empty)
      (sample_snapshot_inputs @ sample_picture # sample_persist)) =
   fst (run_effects (snapshot_step () sample_decode sample_avcc) sample_after sample_persist)"
  by (simp add: run_effects_append sample_after_def sample_before_def split: prod.splits del: snapshot_step.simps)

theorem pictures_survive_restart_witness:
  "manager_LatestRing (restarted (fst (run_effects (snapshot_step () sample_decode sample_avcc) (newSnapshotManager ''/d'' Map.empty)
      (sample_snapshot_inputs @ sample_picture # sample_persist)))) ''door'' = Ok [0xff, 0xd8, 7, 0xff, 0xd9]"
proof -
  let ?xs = "sample_snapshot_inputs @ sample_picture # sample_persist"
  let ?s = "fst (run_effects (snapshot_step () sample_decode sample_avcc) (newSnapshotManager ''/d'' Map.empty) ?xs)"
  have ok: "list_all writes_ok ?xs" by (simp add: sample_snapshot_inputs_def sample_picture_def sample_persist_def)
  have s: "sm_persists ?s = []" "sm_writing ?s = None" "sm_dir ?s = ''/d''" "sm_pictures ?s = sm_pictures sample_after"
    using sample_persisted by (simp_all add: sample_run_split Let_def)
  have "manager_LatestRing ?s ''door'' = Ok [0xff, 0xd8, 7, 0xff, 0xd9]"
    by (simp add: manager_LatestRing_def manager_read_def s sample_snapshot_paths sample_after_state)
  then show ?thesis using pictures_survive_restart [OF ok refl s(1,2), of "''door''"] by simp
qed

theorem ring_picture_from_ring_witness:
  "sm_pictures sample_after ''/d/snapshots/ring/door.jpg'' \<noteq> sm_pictures sample_before ''/d/snapshots/ring/door.jpg'' \<and>
   sa_ring (sm_attempts sample_before ! 0) \<and> sm_active sample_before = Some 0"
proof -
  have "sm_dir sample_before = ''/d''" "sm_pictures sample_before = Map.empty" by (simp_all add: sample_before_def sample_snapshot_run)
  then have p: "snapshot_ringPath (sm_dir sample_before) ''door'' = Some ''/d/snapshots/ring/door.jpg''"
    and d: "sm_pictures sample_after ''/d/snapshots/ring/door.jpg'' \<noteq> sm_pictures sample_before ''/d/snapshots/ring/door.jpg''"
    by (simp_all add: sample_snapshot_paths sample_after_state)
  show ?thesis using ring_picture_from_ring [OF p sample_after_def d] d by (auto simp: sample_picture_def)
qed

end
