(* ===== verification/Spec2Isabelle.thy ===== *)
theory Spec2Isabelle
  imports Core_State Storage_File Config_Model OWN_Frames OWN_Mapper Sig_Manager Media_Fanout Media_Coordinator Auth_Store Sys_Update App_Ring Media_Session OWN_Client Sig_Sdp Ringer_Sync Media_Clip Sig_Register Sig_Dialer Media_Snapshot
begin

text \<open>
  The verification development of the BTicino GO Companion, the program that runs beside the firmware of a BTicino
  intercom and connects it to Home Assistant, HomeKit and browsers. The sources are those under \<^verbatim>\<open>src/\<close>; the packages are
  below \<^verbatim>\<open>src/internal\<close>.

  \<^bold>\<open>The program and its parts.\<close> The intercom speaks OpenWebNet on a multicast bus and on a command port, and SIP to a
  local proxy. The bus frames are parsed (\<^verbatim>\<open>openwebnet/parser.go\<close>, \<^verbatim>\<open>frames.go\<close>) and mapped to events (\<^verbatim>\<open>mapper.go\<close>); the SIP
  dialer (\<^verbatim>\<open>signaling/dialer.go\<close>) hands inbound calls to the call manager (\<^verbatim>\<open>manager.go\<close>), which publishes events of its own;
  the projector (\<^verbatim>\<open>core\<close>) folds all events into the state that clients see. Media flows through a source session
  (\<^verbatim>\<open>media/source_session.go\<close>) that owns the SIP dialog and the receivers, a coordinator (\<^verbatim>\<open>stream_coordinator.go\<close>) that
  shares the one stream among consumers, a fan-out (\<^verbatim>\<open>fanout.go\<close>), the pictures (\<^verbatim>\<open>snapshot.go\<close>) and the clips of a ring
  (\<^verbatim>\<open>ringclip.go\<close>). The application (\<^verbatim>\<open>app\<close>) ties a ring to all of them. Configuration, pairing, updates and the ringer
  are stores of their own.

  \<^bold>\<open>How the code is translated.\<close> A struct is a \<^theory_text>\<open>record\<close>, an interface with a fixed set of implementations or an enumeration a
  \<^theory_text>\<open>datatype\<close>, a function or method one definition of the same name (with the receiver as a prefix where two share a name).
  An error is a value of a sum type. What a method does between a lock and its unlock is one step; a method that lets go of
  its lock, waits on a channel or calls out is cut there, and the steps of all goroutines are run in every order by a function over
  a list of inputs, which also carries the answers of system calls, timers and random numbers. Machine
  integers are words where the code relies on their width (RTP timestamps and sequence numbers, track durations);
  elsewhere they are integers or natural numbers and the lemmas bound them. Third-party code (YAML and JSON, SHA-256, bcrypt, tar,
  H.264 depacketizer and encoder, SIP stack) is a parameter, and what is relied on is a named hypothesis.

  \<^bold>\<open>Theories.\<close>
  \<^item> \<open>Go_Prelude\<close>: strings, integers, instants and lists as Go and its library have them, and the lemmas on them. The loops of
    \<^verbatim>\<open>strings.TrimSpace\<close> have the length of the string as fuel, which is enough since every round removes a byte.
  \<^item> \<open>Atomic_Write\<close>: the locale of an atomic file replacement. \<open>Storage_File\<close> (\<^verbatim>\<open>storage/file.go\<close>) and \<open>Media_Files\<close>
    (\<^verbatim>\<open>writeFileAtomicFunc\<close> of \<^verbatim>\<open>media/snapshot.go\<close> and the names of pictures and clips) interpret it; a reader never sees a part
    of a file, whichever system call fails.
  \<^item> \<open>Core_State\<close> (\<^verbatim>\<open>core/events.go\<close>, \<^verbatim>\<open>state.go\<close>): events, state, transitions and projector, with its invariant.
  \<^item> \<open>Event_Source\<close>: the locale of a component that publishes to the projector. Inside it, every queueing and interleaving
    of such a source is shown to be accepted. \<open>OWN_Mapper\<close> and \<open>Sig_Manager\<close> interpret it.
  \<^item> \<open>OWN_Frames\<close> (\<^verbatim>\<open>openwebnet/parser.go\<close>, \<^verbatim>\<open>frames.go\<close>), \<open>OWN_Mapper\<close> (\<^verbatim>\<open>mapper.go\<close>), \<open>OWN_Client\<close> (\<^verbatim>\<open>client.go\<close>,
    \<^verbatim>\<open>av.go\<close>): round trips of datagrams and frames, duplicates, the order of an unlock, and the end of the AV requests after 61 at
    most. A frame may be as long as the buffer of 4096 bytes allows after a read of 128 (3969 bytes).
  \<^item> \<open>Sig_Manager\<close> (\<^verbatim>\<open>signaling/manager.go\<close>): the inbound and the active call, expiry, publish queue and drain goroutine; invariant,
    refinement of the projector contract, delivery.
  \<^item> \<open>Sig_Sdp\<close> (\<^verbatim>\<open>sdp.go\<close>, \<^verbatim>\<open>keepalive.go\<close>, \<^verbatim>\<open>profile.go\<close>): the descriptions come back as they were written; the counters of the keepalive
    wrap at their widths.
  \<^item> \<open>Media_Fanout\<close>, \<open>Media_Coordinator\<close>, \<open>Media_Session\<close> (\<^verbatim>\<open>media/fanout.go\<close>, \<^verbatim>\<open>stream_coordinator.go\<close>,
    \<^verbatim>\<open>source_session.go\<close>, \<^verbatim>\<open>profile.go\<close>): keyframe cache, leases, teardown and dialogs; the session runs on the model of the manager,
    and what it leaves behind is shown for the two together.
  \<^item> \<open>Media_Clip\<close> (\<^verbatim>\<open>media/ringclip.go\<close>): the writer of a clip with its 32-bit timestamps, the recorder with queues of 256
    packets and a goroutine for every clip; what is on disk is playable, and a closed clip ends.
  \<^item> \<open>Claim_Once\<close>: the locale of a thing that is claimed once. \<open>Sig_Dialer\<close> (\<^verbatim>\<open>signaling/dialer.go\<close>, inbound calls) interprets it
    for the end of every dialog; the two ways a call ends are never confused, and the map of dialogs and the count of goroutines
    are exact. \<open>Sig_Register\<close> (the rest of \<^verbatim>\<open>dialer.go\<close>): addresses and the registration loop; the waiting loop ends because its tick
    moves towards the refresh.
  \<^item> \<open>Media_Snapshot\<close> (\<^verbatim>\<open>media/snapshot.go\<close>): the captures with their queues and decoders, the published pictures and the goroutines that
    write them. It interprets \<open>Claim_Once\<close> for the input of every decoder and the picture of every capture. A restart serves the same pictures; only a ring
    changes the doorbell picture; a decoder is given one keyframe.
  \<^item> \<open>App_Ring\<close> (\<^verbatim>\<open>app/ringwatch.go\<close>, \<^verbatim>\<open>buscall.go\<close>, \<^verbatim>\<open>pipelines.go\<close>, \<^verbatim>\<open>ringholder.go\<close>, parts of \<^verbatim>\<open>run.go\<close>): what the application does
    during a ring.
  \<^item> \<open>Config_Model\<close> (\<^verbatim>\<open>config/config.go\<close>), \<open>Auth_Store\<close> (\<^verbatim>\<open>auth/store.go\<close>, \<^verbatim>\<open>owner.go\<close>), \<open>Sys_Update\<close>
    (\<^verbatim>\<open>system/release.go\<close>, \<^verbatim>\<open>update.go\<close>), \<open>Ringer_Sync\<close> (\<^verbatim>\<open>ringersync\<close>): the stores, with their guards, their errors and what they
    leave when a step fails.

  \<^bold>\<open>What the theorems show.\<close> The claims \<open>C1\<close> to \<open>C40\<close> stand in the theories of their components. The first group is about the
  calls: the projector's invariant, the manager and the mapper as sources it accepts under every interleaving, and delivery.
  The second is about who may do what: tokens, claims, updates. The third is about media: joins, leases,
  teardown, dialogs, rings, clips. The last is about data at rest and on the wire. Some theorems show behaviour the code does not mean to
  have; they describe an interleaving or a failure and its outcome.

  \<^bold>\<open>Not modelled.\<close> HTTP, WebSocket, WebRTC, RTSP and HomeKit servers, mDNS and the web pages are adapters of
  third-party stacks and request decoding around the modelled operations. The audio bridge, diagnostics, logging, traces and the reads of
  system files drive child processes, sockets and files without logic of their own to state. Of \<^verbatim>\<open>app/run.go\<close> the construction
  of the services is left out. Real time enters as instants given to the steps; the scheduler is the order of the inputs, and no
  fairness is assumed: the liveness theorems name the steps that lead to the goal.
\<close>

end
